(* ===== verification/Rho_Prelude.thy ===== *)
theory Rho_Prelude
  imports
    Main
    "HOL-Library.Word"
    "HOL-Library.Char_ord"
    "HOL-Library.List_Lexorder"
    "HOL-Library.Product_Lexorder"
    "HOL-Library.Option_ord"
    "HOL-Library.Multiset"
begin

text \<open>
  Shared vocabulary of the development.

  \<^item> Rust's \<open>String\<close>, \<open>str\<close> and \<open>[u8]\<close> are all HOL strings: a \<open>char\<close> of HOL is one of the
    256 bytes, so a string here is the UTF-8 byte sequence the program stores, \<open>length\<close> is
    \<open>str::len\<close> and the linear order of \<open>HOL-Library.List_Lexorder\<close> is Rust's bytewise \<open>Ord\<close>.
  \<^item> \<open>u64\<close> is a 64-bit word (\<open>+\<close> wraps, \<open>checked_add\<close> is written out); \<open>usize\<close> lengths of
    collections that live in memory are natural numbers.
  \<^item> \<open>Result<A, E>\<close> is the sum \<open>'e + 'a\<close>, with \<open>Err\<close> and \<open>Ok\<close> as abbreviations.
\<close>

named_theorems rho_defs "definitions of the model that client proofs unfold"
named_theorems rho_inv "preservation lemmas of the component invariants"

type_synonym u64 = "64 word"
type_synonym ('e, 'a) result = "'e + 'a"

abbreviation Err :: "'e \<Rightarrow> ('e, 'a) result" where "Err \<equiv> Inl"
abbreviation Ok :: "'a \<Rightarrow> ('e, 'a) result" where "Ok \<equiv> Inr"

section \<open>Results\<close>

definition is_ok :: "('e, 'a) result \<Rightarrow> bool" where
  "is_ok r = (case r of Inl _ \<Rightarrow> False | Inr _ \<Rightarrow> True)"

lemma is_ok_simps [simp]: "is_ok (Ok a)" "\<not> is_ok (Err e)"
  by (simp_all add: is_ok_def)

lemma is_ok_iff: "is_ok r \<longleftrightarrow> (\<exists>a. r = Ok a)"
  by (cases r) simp_all

lemma is_ok_unit [simp]: "is_ok (r :: ('e, unit) result) \<longleftrightarrow> r = Ok ()"
  by (cases r) simp_all

text \<open>Rust's \<open>?\<close>: continue with the value, or return the error.\<close>

definition try_res :: "('e, 'a) result \<Rightarrow> ('a \<Rightarrow> ('e, 'b) result) \<Rightarrow> ('e, 'b) result" where
  "try_res r k = (case r of Inl e \<Rightarrow> Inl e | Inr a \<Rightarrow> k a)"

lemma try_res_simps [simp]: "try_res (Ok a) k = k a" "try_res (Err e) k = Err e"
  by (simp_all add: try_res_def)

lemma try_res_Ok_iff: "try_res r k = Ok b \<longleftrightarrow> (\<exists>a. r = Ok a \<and> k a = Ok b)"
  by (cases r) simp_all

text \<open>Rust's \<open>map_err\<close>.\<close>

definition map_err :: "('e \<Rightarrow> 'f) \<Rightarrow> ('e, 'a) result \<Rightarrow> ('f, 'a) result" where
  "map_err f r = (case r of Inl e \<Rightarrow> Inl (f e) | Inr a \<Rightarrow> Inr a)"

lemma map_err_simps [simp]: "map_err f (Ok a) = Ok a" "map_err f (Err e) = Err (f e)"
  by (simp_all add: map_err_def)

lemma map_err_Ok_iff [simp]: "map_err f r = Ok a \<longleftrightarrow> r = Ok a"
  by (cases r) simp_all

text \<open>A \<open>for\<close> loop whose body returns early on error: the first error wins.\<close>

fun for_each :: "('a \<Rightarrow> ('e, unit) result) \<Rightarrow> 'a list \<Rightarrow> ('e, unit) result" where
  "for_each f [] = Ok ()"
| "for_each f (x # xs) = try_res (f x) (\<lambda>_. for_each f xs)"

lemma for_each_Ok_iff [simp]: "for_each f xs = Ok () \<longleftrightarrow> (\<forall>x\<in>set xs. f x = Ok ())"
  by (induction xs) (auto simp: try_res_Ok_iff)

lemma for_each_Err:
  "for_each f xs = Err e \<Longrightarrow> \<exists>ys x zs. xs = ys @ x # zs \<and> f x = Err e \<and> (\<forall>y\<in>set ys. f y = Ok ())"
proof (induction xs)
  case (Cons x xs)
  show ?case
  proof (cases "f x")
    case (Inl e')
    with Cons.prems have "x # xs = [] @ x # xs" "f x = Err e" by auto
    then show ?thesis by fastforce
  next
    case (Inr u)
    with Cons.prems have "for_each f xs = Err e" by simp
    then obtain ys x' zs where "xs = ys @ x' # zs" "f x' = Err e" "\<forall>y\<in>set ys. f y = Ok ()"
      using Cons.IH by blast
    moreover have "f x = Ok ()" using Inr by simp
    ultimately have "x # xs = (x # ys) @ x' # zs \<and> f x' = Err e \<and> (\<forall>y\<in>set (x # ys). f y = Ok ())"
      by simp
    then show ?thesis by blast
  qed
qed simp

text \<open>A loop that threads a state and returns early: on an error, or (as \<open>None\<close>) by panicking.\<close>

fun fold_res :: "('s \<Rightarrow> 'a \<Rightarrow> ('e, 's) result) \<Rightarrow> 's \<Rightarrow> 'a list \<Rightarrow> ('e, 's) result" where
  "fold_res f s [] = Ok s"
| "fold_res f s (x # xs) = try_res (f s x) (\<lambda>s'. fold_res f s' xs)"

fun fold_opt :: "('s \<Rightarrow> 'a \<Rightarrow> 's option) \<Rightarrow> 's \<Rightarrow> 'a list \<Rightarrow> 's option" where
  "fold_opt f s [] = Some s"
| "fold_opt f s (x # xs) = (case f s x of None \<Rightarrow> None | Some s' \<Rightarrow> fold_opt f s' xs)"

lemma fold_res_inv:
  "fold_res f s xs = Ok s' \<Longrightarrow> P s \<Longrightarrow> (\<And>s x t. x \<in> set xs \<Longrightarrow> P s \<Longrightarrow> f s x = Ok t \<Longrightarrow> P t) \<Longrightarrow> P s'"
  by (induction xs arbitrary: s) (auto simp: try_res_Ok_iff)

lemma fold_res_Err:
  "fold_res f s xs = Err e \<Longrightarrow> \<exists>s' x. x \<in> set xs \<and> f s' x = Err e"
proof (induction xs arbitrary: s)
  case (Cons x xs)
  show ?case
  proof (cases "f s x")
    case (Inl e')
    then have "f s x = Err e" using Cons.prems by simp
    then show ?thesis by auto
  next
    case (Inr s')
    then have "fold_res f s' xs = Err e" using Cons.prems by simp
    from Cons.IH [OF this] show ?thesis by auto
  qed
qed simp

lemma fold_res_append: "fold_res f s (xs @ ys) = try_res (fold_res f s xs) (\<lambda>t. fold_res f t ys)"
proof (induction xs arbitrary: s)
  case (Cons x xs)
  then show ?case by (cases "f s x") simp_all
qed simp

section \<open>Duplicate detection with a growing set\<close>

text \<open>
  The idiom \<open>values.iter().any(|v| !seen.insert(key(v)))\<close> over a \<open>BTreeSet\<close>.
\<close>

fun dup_scan :: "'k set \<Rightarrow> 'k list \<Rightarrow> bool" where
  "dup_scan seen [] = False"
| "dup_scan seen (x # xs) = (x \<in> seen \<or> dup_scan (insert x seen) xs)"

lemma dup_scan_iff: "dup_scan seen xs \<longleftrightarrow> \<not> distinct xs \<or> set xs \<inter> seen \<noteq> {}"
  by (induction xs arbitrary: seen) auto

lemma dup_scan_empty [simp]: "dup_scan {} xs \<longleftrightarrow> \<not> distinct xs"
  by (simp add: dup_scan_iff)

section \<open>Strings as bytes\<close>

abbreviation byte_of :: "char \<Rightarrow> nat" where "byte_of c \<equiv> of_char c"

definition ascii_lowercase :: "char \<Rightarrow> bool" where
  "ascii_lowercase c \<longleftrightarrow> 97 \<le> byte_of c \<and> byte_of c \<le> 122"

definition ascii_uppercase :: "char \<Rightarrow> bool" where
  "ascii_uppercase c \<longleftrightarrow> 65 \<le> byte_of c \<and> byte_of c \<le> 90"

definition ascii_digit :: "char \<Rightarrow> bool" where
  "ascii_digit c \<longleftrightarrow> 48 \<le> byte_of c \<and> byte_of c \<le> 57"

text \<open>The UTF-8 continuation bytes; \<open>str::is_char_boundary\<close> is about them.\<close>

definition is_continuation :: "char \<Rightarrow> bool" where
  "is_continuation c \<longleftrightarrow> 128 \<le> byte_of c \<and> byte_of c < 192"

definition starts_with :: "string \<Rightarrow> string \<Rightarrow> bool" where
  "starts_with p s \<longleftrightarrow> take (length p) s = p"

definition ends_with :: "string \<Rightarrow> string \<Rightarrow> bool" where
  "ends_with p s \<longleftrightarrow> starts_with (rev p) (rev s)"

definition strip_prefix :: "string \<Rightarrow> string \<Rightarrow> string option" where
  "strip_prefix p s = (if starts_with p s then Some (drop (length p) s) else None)"

fun contains_str :: "string \<Rightarrow> string \<Rightarrow> bool" where
  "contains_str p [] = (p = [])"
| "contains_str p (c # s) = (starts_with p (c # s) \<or> contains_str p s)"

lemma starts_with_iff: "starts_with p s \<longleftrightarrow> (\<exists>t. s = p @ t)"
  unfolding starts_with_def by (metis append_eq_conv_conj append_take_drop_id)

lemma starts_with_append [simp]: "starts_with p (p @ t)"
  by (simp add: starts_with_def)

lemma starts_with_Nil [simp]: "starts_with [] s"
  by (simp add: starts_with_def)

lemma starts_with_single [simp]: "starts_with [c] s \<longleftrightarrow> s \<noteq> [] \<and> hd s = c"
  by (cases s) (auto simp: starts_with_def)

lemma ends_with_iff: "ends_with p s \<longleftrightarrow> (\<exists>t. s = t @ p)"
  unfolding ends_with_def starts_with_iff by (metis rev_append rev_rev_ident)

lemma strip_prefix_Some_iff [simp]: "strip_prefix p s = Some t \<longleftrightarrow> s = p @ t"
  unfolding strip_prefix_def starts_with_iff by auto

lemma strip_prefix_None_iff: "strip_prefix p s = None \<longleftrightarrow> \<not> starts_with p s"
  by (simp add: strip_prefix_def)

lemma contains_str_iff: "contains_str p s \<longleftrightarrow> (\<exists>a b. s = a @ p @ b)"
proof (induction s)
  case (Cons c s)
  show ?case
  proof
    assume "contains_str p (c # s)"
    show "\<exists>a b. c # s = a @ p @ b"
    proof (cases "starts_with p (c # s)")
      case True
      then obtain t where "c # s = [] @ p @ t" by (auto simp: starts_with_iff)
      then show ?thesis by blast
    next
      case False
      with \<open>contains_str p (c # s)\<close> obtain a b where "s = a @ p @ b" using Cons.IH by auto
      then have "c # s = (c # a) @ p @ b" by simp
      then show ?thesis by blast
    qed
  next
    assume "\<exists>a b. c # s = a @ p @ b"
    then obtain a b where e: "c # s = a @ p @ b" by blast
    show "contains_str p (c # s)"
    proof (cases a)
      case Nil
      with e have "starts_with p (c # s)" by (auto simp: starts_with_iff)
      then show ?thesis by simp
    next
      case (Cons d a')
      with e have "s = a' @ p @ b" by simp
      then show ?thesis using Cons.IH by (metis contains_str.simps(2))
    qed
  qed
qed auto

text \<open>\<open>str::split\<close> on the characters of a set: always at least one component.\<close>

fun split_on :: "(char \<Rightarrow> bool) \<Rightarrow> string \<Rightarrow> string list" where
  "split_on p [] = [[]]"
| "split_on p (c # s) =
     (if p c then [] # split_on p s
      else (case split_on p s of [] \<Rightarrow> [[c]] | w # ws \<Rightarrow> (c # w) # ws))"

lemma split_on_not_Nil [simp]: "split_on p s \<noteq> []"
  by (induction s) (auto split: list.splits)

lemma split_on_no_sep: "w \<in> set (split_on p s) \<Longrightarrow> c \<in> set w \<Longrightarrow> \<not> p c"
  by (induction s arbitrary: w) (fastforce split: if_splits list.splits)+

lemma split_on_chars: "w \<in> set (split_on p s) \<Longrightarrow> set w \<subseteq> set s"
  by (induction s arbitrary: w) (fastforce split: if_splits list.splits)+

lemma split_on_cong: "(\<And>c. c \<in> set s \<Longrightarrow> p c = q c) \<Longrightarrow> split_on p s = split_on q s"
  by (induction s) (auto split: list.splits)

lemma hd_split_on_Nil: "hd (split_on p s) = [] \<longleftrightarrow> s = [] \<or> p (hd s)"
  by (cases s) (auto split: list.splits)

section \<open>Hexadecimal encoding\<close>

definition hex_digit :: "nat \<Rightarrow> char" where
  "hex_digit n = (if n < 10 then char_of (48 + n) else char_of (87 + n))"

fun hex_encode :: "string \<Rightarrow> string" where
  "hex_encode [] = []"
| "hex_encode (b # bs) =
     hex_digit (byte_of b div 16) # hex_digit (byte_of b mod 16) # hex_encode bs"

definition lower_hex :: "char \<Rightarrow> bool" where
  "lower_hex c \<longleftrightarrow> ascii_digit c \<or> (97 \<le> byte_of c \<and> byte_of c \<le> 102)"

lemma length_hex_encode [simp]: "length (hex_encode bs) = 2 * length bs"
  by (induction bs) simp_all

lemma byte_of_less: "byte_of c < 256"
  by simp

lemma of_char_of_small: "n < 256 \<Longrightarrow> byte_of (char_of n) = n"
  by (simp add: of_char_of)

lemma byte_of_hex_digit: "n < 16 \<Longrightarrow> byte_of (hex_digit n) = (if n < 10 then 48 + n else 87 + n)"
  by (simp add: hex_digit_def of_char_of)

lemma hex_digit_lower: "n < 16 \<Longrightarrow> lower_hex (hex_digit n)"
  by (simp add: lower_hex_def ascii_digit_def byte_of_hex_digit)

lemma hex_digit_inj:
  assumes "m < 16" "n < 16"
  shows "hex_digit m = hex_digit n \<longleftrightarrow> m = n"
proof
  assume "hex_digit m = hex_digit n"
  then have "byte_of (hex_digit m) = byte_of (hex_digit n)" by simp
  with assms show "m = n" by (auto simp: byte_of_hex_digit split: if_splits)
qed simp

lemma hex_encode_lower: "c \<in> set (hex_encode bs) \<Longrightarrow> lower_hex c"
proof (induction bs)
  case (Cons b bs)
  have "byte_of b div 16 < 16" using byte_of_less [of b] by (simp add: less_mult_imp_div_less)
  with Cons show ?case by (auto intro: hex_digit_lower)
qed simp

lemma hex_encode_inj: "hex_encode xs = hex_encode ys \<longleftrightarrow> xs = ys"
proof (induction xs arbitrary: ys)
  case Nil
  then show ?case by (cases ys) auto
next
  case (Cons x xs)
  show ?case
  proof (cases ys)
    case (Cons y ys')
    have d: "byte_of x div 16 < 16" "byte_of y div 16 < 16"
      using byte_of_less [of x] byte_of_less [of y] by (simp_all add: less_mult_imp_div_less)
    have "x = y" if "byte_of x div 16 = byte_of y div 16" "byte_of x mod 16 = byte_of y mod 16"
      using that by (metis div_mult_mod_eq of_char_eq_iff)
    with Cons d Cons.IH show ?thesis by (auto simp: hex_digit_inj)
  qed simp
qed

end
