(* ===== verification/Ordered_Map.thy ===== *)
theory Ordered_Map
  imports Rho_Prelude
begin

text \<open>
  \<open>std::collections::BTreeMap\<close> and \<open>BTreeSet\<close> as the program uses them: an association list in
  ascending key order, so that iteration (\<open>values\<close>, \<open>keys\<close>, \<open>iter\<close>, \<open>retain\<close>, \<open>values_mut\<close>)
  is in the order Rust iterates. The interface the components rely on is the locale
  \<open>ordered_store\<close>; its interpretation on the sorted lists discharges the laws once.
\<close>

type_synonym ('k, 'v) btree = "('k \<times> 'v) list"

definition bt_ok :: "('k :: linorder, 'v) btree \<Rightarrow> bool" where
  "bt_ok m \<longleftrightarrow> sorted_wrt (<) (map fst m)"

definition bt_empty :: "('k, 'v) btree" where
  "bt_empty = []"

fun bt_get :: "('k, 'v) btree \<Rightarrow> 'k \<Rightarrow> 'v option" where
  "bt_get [] k = None"
| "bt_get ((k', v) # m) k = (if k' = k then Some v else bt_get m k)"

fun bt_insert :: "'k :: linorder \<Rightarrow> 'v \<Rightarrow> ('k, 'v) btree \<Rightarrow> ('k, 'v) btree" where
  "bt_insert k v [] = [(k, v)]"
| "bt_insert k v ((k', v') # m) =
     (if k < k' then (k, v) # (k', v') # m
      else if k = k' then (k, v) # m
      else (k', v') # bt_insert k v m)"

definition bt_retain :: "('k \<Rightarrow> 'v \<Rightarrow> bool) \<Rightarrow> ('k, 'v) btree \<Rightarrow> ('k, 'v) btree" where
  "bt_retain p m = filter (\<lambda>(k, v). p k v) m"

definition bt_remove :: "'k \<Rightarrow> ('k, 'v) btree \<Rightarrow> ('k, 'v) btree" where
  "bt_remove k m = bt_retain (\<lambda>k' _. k' \<noteq> k) m"

definition bt_keys :: "('k, 'v) btree \<Rightarrow> 'k list" where
  "bt_keys m = map fst m"

definition bt_values :: "('k, 'v) btree \<Rightarrow> 'v list" where
  "bt_values m = map snd m"

text \<open>\<open>for value in map.values_mut() { ... }\<close>: every value rewritten, keys untouched.\<close>

definition bt_map_values :: "('v \<Rightarrow> 'v) \<Rightarrow> ('k, 'v) btree \<Rightarrow> ('k, 'v) btree" where
  "bt_map_values f m = map (\<lambda>(k, v). (k, f v)) m"

text \<open>\<open>if let Some(v) = map.get_mut(k) { *v = f(*v) }\<close>.\<close>

definition bt_modify :: "'k \<Rightarrow> ('v \<Rightarrow> 'v) \<Rightarrow> ('k, 'v) btree \<Rightarrow> ('k, 'v) btree" where
  "bt_modify k f m = map (\<lambda>(k', v). (k', if k' = k then f v else v)) m"

definition bt_contains_key :: "('k, 'v) btree \<Rightarrow> 'k \<Rightarrow> bool" where
  "bt_contains_key m k \<longleftrightarrow> bt_get m k \<noteq> None"

section \<open>Lookups\<close>

lemma bt_get_empty [simp]: "bt_get bt_empty k = None"
  by (simp add: bt_empty_def)

lemma bt_get_insert [simp]: "bt_get (bt_insert k v m) k' = (if k = k' then Some v else bt_get m k')"
  by (induction m) auto

lemma bt_get_remove [simp]: "bt_get (bt_remove k m) k' = (if k = k' then None else bt_get m k')"
  by (induction m) (auto simp: bt_remove_def bt_retain_def)

lemma bt_get_map_values [simp]: "bt_get (bt_map_values f m) k = map_option f (bt_get m k)"
  by (induction m) (auto simp: bt_map_values_def)

lemma bt_get_modify [simp]:
  "bt_get (bt_modify k f m) k' = (if k = k' then map_option f (bt_get m k) else bt_get m k')"
  by (induction m) (auto simp: bt_modify_def)

lemma map_fst_bt_modify [simp]: "map fst (bt_modify k f m) = map fst m"
  by (induction m) (auto simp: bt_modify_def)

lemma bt_get_None_iff: "bt_get m k = None \<longleftrightarrow> k \<notin> set (bt_keys m)"
  by (induction m k rule: bt_get.induct) (simp_all add: bt_keys_def)

lemma bt_get_SomeD: "bt_get m k = Some v \<Longrightarrow> (k, v) \<in> set m"
  by (induction m) (auto split: if_splits)

lemma bt_ok_distinct: "bt_ok m \<Longrightarrow> distinct (bt_keys m)"
  by (simp add: bt_ok_def bt_keys_def strict_sorted_iff)

lemma bt_get_Some_iff: "bt_ok m \<Longrightarrow> bt_get m k = Some v \<longleftrightarrow> (k, v) \<in> set m"
proof
  assume ok: "bt_ok m" and "(k, v) \<in> set m"
  then have "distinct (map fst m)" using bt_ok_distinct by (auto simp: bt_keys_def)
  with \<open>(k, v) \<in> set m\<close> show "bt_get m k = Some v"
    by (induction m) (auto simp: rev_image_eqI)
qed (rule bt_get_SomeD)

lemma bt_get_retain:
  "bt_ok m \<Longrightarrow> bt_get (bt_retain p m) k =
     (case bt_get m k of None \<Rightarrow> None | Some v \<Rightarrow> if p k v then Some v else None)"
proof (induction m)
  case (Cons e m)
  obtain k' v' where e: "e = (k', v')" by (cases e)
  from Cons.prems have ok: "bt_ok m" and gt: "\<forall>x\<in>set m. k' < fst x"
    by (auto simp: bt_ok_def e)
  have "bt_get m k' = None" using gt by (auto simp: bt_get_None_iff bt_keys_def)
  with Cons.IH [OF ok] show ?case by (auto simp: e bt_retain_def split: option.splits)
qed (simp add: bt_retain_def)

lemma bt_values_get: "bt_ok m \<Longrightarrow> v \<in> set (bt_values m) \<longleftrightarrow> (\<exists>k. bt_get m k = Some v)"
  by (force simp: bt_get_Some_iff bt_values_def)

lemma bt_contains_key_iff: "bt_contains_key m k \<longleftrightarrow> k \<in> set (bt_keys m)"
  using bt_get_None_iff [of m k] by (simp add: bt_contains_key_def)

section \<open>The ordering invariant\<close>

lemma bt_ok_empty [simp, intro]: "bt_ok bt_empty"
  by (simp add: bt_ok_def bt_empty_def)

lemma bt_ok_modify [simp, intro]: "bt_ok m \<Longrightarrow> bt_ok (bt_modify k f m)"
  by (simp add: bt_ok_def)

lemma keys_bt_insert: "set (map fst (bt_insert k v m)) = insert k (set (map fst m))"
  by (induction k v m rule: bt_insert.induct) (simp_all add: insert_commute)

lemma bt_ok_insert [simp, intro]: "bt_ok m \<Longrightarrow> bt_ok (bt_insert k v m)"
proof (induction m)
  case (Cons e m)
  obtain k' v' where e: "e = (k', v')" by (cases e)
  from Cons.prems have ok: "bt_ok m" and gt: "\<forall>x\<in>set m. k' < fst x"
    by (auto simp: bt_ok_def e)
  have "\<forall>x\<in>set (map fst (bt_insert k v m)). k' < x" if "k' < k"
    using that gt unfolding keys_bt_insert by auto
  with Cons.IH [OF ok] Cons.prems gt show ?case
    by (auto simp: e bt_ok_def intro: less_trans)
qed (simp add: bt_ok_def)

lemma bt_ok_retain [simp, intro]: "bt_ok m \<Longrightarrow> bt_ok (bt_retain p m)"
  by (induction m) (auto simp: bt_ok_def bt_retain_def)

lemma bt_ok_remove [simp, intro]: "bt_ok m \<Longrightarrow> bt_ok (bt_remove k m)"
  by (simp add: bt_remove_def)

lemma map_fst_bt_map_values [simp]: "map fst (bt_map_values f m) = map fst m"
  by (induction m) (auto simp: bt_map_values_def)

lemma bt_ok_map_values [simp, intro]: "bt_ok m \<Longrightarrow> bt_ok (bt_map_values f m)"
  by (simp add: bt_ok_def)

text \<open>Two maps in key order with the same lookups are the same map.\<close>

lemma bt_ext:
  assumes "bt_ok m" "bt_ok n" "\<And>k. bt_get m k = bt_get n k"
  shows "m = n"
proof -
  have s: "set m = set n"
    using assms by (metis bt_get_Some_iff subrelI subset_antisym)
  have d: "distinct m" "distinct n"
    using assms(1,2) bt_ok_distinct by (auto simp: bt_keys_def distinct_map)
  have "map fst m = map fst n"
  proof (rule sorted_distinct_set_unique)
    show "sorted (map fst m)" "sorted (map fst n)"
      using assms(1,2) by (simp_all add: bt_ok_def strict_sorted_iff)
    show "distinct (map fst m)" "distinct (map fst n)"
      using assms(1,2) bt_ok_distinct by (auto simp: bt_keys_def)
    show "set (map fst m) = set (map fst n)" using s by simp
  qed
  then have len: "length m = length n" by (metis length_map)
  show ?thesis
  proof (rule nth_equalityI [OF len])
    fix i assume i: "i < length m"
    have f: "fst (m ! i) = fst (n ! i)"
      using \<open>map fst m = map fst n\<close> i len by (metis nth_map)
    have "bt_get m (fst (m ! i)) = Some (snd (m ! i))"
      "bt_get n (fst (n ! i)) = Some (snd (n ! i))"
      using assms(1,2) i len by (simp_all add: bt_get_Some_iff)
    with assms(3) f show "m ! i = n ! i" by (simp add: prod_eq_iff)
  qed
qed

section \<open>The interface of an ordered store\<close>

text \<open>What the components rely on: lookups after each update, and the kept ordering.\<close>

locale ordered_store =
  fixes emp :: "'m"
    and get :: "'m \<Rightarrow> 'k \<Rightarrow> 'v option"
    and ins :: "'k \<Rightarrow> 'v \<Rightarrow> 'm \<Rightarrow> 'm"
    and del :: "'k \<Rightarrow> 'm \<Rightarrow> 'm"
    and ok :: "'m \<Rightarrow> bool"
  assumes get_emp: "get emp k = None"
    and get_ins: "get (ins k v m) k' = (if k = k' then Some v else get m k')"
    and get_del: "get (del k m) k' = (if k = k' then None else get m k')"
    and ok_emp: "ok emp"
    and ok_ins: "ok m \<Longrightarrow> ok (ins k v m)"
    and ok_del: "ok m \<Longrightarrow> ok (del k m)"
    and ext: "ok m \<Longrightarrow> ok n \<Longrightarrow> (\<And>k. get m k = get n k) \<Longrightarrow> m = n"
begin

lemma ins_del: "ok m \<Longrightarrow> get m k = None \<Longrightarrow> del k (ins k v m) = m"
  by (rule ext) (auto simp: get_ins get_del ok_ins ok_del)

lemma ins_same: "ok m \<Longrightarrow> get m k = Some v \<Longrightarrow> ins k v m = m"
  by (rule ext) (auto simp: get_ins ok_ins)

lemma ins_commute: "ok m \<Longrightarrow> k \<noteq> k' \<Longrightarrow> ins k v (ins k' v' m) = ins k' v' (ins k v m)"
  by (rule ext) (auto simp: get_ins ok_ins)

lemma del_absent: "ok m \<Longrightarrow> get m k = None \<Longrightarrow> del k m = m"
  by (rule ext) (auto simp: get_del ok_del)

lemma overwrite: "ok m \<Longrightarrow> ins k v (ins k v' m) = ins k v m"
  by (rule ext) (auto simp: get_ins ok_ins)

end

interpretation bt: ordered_store bt_empty bt_get bt_insert bt_remove bt_ok
  by unfold_locales (auto intro: bt_ext)

section \<open>Counting entries\<close>

lemma length_bt_insert_new: "bt_get m k = None \<Longrightarrow> length (bt_insert k v m) = Suc (length m)"
  by (induction m) (auto split: if_splits)

lemma length_filter_bt_insert_new:
  "bt_get m k = None \<Longrightarrow>
     length (filter p (bt_insert k v m)) = (if p (k, v) then 1 else 0) + length (filter p m)"
  by (induction m) (auto split: if_splits)

lemma set_bt_insert_subset: "set (bt_insert k v m) \<subseteq> insert (k, v) (set m)"
  by (induction k v m rule: bt_insert.induct) (auto split: if_splits)

lemma set_bt_insert: "bt_ok m \<Longrightarrow> set (bt_insert k v m) = insert (k, v) {e \<in> set m. fst e \<noteq> k}"
proof -
  assume ok: "bt_ok m"
  have "(a, b) \<in> set (bt_insert k v m) \<longleftrightarrow> (a, b) \<in> insert (k, v) {e \<in> set m. fst e \<noteq> k}" for a b
    using bt_get_Some_iff [OF bt_ok_insert [OF ok], of k v a b] bt_get_Some_iff [OF ok, of a b]
    by (cases "k = a") auto
  then show ?thesis by auto
qed

lemma length_filter_values:
  assumes "bt_ok m"
  shows "length (filter p (bt_values m)) = card {k. \<exists>v. bt_get m k = Some v \<and> p v}"
proof -
  have d: "distinct (map fst (filter (\<lambda>e. p (snd e)) m))"
    using bt_ok_distinct [OF assms] by (simp add: bt_keys_def distinct_map_filter)
  have "{k. \<exists>v. bt_get m k = Some v \<and> p v} = set (map fst (filter (\<lambda>e. p (snd e)) m))"
    by (force simp: bt_get_Some_iff [OF assms])
  then have "card {k. \<exists>v. bt_get m k = Some v \<and> p v} = length (filter (\<lambda>e. p (snd e)) m)"
    using distinct_card [OF d] by simp
  moreover have "length (filter p (bt_values m)) = length (filter (\<lambda>e. p (snd e)) m)"
    by (simp add: bt_values_def filter_map o_def)
  ultimately show ?thesis by simp
qed

end
