(* ===== verification/Interfaces.thy ===== *)
theory Interfaces
  imports Ordered_Map
begin

text \<open>
  The contracts that several components share, each a locale whose client lemmas are proved once:
  a state machine driven by a sequence of operations and its invariant (\<open>step_system\<close>), a property
  that no operation undoes (\<open>stable_property\<close>), a compare-and-swap pointer (\<open>cas_cell\<close>,
  \<open>moving_cas\<close>) and a pair of functions that print and parse a closed vocabulary (\<open>codec\<close>).
  The theories of the components interpret them on the model's own definitions.
\<close>

definition run :: "('s \<Rightarrow> 'a \<Rightarrow> 's) \<Rightarrow> 's \<Rightarrow> 'a list \<Rightarrow> 's" where
  "run step s acts = foldl step s acts"

lemma run_Nil [simp]: "run step s [] = s"
  by (simp add: run_def)

lemma run_Cons [simp]: "run step s (a # acts) = run step (step s a) acts"
  by (simp add: run_def)

lemma run_append [simp]: "run step s (as @ bs) = run step (run step s as) bs"
  by (simp add: run_def)

section \<open>A state machine and its invariant\<close>

locale step_system =
  fixes init :: "'s"
    and step :: "'s \<Rightarrow> 'a \<Rightarrow> 's"
    and inv :: "'s \<Rightarrow> bool"
  assumes inv_init: "inv init"
    and inv_step: "inv s \<Longrightarrow> inv (step s a)"
begin

lemma inv_run_from: "inv s \<Longrightarrow> inv (run step s acts)"
  by (induction acts arbitrary: s) (simp_all add: inv_step)

lemma inv_run: "inv (run step init acts)"
  by (rule inv_run_from [OF inv_init])

end

section \<open>A property no operation undoes\<close>

text \<open>Stability is proved under the invariant of the machine that performs the operations.\<close>

locale stable_property = step_system init step inv
  for init :: "'s" and step :: "'s \<Rightarrow> 'a \<Rightarrow> 's" and inv :: "'s \<Rightarrow> bool" +
  fixes P :: "'s \<Rightarrow> bool"
  assumes P_step: "inv s \<Longrightarrow> P s \<Longrightarrow> P (step s a)"
begin

lemma P_run: "inv s \<Longrightarrow> P s \<Longrightarrow> P (run step s acts)"
  by (induction acts arbitrary: s) (simp_all add: inv_step P_step)

lemma P_reachable: "P (run step init as) \<Longrightarrow> P (run step init (as @ bs))"
  unfolding run_append by (rule P_run [OF inv_run])

end

section \<open>A machine that refines an abstract one\<close>

text \<open>The abstraction commutes with every step taken under the invariant of the concrete machine.\<close>

locale refinement = step_system init step inv
  for init :: "'s" and step :: "'s \<Rightarrow> 'a \<Rightarrow> 's" and inv :: "'s \<Rightarrow> bool" +
  fixes ainit :: "'t" and astep :: "'t \<Rightarrow> 'a \<Rightarrow> 't" and abs :: "'s \<Rightarrow> 't"
  assumes abs_init: "abs init = ainit"
    and abs_step: "inv s \<Longrightarrow> abs (step s a) = astep (abs s) a"
begin

lemma abs_run_from: "inv s \<Longrightarrow> abs (run step s acts) = run astep (abs s) acts"
  by (induction acts arbitrary: s) (simp_all add: inv_step abs_step)

lemma abs_run: "abs (run step init acts) = run astep ainit acts"
  by (simp add: abs_run_from [OF inv_init] abs_init)

end

section \<open>A compare-and-swap pointer\<close>

text \<open>
  \<open>publish s expected c\<close> is the new state, or \<open>None\<close> when the publication is refused: it succeeds
  only while the pointer still has the expected value, and then moves it to \<open>target c\<close>.
\<close>

locale cas_cell =
  fixes cur :: "'s \<Rightarrow> 'p option"
    and target :: "'c \<Rightarrow> 'p option"
    and publish :: "'s \<Rightarrow> 'p option \<Rightarrow> 'c \<Rightarrow> 's option"
    and ok :: "'s \<Rightarrow> bool"
  assumes cas_guard: "ok s \<Longrightarrow> publish s e c = Some s' \<Longrightarrow> cur s = e"
    and cas_target: "ok s \<Longrightarrow> publish s e c = Some s' \<Longrightarrow> cur s' = target c"
    and cas_ok: "ok s \<Longrightarrow> publish s e c = Some s' \<Longrightarrow> ok s'"
begin

lemma stale_refused: "ok s \<Longrightarrow> cur s \<noteq> e \<Longrightarrow> publish s e c = None"
  using cas_guard by (cases "publish s e c") auto

lemma chained_expectation:
  "ok s \<Longrightarrow> publish s e c = Some s' \<Longrightarrow> publish s' e' c' = Some s'' \<Longrightarrow> e' = target c"
  using cas_guard cas_target cas_ok by metis

end

text \<open>A pointer whose publications always move it: at most one of two rivals succeeds.\<close>

locale moving_cas = cas_cell cur target publish ok
  for cur :: "'s \<Rightarrow> 'p option" and target :: "'c \<Rightarrow> 'p option"
    and publish :: "'s \<Rightarrow> 'p option \<Rightarrow> 'c \<Rightarrow> 's option" and ok :: "'s \<Rightarrow> bool" +
  assumes cas_moves: "ok s \<Longrightarrow> publish s e c = Some s' \<Longrightarrow> target c \<noteq> e"
begin

lemma one_winner: "ok s \<Longrightarrow> publish s e c = Some s' \<Longrightarrow> publish s' e c' = None"
  by (metis chained_expectation cas_moves not_None_eq)

end

section \<open>Printing and parsing a closed vocabulary\<close>

locale codec =
  fixes enc :: "'a \<Rightarrow> string"
    and dec :: "string \<Rightarrow> 'a option"
  assumes dec_enc: "dec (enc a) = Some a"
    and enc_dec: "dec s = Some a \<Longrightarrow> enc a = s"
begin

lemma enc_inj: "enc a = enc b \<longleftrightarrow> a = b"
  using dec_enc by (metis option.inject)

lemma dec_iff: "dec s = Some a \<longleftrightarrow> s = enc a"
  using dec_enc enc_dec by blast

end

end
