(* ===== verification/Identifiers.thy ===== *)
theory Identifiers
  imports Interfaces
begin

text \<open>
  Identifiers, generations, package digests and the error vocabulary:
  \<^verbatim>\<open>crates/rho-extension-runtime/src/{id,digest,error}.rs\<close>. An identifier newtype
  (\<open>PluginId\<close>, \<open>CapabilityId\<close>, \<open>ScopeId\<close>, ...) is the string it wraps; its \<open>new\<close> is the validator
  below. SHA-256 (the \<open>sha2\<close> crate) is a function parameter \<open>sha\<close> from byte strings to byte
  strings; the program's own framing and hexadecimal encoding around it are modelled.
\<close>

type_synonym plugin_id = string
type_synonym capability_id = string
type_synonym operation_id = string
type_synonym scope_kind_id = string
type_synonym scope_id = string
type_synonym package_digest = string
type_synonym activation_generation = u64

section \<open>The error vocabulary\<close>

datatype identifier_kind = KPlugin | KCapability | KOperation | KScopeKind | KScope

datatype identifier_character_class =
  NonAscii | PathSeparator | Whitespace | Control | Uppercase | OtherAscii

datatype identifier_error_reason =
  IdEmpty
| IdTooLong (actual_bytes: nat) (max_bytes: nat)
| IdInvalidCharacter (byte_index: nat) (char_class: identifier_character_class)

datatype descriptor_error_reason =
  NoAllowedScopes
| DuplicateAllowedScope scope_kind_id
| DuplicateProvidedCapability capability_id
| DuplicateRequiredCapability capability_id
| DuplicateOptionalCapability capability_id
| RequiredAndOptionalCapability capability_id
| ScopeNotAllowed scope_kind_id

datatype limit_kind =
  PluginsPerScope | ProvidesPerPlugin | RequiredPerPlugin | OptionalPerPlugin | ResolvedEdges

datatype invalid_scope_reason = UnknownKind

datatype invalid_parent_reason =
  MissingParent | UnexpectedParent | ParentIdentityMissing | ParentIdMismatch | ParentKindMismatch

datatype invalid_scope_policy_reason = DuplicateKind | MissingParentKind | ParentCycle

record invalid_parent_context =
  ctx_scope_id :: scope_id
  ctx_scope_kind :: scope_kind_id
  ctx_parent_scope_id :: "scope_id option"
  ctx_parent_scope_kind :: "scope_kind_id option"
  ctx_expected_parent_kind :: "scope_kind_id option"

record scope_identity =
  si_kind :: scope_kind_id
  si_id :: scope_id
  si_parent_id :: "scope_id option"
  si_generation :: activation_generation

record provider_identity =
  pv_plugin_id :: plugin_id
  pv_scope :: scope_identity
  pv_contract_major :: u64

datatype extension_error =
  InvalidIdentifier identifier_kind identifier_error_reason
| ZeroActivationGeneration
| ActivationGenerationExhausted
| InvalidPluginVersion
| InvalidDescriptor plugin_id descriptor_error_reason
| LimitExceeded limit_kind "plugin_id option" nat nat
| DuplicatePlugin plugin_id
| DuplicateProvider capability_id "provider_identity list"
| MissingRequiredCapability plugin_id capability_id u64
| IncompatibleCapabilityMajor plugin_id capability_id u64 u64 plugin_id
| InvalidScope scope_id scope_kind_id invalid_scope_reason
| InvalidParent invalid_parent_context invalid_parent_reason
| InvalidScopePolicy scope_kind_id invalid_scope_policy_reason
| DependencyCycle "plugin_id list"
| ManifestTooLarge nat nat
| ManifestParse string
| ManifestValidation string
| UnsupportedManifestSchema u64 u64
| UnsupportedRuntimeKind string
| DiscoveryFailure string
| InvalidPackageTree string

datatype diagnostic_severity = SevInfo | SevError | SevWarning

datatype diagnostic_code =
  DInvalidIdentifier | DZeroActivationGeneration | DActivationGenerationExhausted
| DInvalidPluginVersion | DInvalidDescriptor | DLimitExceeded | DDuplicatePlugin
| DDuplicateProvider | DMissingRequiredCapability | DIncompatibleCapabilityMajor
| DInvalidScope | DInvalidParent | DInvalidScopePolicy | DDependencyCycle
| DOptionalCapabilityAbsent | DManifestInvalid | DManifestUnsupportedSchema
| DUnsupportedRuntimeKind | DWorkspaceDiscoveryFailed | DInvalidPackageTree
| DInvalidRuntimeMode | DActivationStarted | DActivationSucceeded | DActivationFailed
| DActivationRollbackFailed | DCandidatePublished | DCandidateCasRejected | DQuiesceStarted
| DQuiesceTimeout | DEffectDisposeFailed | DScopeDisposed | DScopeDisposeFailed
| DContributionFallback | DSourceCallFailed

record extension_diagnostic =
  diag_code :: diagnostic_code
  diag_severity :: diagnostic_severity
  diag_plugin_id :: "plugin_id option"
  diag_capability_id :: "capability_id option"
  diag_scope_kind :: "scope_kind_id option"
  diag_scope_id :: "scope_id option"
  diag_activation_generation :: "activation_generation option"
  diag_effect_order :: "u64 option"
  diag_related_plugins :: "plugin_id list"
  diag_cycle_path :: "plugin_id list"
  diag_message :: string

fun error_code :: "extension_error \<Rightarrow> diagnostic_code" where
  "error_code (InvalidIdentifier _ _) = DInvalidIdentifier"
| "error_code ZeroActivationGeneration = DZeroActivationGeneration"
| "error_code ActivationGenerationExhausted = DActivationGenerationExhausted"
| "error_code InvalidPluginVersion = DInvalidPluginVersion"
| "error_code (InvalidDescriptor _ _) = DInvalidDescriptor"
| "error_code (LimitExceeded _ _ _ _) = DLimitExceeded"
| "error_code (DuplicatePlugin _) = DDuplicatePlugin"
| "error_code (DuplicateProvider _ _) = DDuplicateProvider"
| "error_code (MissingRequiredCapability _ _ _) = DMissingRequiredCapability"
| "error_code (IncompatibleCapabilityMajor _ _ _ _ _) = DIncompatibleCapabilityMajor"
| "error_code (InvalidScope _ _ _) = DInvalidScope"
| "error_code (InvalidParent _ _) = DInvalidParent"
| "error_code (InvalidScopePolicy _ _) = DInvalidScopePolicy"
| "error_code (DependencyCycle _) = DDependencyCycle"
| "error_code (ManifestTooLarge _ _) = DManifestInvalid"
| "error_code (ManifestParse _) = DManifestInvalid"
| "error_code (ManifestValidation _) = DManifestInvalid"
| "error_code (UnsupportedManifestSchema _ _) = DManifestUnsupportedSchema"
| "error_code (UnsupportedRuntimeKind _) = DUnsupportedRuntimeKind"
| "error_code (DiscoveryFailure _) = DWorkspaceDiscoveryFailed"
| "error_code (InvalidPackageTree _) = DInvalidPackageTree"

definition blank_diagnostic :: "diagnostic_code \<Rightarrow> diagnostic_severity \<Rightarrow> string \<Rightarrow> extension_diagnostic" where
  "blank_diagnostic code sev msg =
     \<lparr>diag_code = code, diag_severity = sev, diag_plugin_id = None, diag_capability_id = None,
      diag_scope_kind = None, diag_scope_id = None, diag_activation_generation = None,
      diag_effect_order = None, diag_related_plugins = [], diag_cycle_path = [],
      diag_message = msg\<rparr>"

text \<open>The branch of \<open>ExtensionDiagnostic::from_error\<close> that fills in what the error names.\<close>

fun diagnostic_fields :: "extension_error \<Rightarrow> extension_diagnostic \<Rightarrow> extension_diagnostic" where
  "diagnostic_fields (InvalidDescriptor p _) d = d\<lparr>diag_plugin_id := Some p\<rparr>"
| "diagnostic_fields (DuplicatePlugin p) d = d\<lparr>diag_plugin_id := Some p\<rparr>"
| "diagnostic_fields (LimitExceeded _ p _ _) d = d\<lparr>diag_plugin_id := p\<rparr>"
| "diagnostic_fields (DuplicateProvider c ps) d =
     d\<lparr>diag_capability_id := Some c, diag_related_plugins := map pv_plugin_id ps\<rparr>"
| "diagnostic_fields (MissingRequiredCapability p c _) d =
     d\<lparr>diag_plugin_id := Some p, diag_capability_id := Some c\<rparr>"
| "diagnostic_fields (IncompatibleCapabilityMajor p c _ _ _) d =
     d\<lparr>diag_plugin_id := Some p, diag_capability_id := Some c\<rparr>"
| "diagnostic_fields (InvalidScope s k _) d =
     d\<lparr>diag_scope_kind := Some k, diag_scope_id := Some s\<rparr>"
| "diagnostic_fields (InvalidParent ctx _) d =
     d\<lparr>diag_scope_kind := Some (ctx_scope_kind ctx), diag_scope_id := Some (ctx_scope_id ctx)\<rparr>"
| "diagnostic_fields (DependencyCycle path) d =
     d\<lparr>diag_plugin_id := (case path of [] \<Rightarrow> None | p # _ \<Rightarrow> Some p),
       diag_related_plugins := remdups_adj (sort path), diag_cycle_path := path\<rparr>"
| "diagnostic_fields (InvalidScopePolicy k _) d = d\<lparr>diag_scope_kind := Some k\<rparr>"
| "diagnostic_fields _ d = d"

text \<open>\<open>display\<close> is the \<open>Display\<close> text that the \<open>thiserror\<close> derive generates.\<close>

definition from_error :: "(extension_error \<Rightarrow> string) \<Rightarrow> extension_error \<Rightarrow> extension_diagnostic" where
  "from_error display e =
     (let d = diagnostic_fields e (blank_diagnostic (error_code e) SevError (display e))
      in d\<lparr>diag_related_plugins := remdups_adj (sort (diag_related_plugins d))\<rparr>)"

definition optional_absent :: "plugin_id \<Rightarrow> capability_id \<Rightarrow> scope_id \<Rightarrow> extension_diagnostic" where
  "optional_absent p c s =
     (blank_diagnostic DOptionalCapabilityAbsent SevWarning
        (''optional capability '' @ c @ '' is absent for plugin '' @ p))
     \<lparr>diag_plugin_id := Some p, diag_capability_id := Some c, diag_scope_id := Some s\<rparr>"

section \<open>Identifiers and generations\<close>

definition MAX_IDENTIFIER_BYTES :: nat where "MAX_IDENTIFIER_BYTES = 128"

definition id_char :: "char \<Rightarrow> bool" where
  "id_char c \<longleftrightarrow> ascii_lowercase c \<or> ascii_digit c \<or> c \<in> {CHR ''.'', CHR ''_'', CHR ''-''}"

definition ascii_whitespace :: "char \<Rightarrow> bool" where
  "ascii_whitespace c \<longleftrightarrow> byte_of c \<in> {32, 9, 10, 12, 13}"

definition ascii_control :: "char \<Rightarrow> bool" where
  "ascii_control c \<longleftrightarrow> byte_of c < 32 \<or> byte_of c = 127"

definition classify_char :: "char \<Rightarrow> identifier_character_class" where
  "classify_char c =
     (if 128 \<le> byte_of c then NonAscii
      else if c \<in> {CHR ''/'', CHR 0x5C} then PathSeparator
      else if ascii_whitespace c then Whitespace
      else if ascii_control c then Control
      else if ascii_uppercase c then Uppercase
      else OtherAscii)"

fun scan_identifier :: "identifier_kind \<Rightarrow> nat \<Rightarrow> string \<Rightarrow> (extension_error, unit) result" where
  "scan_identifier kind i [] = Ok ()"
| "scan_identifier kind i (c # s) =
     (if id_char c then scan_identifier kind (Suc i) s
      else Err (InvalidIdentifier kind (IdInvalidCharacter i (classify_char c))))"

definition validate_identifier :: "string \<Rightarrow> identifier_kind \<Rightarrow> (extension_error, unit) result" where
  "validate_identifier value kind =
     (if value = [] then Err (InvalidIdentifier kind IdEmpty)
      else if length value > MAX_IDENTIFIER_BYTES
      then Err (InvalidIdentifier kind (IdTooLong (length value) MAX_IDENTIFIER_BYTES))
      else scan_identifier kind 0 value)"

text \<open>The constructor the macro \<open>validated_id!\<close> generates for each identifier type.\<close>

definition validated_id_new :: "identifier_kind \<Rightarrow> string \<Rightarrow> (extension_error, string) result" where
  "validated_id_new kind value = try_res (validate_identifier value kind) (\<lambda>_. Ok value)"

definition valid_id :: "string \<Rightarrow> bool" where
  "valid_id s \<longleftrightarrow> s \<noteq> [] \<and> length s \<le> MAX_IDENTIFIER_BYTES \<and> list_all id_char s"

definition ActivationGeneration_new :: "u64 \<Rightarrow> (extension_error, activation_generation) result" where
  "ActivationGeneration_new value = (if value = 0 then Err ZeroActivationGeneration else Ok value)"

section \<open>Package digests\<close>

text \<open>\<open>(bytes.len() as u64).to_le_bytes()\<close>.\<close>

definition le_bytes64 :: "nat \<Rightarrow> string" where
  "le_bytes64 n = map (\<lambda>i. char_of (n div 256 ^ i)) [0..<8]"

definition hash_bytes :: "string \<Rightarrow> string \<Rightarrow> string" where
  "hash_bytes buf bytes = buf @ le_bytes64 (length bytes) @ bytes"

fun inventory_stream :: "string \<Rightarrow> (string \<times> string) list \<Rightarrow> string" where
  "inventory_stream buf [] = buf"
| "inventory_stream buf ((path, content) # entries) =
     inventory_stream (hash_bytes (hash_bytes buf path) content) entries"

definition from_inventory :: "(string \<Rightarrow> string) \<Rightarrow> (string \<times> string) list \<Rightarrow> package_digest" where
  "from_inventory sha entries = hex_encode (sha (inventory_stream [] entries))"

definition parse_digest :: "string \<Rightarrow> (string, package_digest) result" where
  "parse_digest value =
     (if length value \<noteq> 64 \<or> \<not> list_all lower_hex value
      then Err ''package digest must be 64 lowercase hexadecimal characters''
      else Ok value)"

definition sha256_hex :: "(string \<Rightarrow> string) \<Rightarrow> string \<Rightarrow> string" where
  "sha256_hex sha bytes = hex_encode (sha bytes)"

section \<open>Lemmas on identifiers\<close>

lemma scan_identifier_Ok [simp]: "scan_identifier kind i s = Ok () \<longleftrightarrow> list_all id_char s"
  by (induction s arbitrary: i) simp_all

lemma scan_identifier_Err_iff:
  "scan_identifier kind i s = Err e \<longleftrightarrow>
     (\<exists>a c b. s = a @ c # b \<and> list_all id_char a \<and> \<not> id_char c \<and>
        e = InvalidIdentifier kind (IdInvalidCharacter (i + length a) (classify_char c)))"
proof (induction s arbitrary: i)
  case (Cons x s)
  show ?case
  proof (cases "id_char x")
    case True
    have "(\<exists>a c b. x # s = a @ c # b \<and> list_all id_char a \<and> \<not> id_char c \<and>
             e = InvalidIdentifier kind (IdInvalidCharacter (i + length a) (classify_char c))) \<longleftrightarrow>
          (\<exists>a c b. s = a @ c # b \<and> list_all id_char a \<and> \<not> id_char c \<and>
             e = InvalidIdentifier kind (IdInvalidCharacter (Suc i + length a) (classify_char c)))"
      (is "?L \<longleftrightarrow> ?R")
    proof
      assume ?L
      then obtain a c b where "x # s = a @ c # b" "list_all id_char a" "\<not> id_char c"
        "e = InvalidIdentifier kind (IdInvalidCharacter (i + length a) (classify_char c))" by blast
      with True show ?R by (cases a) auto
    next
      assume ?R
      then obtain a c b where "s = a @ c # b" "list_all id_char a" "\<not> id_char c"
        "e = InvalidIdentifier kind (IdInvalidCharacter (Suc i + length a) (classify_char c))" by blast
      with True have "x # s = (x # a) @ c # b" "list_all id_char (x # a)" "\<not> id_char c"
        "e = InvalidIdentifier kind (IdInvalidCharacter (i + length (x # a)) (classify_char c))" by auto
      then show ?L by blast
    qed
    with True Cons.IH [of "Suc i"] show ?thesis by simp
  next
    case False
    have "(\<exists>a c b. x # s = a @ c # b \<and> list_all id_char a \<and> \<not> id_char c \<and>
             e = InvalidIdentifier kind (IdInvalidCharacter (i + length a) (classify_char c))) \<longleftrightarrow>
          e = InvalidIdentifier kind (IdInvalidCharacter i (classify_char x))"
      using False by (auto simp: Cons_eq_append_conv)
    with False show ?thesis by auto
  qed
qed simp

lemma validate_identifier_Ok [simp]: "validate_identifier s kind = Ok () \<longleftrightarrow> valid_id s"
  by (auto simp: validate_identifier_def valid_id_def)

lemma validated_id_new_Ok [simp]: "validated_id_new kind s = Ok t \<longleftrightarrow> t = s \<and> valid_id s"
  by (auto simp: validated_id_new_def try_res_Ok_iff)

section \<open>Lemmas on digests\<close>

lemma length_le_bytes64 [simp]: "length (le_bytes64 n) = 8"
  by (simp add: le_bytes64_def)

lemma le_bytes64_ne [simp]: "le_bytes64 n \<noteq> []"
  using length_le_bytes64 [of n] by force

lemma base256_eq:
  assumes "\<And>i. i < k \<Longrightarrow> m div 256 ^ i mod 256 = n div 256 ^ i mod (256 :: nat)"
    and "m < 256 ^ k" and "n < 256 ^ k"
  shows "m = n"
  using assms
proof (induction k arbitrary: m n)
  case (Suc k)
  have "m div 256 = n div 256"
  proof (rule Suc.IH)
    fix i assume "i < k"
    then show "m div 256 div 256 ^ i mod 256 = n div 256 div 256 ^ i mod 256"
      using Suc.prems(1) [of "Suc i"] by (simp add: div_mult2_eq)
  qed (use Suc.prems in \<open>simp_all add: less_mult_imp_div_less mult.commute\<close>)
  moreover have "m mod 256 = n mod 256" using Suc.prems(1) [of 0] by simp
  ultimately show ?case by (metis div_mult_mod_eq)
qed simp

lemma le_bytes64_inj:
  assumes "le_bytes64 m = le_bytes64 n" "m < 2 ^ 64" "n < 2 ^ 64"
  shows "m = n"
proof (rule base256_eq [where k = 8])
  fix i :: nat assume "i < 8"
  with assms(1) have "char_of (m div 256 ^ i) = (char_of (n div 256 ^ i) :: char)"
    by (auto simp: le_bytes64_def)
  then have "byte_of (char_of (m div 256 ^ i)) = byte_of (char_of (n div 256 ^ i))" by simp
  then show "m div 256 ^ i mod 256 = n div 256 ^ i mod 256" by simp
qed (use assms in simp_all)

lemma inventory_stream_acc: "inventory_stream buf es = buf @ inventory_stream [] es"
proof (induction es arbitrary: buf)
  case (Cons e es)
  obtain p c where e: "e = (p, c)" by (cases e)
  show ?case
    using Cons [of "hash_bytes (hash_bytes buf p) c"] Cons [of "hash_bytes (hash_bytes [] p) c"]
    by (simp add: e hash_bytes_def)
qed simp

definition sized :: "(string \<times> string) list \<Rightarrow> bool" where
  "sized es \<longleftrightarrow> (\<forall>(p, c) \<in> set es. length p < 2 ^ 64 \<and> length c < 2 ^ 64)"

lemma sized_Cons:
  "sized ((p, c) # es) \<longleftrightarrow> length p < 2 ^ 64 \<and> length c < 2 ^ 64 \<and> sized es"
  by (simp add: sized_def)

lemma hash_bytes_split:
  assumes "hash_bytes [] a @ r = hash_bytes [] b @ s" "length a < 2 ^ 64" "length b < 2 ^ 64"
  shows "a = b \<and> r = s"
proof -
  have "le_bytes64 (length a) = le_bytes64 (length b)" and ar: "a @ r = b @ s"
    using assms(1) by (simp_all add: hash_bytes_def)
  then have "length a = length b" using le_bytes64_inj assms(2,3) by blast
  with ar show ?thesis by simp
qed

lemma inventory_stream_Cons:
  "inventory_stream [] ((p, c) # es) = hash_bytes [] p @ hash_bytes [] c @ inventory_stream [] es"
  using inventory_stream_acc [of "hash_bytes (hash_bytes [] p) c" es] by (simp add: hash_bytes_def)

lemma inventory_stream_Cons_ne: "inventory_stream [] (e # es) \<noteq> []"
proof -
  obtain p c where "e = (p, c)" by (cases e)
  moreover have "hash_bytes [] p \<noteq> []" by (simp add: hash_bytes_def)
  ultimately show ?thesis using inventory_stream_Cons [of p c es] by simp
qed

lemma inventory_stream_inj:
  "sized xs \<Longrightarrow> sized ys \<Longrightarrow> inventory_stream [] xs = inventory_stream [] ys \<Longrightarrow> xs = ys"
proof (induction xs arbitrary: ys)
  case Nil
  then show ?case
    using inventory_stream_Cons_ne by (cases ys) (metis inventory_stream.simps(1))+
next
  case (Cons x xs)
  obtain p c where x: "x = (p, c)" by (cases x)
  show ?case
  proof (cases ys)
    case Nil
    with Cons.prems(3) inventory_stream_Cons_ne show ?thesis
      by (metis inventory_stream.simps(1))
  next
    case (Cons y ys')
    obtain p' c' where y: "y = (p', c')" by (cases y)
    note eq = Cons.prems(3) [unfolded x y Cons inventory_stream_Cons]
    have len: "length p < 2 ^ 64" "length c < 2 ^ 64" "length p' < 2 ^ 64" "length c' < 2 ^ 64"
      using Cons.prems(1,2) unfolding x y Cons sized_Cons by blast+
    from hash_bytes_split [OF eq len(1,3)] have "p = p'"
      and r: "hash_bytes [] c @ inventory_stream [] xs = hash_bytes [] c' @ inventory_stream [] ys'"
      by blast+
    from hash_bytes_split [OF r len(2,4)] have "c = c'"
      and "inventory_stream [] xs = inventory_stream [] ys'" by blast+
    moreover have "sized xs" "sized ys'"
      using Cons.prems(1,2) unfolding x y Cons sized_Cons by blast+
    ultimately show ?thesis using Cons.IH \<open>p = p'\<close> unfolding x y Cons by blast
  qed
qed

lemma parse_digest_Ok [simp]:
  "parse_digest s = Ok t \<longleftrightarrow> t = s \<and> length s = 64 \<and> list_all lower_hex s"
  by (auto simp: parse_digest_def)

end
