(* ===== verification/Path_Patterns.thy ===== *)
theory Path_Patterns
  imports Identifiers
begin

text \<open>
  The resource patterns of a permission grant, from the end of
  \<^verbatim>\<open>crates/rho-extension-runtime/src/grant.rs\<close>: relative paths, host names with a leading
  \<open>*.\<close> and the glob matcher with its table of visited positions. The matcher is shown to compute
  the declarative semantics \<open>glob_spec\<close>, whose laws say what a granted pattern can reach.
\<close>

section \<open>Relative paths and hosts\<close>

definition is_slash :: "char \<Rightarrow> bool" where
  "is_slash c \<longleftrightarrow> c = CHR ''/''"

definition is_separator :: "char \<Rightarrow> bool" where
  "is_separator c \<longleftrightarrow> c = CHR ''/'' \<or> c = CHR 0x5C"

definition valid_relative_pattern :: "string \<Rightarrow> bool" where
  "valid_relative_pattern path \<longleftrightarrow>
     path \<noteq> [] \<and>
     \<not> starts_with ''/'' path \<and>
     \<not> starts_with [CHR 0x5C] path \<and>
     CHR '':'' \<notin> set path \<and>
     \<not> list_ex (\<lambda>component. component = ''..'') (split_on is_separator path)"

definition valid_relative_path :: "string \<Rightarrow> bool" where
  "valid_relative_path path \<longleftrightarrow>
     valid_relative_pattern path \<and>
     CHR 0x5C \<notin> set path \<and>
     \<not> list_ex (\<lambda>component. component = [] \<or> component = ''.'') (split_on is_slash path)"

definition host_char :: "char \<Rightarrow> bool" where
  "host_char c \<longleftrightarrow> ascii_lowercase c \<or> ascii_digit c \<or> c \<in> {CHR ''.'', CHR ''-''}"

definition host_domain :: "string \<Rightarrow> string" where
  "host_domain host = (case strip_prefix ''*.'' host of Some d \<Rightarrow> d | None \<Rightarrow> host)"

definition valid_host_pattern :: "string \<Rightarrow> bool" where
  "valid_host_pattern host \<longleftrightarrow>
     (let domain = host_domain host in
        domain \<noteq> [] \<and>
        CHR ''.'' \<in> set domain \<and>
        \<not> starts_with ''.'' domain \<and>
        \<not> ends_with ''.'' domain \<and>
        CHR ''*'' \<notin> set domain \<and>
        list_all host_char domain)"

definition host_matches :: "string \<Rightarrow> string \<Rightarrow> bool" where
  "host_matches pattern host \<longleftrightarrow>
     (if \<not> valid_host_pattern pattern \<or> \<not> valid_host_pattern host \<or> starts_with ''*.'' host
      then False
      else case strip_prefix ''*.'' pattern of
        Some suffix \<Rightarrow>
          length host > length suffix \<and> ends_with suffix host \<and>
          host ! (length host - length suffix - 1) = CHR ''.''
      | None \<Rightarrow> pattern = host)"

section \<open>The glob matcher\<close>

text \<open>
  \<open>visit\<close> threads the set of visited positions as the program's \<open>&mut BTreeSet\<close> does. Positions
  start at \<open>(0, 0)\<close> and never pass the ends of the two strings, where Rust's indexing would panic;
  \<open>\<ge>\<close> at the ends makes the equation total there.
\<close>

function visit :: "string \<Rightarrow> string \<Rightarrow> nat \<Rightarrow> nat \<Rightarrow> (nat \<times> nat) set \<Rightarrow> bool \<times> (nat \<times> nat) set" where
  "visit pat val i j seen =
     (if (i, j) \<in> seen then (False, seen)
      else if i \<ge> length pat then (j = length val, insert (i, j) seen)
      else if pat ! i = CHR ''*'' then
        (let double = (Suc i < length pat \<and> pat ! Suc i = CHR ''*'');
             nxt = i + (if double then 2 else 1);
             r1 = visit pat val nxt j (insert (i, j) seen)
         in if fst r1 then (True, snd r1)
            else
              (let r2 = (if double \<and> nxt < length pat \<and> pat ! nxt = CHR ''/''
                         then visit pat val (Suc nxt) j (snd r1) else (False, snd r1))
               in if fst r2 then (True, snd r2)
                  else if j < length val \<and> (double \<or> val ! j \<noteq> CHR ''/'')
                  then visit pat val i (Suc j) (snd r2)
                  else (False, snd r2)))
      else if j \<ge> length val then (False, insert (i, j) seen)
      else
        (let r1 = (if pat ! i = CHR ''?'' \<and> val ! j \<noteq> CHR ''/''
                   then visit pat val (Suc i) (Suc j) (insert (i, j) seen)
                   else (False, insert (i, j) seen))
         in if fst r1 then (True, snd r1)
            else if pat ! i = val ! j then visit pat val (Suc i) (Suc j) (snd r1)
            else (False, snd r1)))"
  by pat_completeness auto
termination
  by (relation "measure (\<lambda>(pat, val, i, j, seen). (length pat - i) + (length val - j))") auto

declare visit.simps [simp del]

definition glob_matches :: "string \<Rightarrow> string \<Rightarrow> bool" where
  "glob_matches pattern value = fst (visit pattern value 0 0 {})"

section \<open>What the matcher computes\<close>

text \<open>
  The declarative semantics: \<open>?\<close> is one byte other than a slash, \<open>*\<close> any run of bytes without a
  slash, \<open>**\<close> any run of bytes, and a slash right after \<open>**\<close> may be left out.
\<close>

fun glob_spec :: "string \<Rightarrow> string \<Rightarrow> bool" where
  "glob_spec [] v = (v = [])"
| "glob_spec (c # p) v =
     (if c = CHR ''*'' then
        (if p \<noteq> [] \<and> hd p = CHR ''*'' then
           (\<exists>k\<le>length v. glob_spec (tl p) (drop k v) \<or>
              (tl p \<noteq> [] \<and> hd (tl p) = CHR ''/'' \<and> glob_spec (tl (tl p)) (drop k v)))
         else (\<exists>k\<le>length v. CHR ''/'' \<notin> set (take k v) \<and> glob_spec p (drop k v)))
      else v \<noteq> [] \<and> (c = CHR ''?'' \<and> hd v \<noteq> CHR ''/'' \<or> c = hd v) \<and> glob_spec p (tl v))"

lemma ex_le_split: "(\<exists>k\<le>Suc n. P k) \<longleftrightarrow> P 0 \<or> (\<exists>k\<le>n. P (Suc k))"
  by (metis Suc_le_mono le0 not0_implies_Suc)

lemma glob_spec_star:
  assumes "p = [] \<or> hd p \<noteq> CHR ''*''"
  shows "glob_spec (CHR ''*'' # p) v \<longleftrightarrow>
     glob_spec p v \<or> (v \<noteq> [] \<and> hd v \<noteq> CHR ''/'' \<and> glob_spec (CHR ''*'' # p) (tl v))"
proof (cases v)
  case (Cons x v')
  then show ?thesis using assms by (auto simp: ex_le_split)
qed (use assms in auto)

lemma glob_spec_double:
  "glob_spec (CHR ''*'' # CHR ''*'' # p) v \<longleftrightarrow>
     glob_spec p v \<or> (p \<noteq> [] \<and> hd p = CHR ''/'' \<and> glob_spec (tl p) v) \<or>
     (v \<noteq> [] \<and> glob_spec (CHR ''*'' # CHR ''*'' # p) (tl v))"
proof (cases v)
  case (Cons x v')
  then show ?thesis by (auto simp: ex_le_split)
qed auto

text \<open>The semantics at positions \<open>i\<close> and \<open>j\<close>, unfolded by one step of the matcher.\<close>

definition glob_at :: "string \<Rightarrow> string \<Rightarrow> nat \<Rightarrow> nat \<Rightarrow> bool" where
  "glob_at pat val i j = glob_spec (drop i pat) (drop j val)"

lemma glob_at_end: "j \<le> length val \<Longrightarrow> length pat \<le> i \<Longrightarrow> glob_at pat val i j \<longleftrightarrow> j = length val"
  by (auto simp: glob_at_def)

lemma drop_Cons_nth: "i < length xs \<Longrightarrow> drop i xs = xs ! i # drop (Suc i) xs"
  by (simp add: Cons_nth_drop_Suc)

lemma drop_ne_hd:
  "drop j xs \<noteq> [] \<and> P (hd (drop j xs)) \<and> Q (tl (drop j xs)) \<longleftrightarrow>
     j < length xs \<and> P (xs ! j) \<and> Q (drop (Suc j) xs)"
  by (auto simp: hd_drop_conv_nth tl_drop drop_Suc)

lemma glob_at_star:
  assumes "i < length pat" "pat ! i = CHR ''*''" "\<not> (Suc i < length pat \<and> pat ! Suc i = CHR ''*'')"
  shows "glob_at pat val i j \<longleftrightarrow>
     glob_at pat val (Suc i) j \<or>
     (j < length val \<and> val ! j \<noteq> CHR ''/'' \<and> glob_at pat val i (Suc j))"
proof -
  have "drop (Suc i) pat = [] \<or> hd (drop (Suc i) pat) \<noteq> CHR ''*''"
    using assms(3) by (auto simp: hd_drop_conv_nth)
  note step = glob_spec_star [OF this, of "drop j val"]
  have d: "drop i pat = CHR ''*'' # drop (Suc i) pat"
    using drop_Cons_nth [OF assms(1)] assms(2) by simp
  show ?thesis unfolding glob_at_def d step
    using drop_ne_hd [of j val "\<lambda>c. c \<noteq> CHR ''/''" "glob_spec (CHR ''*'' # drop (Suc i) pat)"] by blast
qed

lemma glob_at_double:
  assumes "Suc i < length pat" "pat ! i = CHR ''*''" "pat ! Suc i = CHR ''*''"
  shows "glob_at pat val i j \<longleftrightarrow>
     glob_at pat val (i + 2) j \<or>
     (i + 2 < length pat \<and> pat ! (i + 2) = CHR ''/'' \<and> glob_at pat val (Suc (i + 2)) j) \<or>
     (j < length val \<and> glob_at pat val i (Suc j))"
proof -
  let ?q = "drop (i + 2) pat"
  have d: "drop i pat = CHR ''*'' # CHR ''*'' # ?q"
    using drop_Cons_nth [of i pat] drop_Cons_nth [of "Suc i" pat] assms by simp
  show ?thesis unfolding glob_at_def d glob_spec_double [of ?q "drop j val"]
    using drop_ne_hd [of "i + 2" pat "\<lambda>c. c = CHR ''/''" "\<lambda>r. glob_spec r (drop j val)"]
      drop_ne_hd [of j val "\<lambda>_. True" "glob_spec (CHR ''*'' # CHR ''*'' # ?q)"] by blast
qed

lemma glob_at_char:
  assumes "i < length pat" "pat ! i \<noteq> CHR ''*''"
  shows "glob_at pat val i j \<longleftrightarrow>
     j < length val \<and> (pat ! i = CHR ''?'' \<and> val ! j \<noteq> CHR ''/'' \<or> pat ! i = val ! j) \<and>
     glob_at pat val (Suc i) (Suc j)"
proof -
  have d: "drop i pat = pat ! i # drop (Suc i) pat" by (rule drop_Cons_nth [OF assms(1)])
  show ?thesis unfolding glob_at_def d glob_spec.simps(2)
    using assms(2) drop_ne_hd [of j val
        "\<lambda>c. pat ! i = CHR ''?'' \<and> c \<noteq> CHR ''/'' \<or> pat ! i = c" "glob_spec (drop (Suc i) pat)"]
    by simp
qed

text \<open>
  Soundness and completeness of the table: a position found in \<open>seen\<close> at or below the current one
  was visited and failed, so refusing it again loses no match.
\<close>

definition failed_below :: "string \<Rightarrow> string \<Rightarrow> nat \<Rightarrow> (nat \<times> nat) set \<Rightarrow> bool" where
  "failed_below pat val n seen \<longleftrightarrow> (\<forall>a b. (a, b) \<in> seen \<longrightarrow> n \<le> a + b \<longrightarrow> \<not> glob_at pat val a b)"

definition new_failed :: "string \<Rightarrow> string \<Rightarrow> (nat \<times> nat) set \<Rightarrow> (nat \<times> nat) set \<Rightarrow> bool" where
  "new_failed pat val s s' \<longleftrightarrow> (\<forall>a b. (a, b) \<in> s' \<longrightarrow> (a, b) \<in> s \<or> \<not> glob_at pat val a b)"

definition visit_ok ::
  "string \<Rightarrow> string \<Rightarrow> nat \<Rightarrow> nat \<Rightarrow> (nat \<times> nat) set \<Rightarrow> bool \<times> (nat \<times> nat) set \<Rightarrow> bool" where
  "visit_ok pat val i j seen r \<longleftrightarrow>
     fst r = glob_at pat val i j \<and> (\<not> fst r \<longrightarrow> new_failed pat val seen (snd r))"

lemma failed_below_later:
  assumes "failed_below pat val (i + j) seen" "new_failed pat val (insert (i, j) seen) s" "i + j < n"
  shows "failed_below pat val n s"
  unfolding failed_below_def
proof (intro allI impI notI)
  fix a b assume ab: "(a, b) \<in> s" "n \<le> a + b" "glob_at pat val a b"
  then have "(a, b) \<in> insert (i, j) seen" using assms(2) unfolding new_failed_def by blast
  moreover have "(a, b) \<noteq> (i, j)" using assms(3) ab(2) by auto
  ultimately have "(a, b) \<in> seen" by blast
  moreover have "i + j \<le> a + b" using assms(3) ab(2) by simp
  ultimately show False using assms(1) ab(3) unfolding failed_below_def by blast
qed

lemma new_failed_refl: "new_failed pat val s s"
  by (auto simp: new_failed_def)

lemma new_failed_trans:
  "new_failed pat val s s' \<Longrightarrow> new_failed pat val s' s'' \<Longrightarrow> new_failed pat val s s''"
  unfolding new_failed_def by blast

lemma new_failed_drop:
  "new_failed pat val (insert (i, j) s) s' \<Longrightarrow> \<not> glob_at pat val i j \<Longrightarrow> new_failed pat val s s'"
  unfolding new_failed_def by blast

text \<open>One step of the matcher, case by case.\<close>

lemma visit_seen: "(i, j) \<in> seen \<Longrightarrow> visit pat val i j seen = (False, seen)"
  by (subst visit.simps) (simp only: if_True)

lemma visit_end:
  "(i, j) \<notin> seen \<Longrightarrow> length pat \<le> i \<Longrightarrow>
     visit pat val i j seen = (j = length val, insert (i, j) seen)"
  by (subst visit.simps) (simp only: if_True if_False)

lemma visit_value_end:
  "(i, j) \<notin> seen \<Longrightarrow> i < length pat \<Longrightarrow> pat ! i \<noteq> CHR ''*'' \<Longrightarrow> length val \<le> j \<Longrightarrow>
     visit pat val i j seen = (False, insert (i, j) seen)"
  by (subst visit.simps) (simp only: if_True if_False not_le [symmetric] simp_thms)

lemma visit_char:
  "(i, j) \<notin> seen \<Longrightarrow> i < length pat \<Longrightarrow> pat ! i \<noteq> CHR ''*'' \<Longrightarrow> j < length val \<Longrightarrow>
     visit pat val i j seen =
     (let r1 = (if pat ! i = CHR ''?'' \<and> val ! j \<noteq> CHR ''/''
                then visit pat val (Suc i) (Suc j) (insert (i, j) seen)
                else (False, insert (i, j) seen))
      in if fst r1 then (True, snd r1)
         else if pat ! i = val ! j then visit pat val (Suc i) (Suc j) (snd r1)
         else (False, snd r1))"
  by (subst visit.simps) (simp only: if_True if_False not_le [symmetric] simp_thms)

lemma visit_star:
  "(i, j) \<notin> seen \<Longrightarrow> i < length pat \<Longrightarrow> pat ! i = CHR ''*'' \<Longrightarrow>
     visit pat val i j seen =
     (let double = (Suc i < length pat \<and> pat ! Suc i = CHR ''*'');
          nxt = i + (if double then 2 else 1);
          r1 = visit pat val nxt j (insert (i, j) seen)
      in if fst r1 then (True, snd r1)
         else
           (let r2 = (if double \<and> nxt < length pat \<and> pat ! nxt = CHR ''/''
                      then visit pat val (Suc nxt) j (snd r1) else (False, snd r1))
            in if fst r2 then (True, snd r2)
               else if j < length val \<and> (double \<or> val ! j \<noteq> CHR ''/'')
               then visit pat val i (Suc j) (snd r2)
               else (False, snd r2)))"
  by (subst visit.simps) (simp only: if_True if_False not_le [symmetric] simp_thms)

lemma visit_sound_step_star:
  fixes pat val i j seen
  defines "double \<equiv> Suc i < length pat \<and> pat ! Suc i = CHR ''*''"
  assumes ij: "i < length pat" "j \<le> length val" "pat ! i = CHR ''*''" "(i, j) \<notin> seen"
    and below: "failed_below pat val (i + j) seen"
    and IH: "\<And>i' j' s. i' \<le> length pat \<Longrightarrow> j' \<le> length val \<Longrightarrow> i \<le> i' \<Longrightarrow> j \<le> j' \<Longrightarrow>
       i + j < i' + j' \<Longrightarrow> failed_below pat val (i' + j') s \<Longrightarrow>
       visit_ok pat val i' j' s (visit pat val i' j' s)"
  shows "visit_ok pat val i j seen (visit pat val i j seen)"
proof -
  define nxt where "nxt = i + (if double then 2 else 1)"
  define s0 where "s0 = insert (i, j) seen"
  define r1 where "r1 = visit pat val nxt j s0"
  define r2 where "r2 = (if double \<and> nxt < length pat \<and> pat ! nxt = CHR ''/''
                         then visit pat val (Suc nxt) j (snd r1) else (False, snd r1))"
  have eq: "visit pat val i j seen =
      (if fst r1 then (True, snd r1) else if fst r2 then (True, snd r2)
       else if j < length val \<and> (double \<or> val ! j \<noteq> CHR ''/'')
       then visit pat val i (Suc j) (snd r2) else (False, snd r2))"
    unfolding r1_def r2_def s0_def nxt_def double_def
    by (subst visit_star [OF ij(4,1,3)]) (simp only: Let_def)
  have nxt: "nxt \<le> length pat" "i < nxt" using ij(1) by (auto simp: nxt_def double_def)
  have ref: "glob_at pat val i j \<longleftrightarrow>
      glob_at pat val nxt j \<or>
      (double \<and> nxt < length pat \<and> pat ! nxt = CHR ''/'' \<and> glob_at pat val (Suc nxt) j) \<or>
      (j < length val \<and> (double \<or> val ! j \<noteq> CHR ''/'') \<and> glob_at pat val i (Suc j))"
  proof (cases double)
    case True
    then show ?thesis
      using glob_at_double [of i pat val j] ij(3) by (simp add: nxt_def double_def)
  next
    case False
    then show ?thesis
      using glob_at_star [OF ij(1,3), of val j] by (simp add: nxt_def double_def [symmetric])
  qed
  have r1: "visit_ok pat val nxt j s0 r1"
    unfolding r1_def
    by (rule IH) (use nxt ij in \<open>auto intro: failed_below_later [OF below] simp: s0_def new_failed_refl\<close>)
  have r2: "fst r2 = (double \<and> nxt < length pat \<and> pat ! nxt = CHR ''/'' \<and> glob_at pat val (Suc nxt) j) \<and>
      (\<not> fst r2 \<longrightarrow> new_failed pat val s0 (snd r2))" if n1: "\<not> fst r1"
  proof -
    have f1: "new_failed pat val s0 (snd r1)" using r1 n1 by (simp add: visit_ok_def)
    have "visit_ok pat val (Suc nxt) j (snd r1) (visit pat val (Suc nxt) j (snd r1))"
      if "nxt < length pat"
      by (rule IH) (use nxt ij that f1 in \<open>auto intro: failed_below_later [OF below] simp: s0_def\<close>)
    with f1 show ?thesis by (auto simp: r2_def visit_ok_def intro: new_failed_trans)
  qed
  have r3: "visit_ok pat val i (Suc j) (snd r2) (visit pat val i (Suc j) (snd r2))"
    if "\<not> fst r1" "\<not> fst r2" "j < length val"
    by (rule IH) (use ij that r2 in \<open>auto intro: failed_below_later [OF below] simp: s0_def\<close>)
  show ?thesis
  proof (cases "fst r1 \<or> fst r2")
    case True
    then show ?thesis using r1 r2 ref by (auto simp: visit_ok_def eq)
  next
    case False
    then have g: "glob_at pat val i j \<longleftrightarrow>
        j < length val \<and> (double \<or> val ! j \<noteq> CHR ''/'') \<and> glob_at pat val i (Suc j)"
      using r1 r2 ref by (auto simp: visit_ok_def)
    have nf: "new_failed pat val s0 (snd r2)" using r2 False by blast
    show ?thesis
      using False g nf r3 new_failed_trans [OF nf] new_failed_drop [of pat val i j seen]
      by (auto simp: visit_ok_def eq s0_def)
  qed
qed

lemma visit_sound_step_char:
  assumes ij: "i < length pat" "j \<le> length val" "pat ! i \<noteq> CHR ''*''" "(i, j) \<notin> seen"
    and below: "failed_below pat val (i + j) seen"
    and IH: "\<And>s. i < length pat \<Longrightarrow> j < length val \<Longrightarrow> failed_below pat val (Suc i + Suc j) s \<Longrightarrow>
       visit_ok pat val (Suc i) (Suc j) s (visit pat val (Suc i) (Suc j) s)"
  shows "visit_ok pat val i j seen (visit pat val i j seen)"
proof (cases "j < length val")
  case False
  then have "visit pat val i j seen = (False, insert (i, j) seen)" "\<not> glob_at pat val i j"
    using ij glob_at_char [OF ij(1,3), of val j] visit_value_end [OF ij(4,1,3)] by auto
  then show ?thesis by (auto simp: visit_ok_def new_failed_def)
next
  case j: True
  define s0 where "s0 = insert (i, j) seen"
  define r1 where "r1 = (if pat ! i = CHR ''?'' \<and> val ! j \<noteq> CHR ''/''
      then visit pat val (Suc i) (Suc j) s0 else (False, s0))"
  have eq: "visit pat val i j seen =
      (if fst r1 then (True, snd r1)
       else if pat ! i = val ! j then visit pat val (Suc i) (Suc j) (snd r1) else (False, snd r1))"
    unfolding r1_def s0_def by (subst visit_char [OF ij(4,1,3) j]) (simp only: Let_def)
  have r1: "fst r1 = (pat ! i = CHR ''?'' \<and> val ! j \<noteq> CHR ''/'' \<and> glob_at pat val (Suc i) (Suc j)) \<and>
      (\<not> fst r1 \<longrightarrow> new_failed pat val s0 (snd r1))"
  proof -
    have "failed_below pat val (Suc i + Suc j) s0"
      by (rule failed_below_later [OF below]) (simp_all add: s0_def new_failed_refl)
    from IH [OF ij(1) j this] show ?thesis
      by (auto simp: r1_def visit_ok_def new_failed_refl)
  qed
  have r2: "visit_ok pat val (Suc i) (Suc j) (snd r1) (visit pat val (Suc i) (Suc j) (snd r1))"
    if "\<not> fst r1"
    using ij(1) j r1 that
    by (intro IH) (auto intro: failed_below_later [OF below] simp: s0_def)
  show ?thesis
  proof (cases "fst r1")
    case True
    then show ?thesis using r1 glob_at_char [OF ij(1,3), of val j] j by (auto simp: visit_ok_def eq)
  next
    case False
    have nf: "new_failed pat val s0 (snd r1)" using r1 False by blast
    have "glob_at pat val i j \<longleftrightarrow> pat ! i = val ! j \<and> glob_at pat val (Suc i) (Suc j)"
      using glob_at_char [OF ij(1,3), of val j] j r1 False by blast
    then show ?thesis
      using False nf r2 new_failed_trans [OF nf] new_failed_drop [of pat val i j seen]
      by (auto simp: visit_ok_def eq s0_def)
  qed
qed

lemma visit_sound:
  "i \<le> length pat \<Longrightarrow> j \<le> length val \<Longrightarrow> failed_below pat val (i + j) seen \<Longrightarrow>
     visit_ok pat val i j seen (visit pat val i j seen)"
proof (induction "(length pat - i) + (length val - j)" arbitrary: i j seen rule: less_induct)
  case less
  note below = less.prems(3)
  show ?case
  proof (cases "(i, j) \<in> seen")
    case True
    then have "\<not> glob_at pat val i j" using below by (auto simp: failed_below_def)
    with True show ?thesis by (simp add: visit_seen visit_ok_def new_failed_refl)
  next
    case fresh: False
    show ?thesis
    proof (cases "i < length pat")
      case False
      with fresh less.prems show ?thesis
        by (auto simp: visit_end visit_ok_def glob_at_end new_failed_def)
    next
      case i: True
      show ?thesis
      proof (cases "pat ! i = CHR ''*''")
        case True
        show ?thesis
          by (rule visit_sound_step_star [OF i less.prems(2) True fresh below])
            (rule less.hyps, use i in auto)
      next
        case False
        show ?thesis
          by (rule visit_sound_step_char [OF i less.prems(2) False fresh below])
            (rule less.hyps, use i in auto)
      qed
    qed
  qed
qed

lemma glob_matches_eq: "glob_matches pattern value \<longleftrightarrow> glob_spec pattern value"
proof -
  have "visit_ok pattern value 0 0 {} (visit pattern value 0 0 {})"
    by (rule visit_sound) (simp_all add: failed_below_def)
  then show ?thesis by (simp add: glob_matches_def visit_ok_def glob_at_def)
qed

section \<open>What a granted pattern can reach\<close>

text \<open>A pattern without wildcards matches only itself.\<close>

definition no_wildcard :: "string \<Rightarrow> bool" where
  "no_wildcard p \<longleftrightarrow> CHR ''*'' \<notin> set p \<and> CHR ''?'' \<notin> set p"

lemma glob_spec_literal: "no_wildcard p \<Longrightarrow> glob_spec p v \<longleftrightarrow> v = p"
proof (induction p arbitrary: v)
  case (Cons c p)
  then have ne: "c \<noteq> CHR ''*''" "c \<noteq> CHR ''?''" and IH: "\<And>v. glob_spec p v \<longleftrightarrow> v = p"
    by (auto simp: no_wildcard_def)
  show ?case using ne IH by (cases v) auto
qed simp

text \<open>Without \<open>**\<close> a match has exactly the directories the pattern writes out.\<close>

fun no_double :: "string \<Rightarrow> bool" where
  "no_double [] = True"
| "no_double (c # p) = (\<not> (c = CHR ''*'' \<and> p \<noteq> [] \<and> hd p = CHR ''*'') \<and> no_double p)"

lemma glob_spec_depth:
  "glob_spec p v \<Longrightarrow> no_double p \<Longrightarrow> count_list v (CHR ''/'') = count_list p (CHR ''/'')"
proof (induction p arbitrary: v)
  case (Cons c p)
  show ?case
  proof (cases "c = CHR ''*''")
    case True
    with Cons.prems obtain k where k: "CHR ''/'' \<notin> set (take k v)" "glob_spec p (drop k v)"
      by (auto split: if_splits)
    have "count_list v (CHR ''/'') = count_list (take k v @ drop k v) (CHR ''/'')" by simp
    also have "\<dots> = count_list (drop k v) (CHR ''/'')"
      using k(1) unfolding count_list_append by (simp add: count_list_0_iff)
    finally show ?thesis using Cons.IH [OF k(2)] Cons.prems(2) True by simp
  next
    case False
    with Cons.prems obtain x w where w: "v = x # w" "c = CHR ''?'' \<and> x \<noteq> CHR ''/'' \<or> c = x" "glob_spec p w"
      by (cases v) auto
    with Cons.IH [OF w(3)] Cons.prems(2) show ?thesis by auto
  qed
qed simp

text \<open>
  Lexical resolution of a relative path below a root, component by component as a file system
  without links resolves it: \<open>..\<close> climbs, \<open>.\<close> and the empty component stay.
\<close>

definition path_step :: "string list \<Rightarrow> string \<Rightarrow> string list" where
  "path_step dir c = (if c = ''..'' then butlast dir else if c = [] \<or> c = ''.'' then dir else dir @ [c])"

definition resolve_path :: "string list \<Rightarrow> string \<Rightarrow> string list" where
  "resolve_path root path = foldl path_step root (split_on is_slash path)"

lemma foldl_path_step_plain:
  "\<forall>c\<in>set cs. c \<noteq> [] \<and> c \<noteq> ''.'' \<and> c \<noteq> ''..'' \<Longrightarrow> foldl path_step root cs = root @ cs"
  by (induction cs arbitrary: root) (auto simp: path_step_def)

lemma valid_relative_path_components:
  assumes "valid_relative_path p" and "c \<in> set (split_on is_slash p)"
  shows "c \<noteq> [] \<and> c \<noteq> ''.'' \<and> c \<noteq> ''..'' \<and> CHR '':'' \<notin> set c \<and> CHR 0x5C \<notin> set c"
proof -
  have "split_on is_separator p = split_on is_slash p"
    using assms(1) by (intro split_on_cong) (auto simp: valid_relative_path_def is_separator_def is_slash_def)
  moreover have "set c \<subseteq> set p" using assms(2) by (rule split_on_chars)
  ultimately show ?thesis
    using assms by (auto simp: valid_relative_path_def valid_relative_pattern_def list_ex_iff)
qed

lemma resolve_path_valid:
  "valid_relative_path p \<Longrightarrow> resolve_path root p = root @ split_on is_slash p"
  unfolding resolve_path_def
  by (rule foldl_path_step_plain) (auto dest: valid_relative_path_components)

text \<open>A wildcard host pattern matches exactly the proper subdomains.\<close>

lemma valid_host_nonstar: "valid_host_pattern h \<Longrightarrow> \<not> starts_with ''*.'' h \<Longrightarrow> h \<noteq> [] \<and> hd h \<noteq> CHR ''.''"
  by (auto simp: valid_host_pattern_def host_domain_def Let_def strip_prefix_def)

lemma ends_with_dot_iff:
  "length d < length h \<and> ends_with d h \<and> h ! (length h - length d - 1) = CHR ''.'' \<longleftrightarrow>
     (\<exists>l. h = l @ CHR ''.'' # d)" (is "?L \<longleftrightarrow> ?R")
proof
  assume ?L
  then obtain t where t: "h = t @ d" unfolding ends_with_iff by blast
  with \<open>?L\<close> have "t \<noteq> []" by force
  note t = t this
  with \<open>?L\<close> have "last t = CHR ''.''" by (simp add: nth_append last_conv_nth)
  with t have "h = butlast t @ CHR ''.'' # d" using append_butlast_last_id [OF t(2)] by simp
  then show ?R by blast
next
  assume ?R
  then obtain l where "h = l @ CHR ''.'' # d" by blast
  then have "h = (l @ ''.'') @ d" "h ! (length h - length d - 1) = CHR ''.''" by (simp_all add: nth_append)
  moreover have "length d < length h" using \<open>h = l @ CHR ''.'' # d\<close> by simp
  ultimately show ?L unfolding ends_with_iff by blast
qed

lemma host_matches_wildcard:
  "host_matches (''*.'' @ d) h \<longleftrightarrow>
     valid_host_pattern (''*.'' @ d) \<and> valid_host_pattern h \<and> \<not> starts_with ''*.'' h \<and>
     (\<exists>l. l \<noteq> [] \<and> h = l @ CHR ''.'' # d)"
proof -
  have sp: "strip_prefix ''*.'' (''*.'' @ d) = Some d" by (simp only: strip_prefix_Some_iff)
  have "host_matches (''*.'' @ d) h \<longleftrightarrow>
     valid_host_pattern (''*.'' @ d) \<and> valid_host_pattern h \<and> \<not> starts_with ''*.'' h \<and>
     (\<exists>l. h = l @ CHR ''.'' # d)"
    unfolding host_matches_def sp using ends_with_dot_iff [of d h] by auto
  moreover have "l \<noteq> []"
    if "valid_host_pattern h" "\<not> starts_with ''*.'' h" "h = l @ CHR ''.'' # d" for l
    using valid_host_nonstar [OF that(1,2)] that(3) by auto
  ultimately show ?thesis by blast
qed

lemma host_matches_exact:
  "\<not> starts_with ''*.'' p \<Longrightarrow> host_matches p h \<longleftrightarrow> valid_host_pattern p \<and> h = p"
  by (auto simp: host_matches_def strip_prefix_def)

end
