(* ===== verification/Text.thy ===== *)
theory Text
  imports Rho_Prelude
begin

text \<open>
  The parts of Rust's \<open>str\<close> and \<open>char\<close> that look at characters rather than bytes, written over
  UTF-8 byte strings: encoding, \<open>is_char_boundary\<close> and truncation at a boundary, \<open>trim\<close>,
  \<open>char::is_control\<close>, the bidirectional overrides the validators refuse and, for searches of ASCII
  markers, \<open>to_lowercase\<close>. On valid UTF-8 a byte pattern for a whole encoded character occurs
  exactly where the character does, so these byte-level predicates decide what the program's
  \<open>chars()\<close> loops decide.
\<close>

section \<open>UTF-8\<close>

definition scalar_value :: "nat \<Rightarrow> bool" where
  "scalar_value n \<longleftrightarrow> n < 0x110000 \<and> \<not> (0xD800 \<le> n \<and> n < 0xE000)"

definition utf8_char :: "nat \<Rightarrow> string" where
  "utf8_char n =
     (if n < 0x80 then [char_of n]
      else if n < 0x800 then [char_of (0xC0 + n div 64), char_of (0x80 + n mod 64)]
      else if n < 0x10000 then
        [char_of (0xE0 + n div 4096), char_of (0x80 + n div 64 mod 64), char_of (0x80 + n mod 64)]
      else
        [char_of (0xF0 + n div 262144), char_of (0x80 + n div 4096 mod 64),
         char_of (0x80 + n div 64 mod 64), char_of (0x80 + n mod 64)])"

definition utf8 :: "nat list \<Rightarrow> string" where
  "utf8 cs = concat (map utf8_char cs)"

definition valid_utf8 :: "string \<Rightarrow> bool" where
  "valid_utf8 s \<longleftrightarrow> (\<exists>cs. list_all scalar_value cs \<and> s = utf8 cs)"

definition is_char_boundary :: "string \<Rightarrow> nat \<Rightarrow> bool" where
  "is_char_boundary s n \<longleftrightarrow> n = 0 \<or> n = length s \<or> (n < length s \<and> \<not> is_continuation (s ! n))"

text \<open>\<open>while !value.is_char_boundary(end) { end -= 1; }\<close>; position 0 is always a boundary.\<close>

primrec floor_boundary :: "string \<Rightarrow> nat \<Rightarrow> nat" where
  "floor_boundary s 0 = 0"
| "floor_boundary s (Suc n) = (if is_char_boundary s (Suc n) then Suc n else floor_boundary s n)"

lemma floor_boundary_le: "floor_boundary s n \<le> n"
  by (induction n) (simp_all add: le_SucI)

lemma floor_boundary_boundary: "is_char_boundary s (floor_boundary s n)"
  by (induction n) (simp_all add: is_char_boundary_def)

lemma floor_boundary_greatest: "is_char_boundary s m \<Longrightarrow> m \<le> n \<Longrightarrow> m \<le> floor_boundary s n"
  by (induction n) (auto simp: le_Suc_eq)

lemma utf8_simps [simp]: "utf8 [] = []" "utf8 (c # cs) = utf8_char c @ utf8 cs"
  "utf8 (cs @ ds) = utf8 cs @ utf8 ds"
  by (simp_all add: utf8_def)

lemma utf8_char_ne [simp]: "utf8_char c \<noteq> []"
  by (simp add: utf8_char_def)

lemma continuation_char_of: "(n :: nat) < 64 \<Longrightarrow> is_continuation (char_of (128 + n))"
  by (simp add: is_continuation_def)

lemma utf8_char_tail:
  assumes "i < length (utf8_char c)" "0 < i"
  shows "is_continuation (utf8_char c ! i)"
proof -
  have "c mod 64 < 64" "c div 64 mod 64 < 64" "c div 4096 mod 64 < 64" by simp_all
  note k = this [THEN continuation_char_of]
  show ?thesis using assms k
    by (auto simp: utf8_char_def less_Suc_eq nth_Cons' split: if_splits)
qed

lemma utf8_char_boundary_inside:
  assumes "n < length (utf8_char c @ s)" "0 < n" "\<not> is_continuation ((utf8_char c @ s) ! n)"
  shows "length (utf8_char c) \<le> n"
proof (rule ccontr)
  assume "\<not> ?thesis"
  then have "is_continuation (utf8_char c ! n)" using assms(2) by (intro utf8_char_tail) auto
  with \<open>\<not> ?thesis\<close> assms(3) show False by (simp add: nth_append)
qed

lemma take_boundary_utf8:
  "n \<le> length (utf8 cs) \<Longrightarrow> is_char_boundary (utf8 cs) n \<Longrightarrow> \<exists>k. take n (utf8 cs) = utf8 (take k cs)"
proof (induction cs arbitrary: n)
  case (Cons c cs)
  show ?case
  proof (cases "n = 0")
    case True
    then have "take n (utf8 (c # cs)) = utf8 (take 0 (c # cs))" by simp
    then show ?thesis by blast
  next
    case False
    have le: "length (utf8_char c) \<le> n"
      using Cons.prems False utf8_char_boundary_inside [of n c "utf8 cs"]
      by (auto simp: is_char_boundary_def)
    let ?m = "n - length (utf8_char c)"
    have "is_char_boundary (utf8 cs) ?m"
      using Cons.prems le False by (auto simp: is_char_boundary_def nth_append)
    moreover have "?m \<le> length (utf8 cs)" using Cons.prems(1) by simp
    ultimately obtain k where k: "take ?m (utf8 cs) = utf8 (take k cs)" using Cons.IH by blast
    have "take n (utf8 (c # cs)) = utf8 (take (Suc k) (c # cs))" using le k by simp
    then show ?thesis by blast
  qed
qed simp

lemma valid_utf8_take:
  assumes "valid_utf8 s" "is_char_boundary s n" "n \<le> length s"
  shows "valid_utf8 (take n s)"
proof -
  obtain cs where cs: "list_all scalar_value cs" "s = utf8 cs" using assms(1) by (auto simp: valid_utf8_def)
  then obtain k where "take n s = utf8 (take k cs)" using take_boundary_utf8 [of n cs] assms(2,3) by blast
  moreover have "list_all scalar_value (take k cs)"
    using cs(1) by (auto simp: list_all_iff dest: in_set_takeD)
  ultimately show ?thesis unfolding valid_utf8_def by blast
qed

lemma valid_utf8_append: "valid_utf8 s \<Longrightarrow> valid_utf8 t \<Longrightarrow> valid_utf8 (s @ t)"
  unfolding valid_utf8_def by (metis list_all_append utf8_simps(3))

lemma valid_utf8_ascii: "\<forall>c\<in>set s. byte_of c < 128 \<Longrightarrow> valid_utf8 s"
proof -
  assume a: "\<forall>c\<in>set s. byte_of c < 128"
  have "utf8 (map of_char s) = s" using a by (induction s) (auto simp: utf8_char_def)
  moreover have "list_all scalar_value (map of_char s)"
    using a by (auto simp: list_all_iff scalar_value_def)
  ultimately show ?thesis unfolding valid_utf8_def by metis
qed

section \<open>White space, control characters and overrides\<close>

text \<open>The UTF-8 encodings of the characters with the Unicode property \<open>White_Space\<close>.\<close>

definition white_space :: "nat list" where
  "white_space =
     [0x9, 0xA, 0xB, 0xC, 0xD, 0x20, 0x85, 0xA0, 0x1680,
      0x2000, 0x2001, 0x2002, 0x2003, 0x2004, 0x2005, 0x2006, 0x2007, 0x2008, 0x2009, 0x200A,
      0x2028, 0x2029, 0x202F, 0x205F, 0x3000]"

fun drop_first_match :: "string list \<Rightarrow> string \<Rightarrow> string option" where
  "drop_first_match [] s = None"
| "drop_first_match (w # ws) s =
     (if w \<noteq> [] \<and> starts_with w s then Some (drop (length w) s) else drop_first_match ws s)"

lemma drop_first_match_shorter: "drop_first_match ws s = Some t \<Longrightarrow> length t < length s"
proof (induction ws)
  case (Cons w ws)
  show ?case
  proof (cases "w \<noteq> [] \<and> starts_with w s")
    case True
    then obtain r where "s = w @ r" by (auto simp: starts_with_iff)
    with Cons.prems True show ?thesis by auto
  next
    case False
    with Cons.prems have "drop_first_match ws s = Some t" by (simp only: drop_first_match.simps if_False)
    then show ?thesis by (rule Cons.IH)
  qed
qed simp

function trim_matches :: "string list \<Rightarrow> string \<Rightarrow> string" where
  "trim_matches ws s = (case drop_first_match ws s of Some t \<Rightarrow> trim_matches ws t | None \<Rightarrow> s)"
  by pat_completeness auto
termination
  by (relation "measure (\<lambda>(ws, s). length s)") (auto dest: drop_first_match_shorter)

declare trim_matches.simps [simp del]

definition trim :: "string \<Rightarrow> string" where
  "trim s =
     rev (trim_matches (map (\<lambda>n. rev (utf8_char n)) white_space)
       (rev (trim_matches (map utf8_char white_space) s)))"

text \<open>Text that starts and ends with a visible ASCII character has nothing to trim.\<close>

lemma drop_first_match_None:
  "s \<noteq> [] \<Longrightarrow> \<forall>w\<in>set ws. hd w \<noteq> hd s \<Longrightarrow> drop_first_match ws s = None"
proof (induction ws)
  case (Cons w ws)
  have "\<not> (w \<noteq> [] \<and> starts_with w s)" using Cons.prems by (auto simp: starts_with_iff)
  then show ?case using Cons by (simp only: drop_first_match.simps if_False) simp
qed simp

definition graphic :: "char \<Rightarrow> bool" where
  "graphic c \<longleftrightarrow> 32 < byte_of c \<and> byte_of c < 127"

lemma white_space_ends:
  "n \<in> set white_space \<Longrightarrow> \<not> graphic (hd (utf8_char n)) \<and> \<not> graphic (last (utf8_char n))"
  by (auto simp: white_space_def utf8_char_def graphic_def)

lemma trim_graphic:
  assumes "s \<noteq> []" "graphic (hd s)" "graphic (last s)"
  shows "trim s = s"
proof -
  have 1: "trim_matches (map utf8_char white_space) s = s"
    using assms drop_first_match_None [of s "map utf8_char white_space"] white_space_ends
    by (subst trim_matches.simps) fastforce
  have "\<forall>w\<in>set (map (\<lambda>n. rev (utf8_char n)) white_space). hd w \<noteq> hd (rev s)"
    using assms white_space_ends by (fastforce simp: hd_rev)
  then have "trim_matches (map (\<lambda>n. rev (utf8_char n)) white_space) (rev s) = rev s"
    using assms drop_first_match_None [of "rev s" "map (\<lambda>n. rev (utf8_char n)) white_space"]
    by (subst trim_matches.simps) simp
  with 1 show ?thesis by (simp add: trim_def)
qed

text \<open>\<open>char::is_control\<close>: C0, DEL and C1, the last being two bytes.\<close>

fun has_control :: "string \<Rightarrow> bool" where
  "has_control [] = False"
| "has_control (c # s) =
     (byte_of c < 32 \<or> byte_of c = 127 \<or>
      (byte_of c = 0xC2 \<and> s \<noteq> [] \<and> 0x80 \<le> byte_of (hd s) \<and> byte_of (hd s) \<le> 0x9F) \<or>
      has_control s)"

definition bidi_overrides :: "nat list" where
  "bidi_overrides =
     [0x061C, 0x200E, 0x200F, 0x202A, 0x202B, 0x202C, 0x202D, 0x202E, 0x2066, 0x2067, 0x2068, 0x2069]"

definition contains_bidi_override :: "string \<Rightarrow> bool" where
  "contains_bidi_override s \<longleftrightarrow> list_ex (\<lambda>n. contains_str (utf8_char n) s) bidi_overrides"

text \<open>
  \<open>str::to_lowercase\<close> as far as an ASCII substring search can observe it: ASCII letters, the
  Kelvin sign (U+212A, lowercased to \<open>k\<close>) and the dotted capital I (U+0130, lowercased to \<open>i\<close> and a
  combining dot). Every other character lowercases to non-ASCII characters or to itself.
\<close>

definition ascii_lower :: "char \<Rightarrow> char" where
  "ascii_lower c = (if ascii_uppercase c then char_of (byte_of c + 32) else c)"

fun to_lowercase :: "string \<Rightarrow> string" where
  "to_lowercase (a # b # c # s) =
     (if byte_of a = 0xE2 \<and> byte_of b = 0x84 \<and> byte_of c = 0xAA then CHR ''k'' # to_lowercase s
      else if byte_of a = 0xC4 \<and> byte_of b = 0xB0
      then CHR ''i'' # CHR 0xCC # CHR 0x87 # to_lowercase (c # s)
      else ascii_lower a # to_lowercase (b # c # s))"
| "to_lowercase [a, b] =
     (if byte_of a = 0xC4 \<and> byte_of b = 0xB0 then [CHR ''i'', CHR 0xCC, CHR 0x87]
      else [ascii_lower a, ascii_lower b])"
| "to_lowercase [a] = [ascii_lower a]"
| "to_lowercase [] = []"

end
