(* ===== verification/Permissions.thy ===== *)
theory Permissions
  imports Path_Patterns Text
begin

text \<open>
  The read-only permission vocabulary of \<^verbatim>\<open>crates/rho-extension-runtime/src/grant.rs\<close> and
  \<^verbatim>\<open>manifest.rs\<close>: permission kinds, the constraints bound to a grant, what a privileged call asks
  for and when the constraints cover it.
\<close>

datatype permission_kind = ProjectFsRead | WorkspaceRInspect | NetworkFetch

definition PermissionKind_parse :: "string \<Rightarrow> permission_kind option" where
  "PermissionKind_parse value =
     (if value = ''project.fs.read'' then Some ProjectFsRead
      else if value = ''workspace.r.inspect'' then Some WorkspaceRInspect
      else if value = ''network.fetch'' then Some NetworkFetch
      else None)"

fun PermissionKind_as_static_str :: "permission_kind \<Rightarrow> string" where
  "PermissionKind_as_static_str ProjectFsRead = ''project.fs.read''"
| "PermissionKind_as_static_str WorkspaceRInspect = ''workspace.r.inspect''"
| "PermissionKind_as_static_str NetworkFetch = ''network.fetch''"

datatype runtime_kind = WebWorker | Wasm

fun RuntimeKind_display :: "runtime_kind \<Rightarrow> string" where
  "RuntimeKind_display WebWorker = ''web-worker''"
| "RuntimeKind_display Wasm = ''wasm''"

definition RuntimeKind_from_str :: "string \<Rightarrow> (extension_error, runtime_kind) result" where
  "RuntimeKind_from_str value =
     (if value = ''web-worker'' then Ok WebWorker
      else if value = ''wasm'' then Ok Wasm
      else Err (UnsupportedRuntimeKind value))"

interpretation permission_codec: codec PermissionKind_as_static_str PermissionKind_parse
proof
  fix a show "PermissionKind_parse (PermissionKind_as_static_str a) = Some a"
    by (cases a) (simp_all add: PermissionKind_parse_def)
next
  fix s a assume "PermissionKind_parse s = Some a"
  then show "PermissionKind_as_static_str a = s"
    by (auto simp: PermissionKind_parse_def split: if_splits)
qed

interpretation runtime_codec: codec RuntimeKind_display "\<lambda>s. case RuntimeKind_from_str s of Inr k \<Rightarrow> Some k | Inl _ \<Rightarrow> None"
proof
  fix a show "(case RuntimeKind_from_str (RuntimeKind_display a) of Inr k \<Rightarrow> Some k | Inl _ \<Rightarrow> None) = Some a"
    by (cases a) (simp_all add: RuntimeKind_from_str_def)
next
  fix s a assume "(case RuntimeKind_from_str s of Inr k \<Rightarrow> Some k | Inl _ \<Rightarrow> None) = Some a"
  then show "RuntimeKind_display a = s"
    by (auto simp: RuntimeKind_from_str_def split: if_splits)
qed

record permission_request =
  pr_name :: string
  pr_purpose :: "string option"
  pr_paths :: "string list"
  pr_operations :: "string list"
  pr_schemes :: "string list"
  pr_hosts :: "string list"
  pr_methods :: "string list"
  pr_max_bytes :: "u64 option"
  pr_max_response_bytes :: "u64 option"

record permission_constraints =
  pc_paths :: "string list"
  pc_operations :: "string list"
  pc_schemes :: "string list"
  pc_hosts :: "string list"
  pc_methods :: "string list"
  pc_max_bytes :: "u64 option"
  pc_max_response_bytes :: "u64 option"

definition positive_bound :: "u64 option \<Rightarrow> bool" where
  "positive_bound b = (case b of Some v \<Rightarrow> v > 0 | None \<Rightarrow> False)"

fun constraints_valid :: "permission_kind \<Rightarrow> permission_constraints \<Rightarrow> bool" where
  "constraints_valid ProjectFsRead c =
     (pc_paths c \<noteq> [] \<and> pc_operations c = [] \<and> pc_schemes c = [] \<and> pc_hosts c = [] \<and>
      pc_methods c = [] \<and> positive_bound (pc_max_bytes c) \<and> pc_max_response_bytes c = None \<and>
      list_all valid_relative_pattern (pc_paths c))"
| "constraints_valid WorkspaceRInspect c =
     (pc_paths c = [] \<and> pc_operations c \<noteq> [] \<and> pc_schemes c = [] \<and> pc_hosts c = [] \<and>
      pc_methods c = [] \<and> positive_bound (pc_max_bytes c) \<and> pc_max_response_bytes c = None)"
| "constraints_valid NetworkFetch c =
     (pc_paths c = [] \<and> pc_operations c = [] \<and> pc_schemes c \<noteq> [] \<and> pc_hosts c \<noteq> [] \<and>
      pc_methods c \<noteq> [] \<and> pc_max_bytes c = None \<and> positive_bound (pc_max_response_bytes c) \<and>
      list_all (\<lambda>scheme. scheme = ''https'') (pc_schemes c) \<and>
      list_all valid_host_pattern (pc_hosts c) \<and>
      list_all (\<lambda>method. method \<in> {''GET'', ''HEAD''}) (pc_methods c))"

definition validate_constraints ::
  "permission_kind \<Rightarrow> permission_constraints \<Rightarrow> (extension_error, unit) result" where
  "validate_constraints permission c =
     (if \<not> constraints_valid permission c
      then Err (ManifestValidation (''invalid constraints for permission '' @
                  PermissionKind_as_static_str permission))
      else Ok ())"

definition constraints_from_manifest ::
  "permission_request \<Rightarrow> (extension_error, permission_constraints) result" where
  "constraints_from_manifest request =
     (case PermissionKind_parse (pr_name request) of
        None \<Rightarrow> Err (ManifestValidation (''unsupported permission request: '' @ pr_name request))
      | Some permission \<Rightarrow>
          (let c = \<lparr>pc_paths = pr_paths request, pc_operations = pr_operations request,
                    pc_schemes = pr_schemes request, pc_hosts = pr_hosts request,
                    pc_methods = pr_methods request, pc_max_bytes = pr_max_bytes request,
                    pc_max_response_bytes = pr_max_response_bytes request\<rparr>
           in try_res (validate_constraints permission c) (\<lambda>_. Ok c)))"

text \<open>
  \<open>PermissionConstraints::digest\<close>: the hexadecimal SHA-256 of the canonical JSON. \<open>canonical\<close> is
  \<open>canonical_json\<close>, which is \<open>serde_json\<close> on the derived encoding and reports its errors.
\<close>

definition constraints_digest ::
  "(string \<Rightarrow> string) \<Rightarrow> (permission_constraints \<Rightarrow> (extension_error, string) result) \<Rightarrow>
   permission_constraints \<Rightarrow> (extension_error, string) result" where
  "constraints_digest sha canonical c = try_res (canonical c) (\<lambda>text. Ok (sha256_hex sha text))"

datatype permission_use =
  UseProjectFsRead (relative_path: string) (requested_bytes: u64)
| UseWorkspaceRInspect (operation: string) (requested_bytes: u64)
| UseNetworkFetch (use_scheme: string) (use_host: string) (use_method: string) (requested_response_bytes: u64)

definition within :: "u64 \<Rightarrow> u64 option \<Rightarrow> bool" where
  "within n bound = (case bound of Some maximum \<Rightarrow> n \<le> maximum | None \<Rightarrow> False)"

fun permission_use_allowed ::
  "permission_kind \<Rightarrow> permission_constraints \<Rightarrow> permission_use \<Rightarrow> bool" where
  "permission_use_allowed ProjectFsRead c (UseProjectFsRead path n) =
     (valid_relative_path path \<and>
      list_ex (\<lambda>pattern. glob_matches pattern path) (pc_paths c) \<and>
      within n (pc_max_bytes c))"
| "permission_use_allowed WorkspaceRInspect c (UseWorkspaceRInspect op n) =
     (list_ex (\<lambda>allowed. allowed = op) (pc_operations c) \<and> within n (pc_max_bytes c))"
| "permission_use_allowed NetworkFetch c (UseNetworkFetch sch h m n) =
     (list_ex (\<lambda>allowed. allowed = sch) (pc_schemes c) \<and>
      list_ex (\<lambda>allowed. host_matches allowed h) (pc_hosts c) \<and>
      list_ex (\<lambda>allowed. allowed = m) (pc_methods c) \<and>
      within n (pc_max_response_bytes c))"
| "permission_use_allowed _ _ _ = False"

lemma validate_constraints_Ok [simp]: "validate_constraints p c = Ok () \<longleftrightarrow> constraints_valid p c"
  by (simp add: validate_constraints_def)

text \<open>What an allowed use says, in terms of the semantics of the patterns.\<close>

lemma allowed_fs_read:
  assumes "permission_use_allowed p c (UseProjectFsRead path n)"
  shows "p = ProjectFsRead \<and> resolve_path root path = root @ split_on is_slash path \<and>
     (\<exists>pattern\<in>set (pc_paths c). glob_spec pattern path) \<and> (\<exists>m. pc_max_bytes c = Some m \<and> n \<le> m)"
  using assms
  by (cases p) (auto simp: list_ex_iff glob_matches_eq resolve_path_valid within_def split: option.splits)

lemma allowed_network_fetch:
  assumes "permission_use_allowed p c (UseNetworkFetch sch h m n)" and "constraints_valid p c"
  shows "p = NetworkFetch \<and> sch = ''https'' \<and> m \<in> {''GET'', ''HEAD''} \<and>
     (\<exists>pattern\<in>set (pc_hosts c). host_matches pattern h) \<and>
     (\<exists>b. pc_max_response_bytes c = Some b \<and> n \<le> b)"
  using assms
  by (cases p) (auto simp: list_ex_iff list_all_iff within_def split: option.splits)

lemma allowed_inspect:
  assumes "permission_use_allowed p c (UseWorkspaceRInspect op n)"
  shows "p = WorkspaceRInspect \<and> op \<in> set (pc_operations c) \<and> (\<exists>m. pc_max_bytes c = Some m \<and> n \<le> m)"
  using assms by (cases p) (auto simp: list_ex_iff within_def split: option.splits)

end
