(* ===== verification/Grants.thy ===== *)
theory Grants
  imports Permissions
begin

text \<open>
  The reference monitor of \<^verbatim>\<open>crates/rho-extension-runtime/src/grant.rs\<close>: a store of grants keyed
  by the digest of an opaque handle, with issue, revocation, invalidation by project, host or
  Workspace, revalidation of every privileged call and completion of reserved allow-once grants.
  The clock and the token source are traits of the program: each operation takes the time it reads
  and the token it draws as arguments. \<open>sha\<close> is SHA-256, \<open>canonical\<close> the canonical JSON text.
  Plugin versions (the \<open>semver\<close> crate) are an opaque type \<open>'ver\<close>.
\<close>

section \<open>Data\<close>

type_synonym host_instance_id = string
type_synonym canonical_json = "permission_constraints \<Rightarrow> (extension_error, string) result"

datatype grant_source = AllowOnce | ProjectGrant

record workspace_grant_identity =
  wi_workspace_id :: string
  wi_kernel_instance_id :: string
  wi_state_revision :: u64
  wi_project_revision :: u64

record 'ver plugin_grant =
  g_durable_grant_id :: string
  g_handle_digest :: string
  g_normalized_project_root :: string
  g_plugin_id :: plugin_id
  g_plugin_version :: 'ver
  g_runtime_kind :: runtime_kind
  g_host_instance_id :: host_instance_id
  g_package_digest :: package_digest
  g_project_id :: scope_id
  g_scope_id :: scope_id
  g_activation_generation :: activation_generation
  g_permission :: permission_kind
  g_constraints :: permission_constraints
  g_constraints_digest :: string
  g_grant_source :: grant_source
  g_policy_revision :: u64
  g_workspace :: "workspace_grant_identity option"
  g_created_at_millis :: u64
  g_expires_at_millis :: u64
  g_revoked_at_millis :: "u64 option"
  g_used :: bool
  g_in_flight :: bool

definition grant_consumed :: "'ver plugin_grant \<Rightarrow> u64 \<Rightarrow> bool" where
  "grant_consumed g now \<longleftrightarrow> g_used g \<or> now \<ge> g_expires_at_millis g"

definition grant_is_active :: "'ver plugin_grant \<Rightarrow> u64 \<Rightarrow> bool" where
  "grant_is_active g now \<longleftrightarrow> g_revoked_at_millis g = None \<and> \<not> grant_consumed g now"

record capability_handle =
  h_id :: string
  h_permission :: permission_kind
  h_scope_id :: scope_id
  h_expires_at_millis :: "u64 option"

datatype grant_error_kind =
  UnknownHandle | Revoked | Expired | Consumed | InFlight | NotAdmitted | WrongPlugin
| WrongHostSession | WrongProject | WrongScope | WrongGeneration | WrongPackageDigest
| WrongPermission | WrongWorkspace | ConstraintViolation

datatype revalidation = Allowed | Denied grant_error_kind

record 'ver grant_request =
  rq_durable_grant_id :: string
  rq_normalized_project_root :: string
  rq_plugin_id :: plugin_id
  rq_plugin_version :: 'ver
  rq_runtime_kind :: runtime_kind
  rq_host_instance_id :: host_instance_id
  rq_package_digest :: package_digest
  rq_project_id :: scope_id
  rq_scope_id :: scope_id
  rq_activation_generation :: activation_generation
  rq_permission :: permission_kind
  rq_constraints :: permission_constraints
  rq_constraints_digest :: string
  rq_grant_source :: grant_source
  rq_policy_revision :: u64
  rq_workspace :: "workspace_grant_identity option"
  rq_expires_at_millis :: u64

record revalidation_request =
  rv_handle_id :: string
  rv_plugin_id :: plugin_id
  rv_host_instance_id :: host_instance_id
  rv_package_digest :: package_digest
  rv_project_id :: scope_id
  rv_scope_id :: scope_id
  rv_generation :: activation_generation
  rv_permission :: permission_kind
  rv_permission_use :: permission_use
  rv_workspace :: "workspace_grant_identity option"

record 'ver grant_store =
  gs_grants :: "(string, 'ver plugin_grant) btree"
  gs_durable_handles :: "(string, string) btree"

definition GrantStore_new :: "'ver grant_store" where
  "GrantStore_new = \<lparr>gs_grants = bt_empty, gs_durable_handles = bt_empty\<rparr>"

definition MAX_ALLOW_ONCE_TTL_MILLIS :: u64 where "MAX_ALLOW_ONCE_TTL_MILLIS = 300000"
definition MAX_PROJECT_GRANT_TTL_MILLIS :: u64 where "MAX_PROJECT_GRANT_TTL_MILLIS = 2592000000"

fun maximum_ttl :: "grant_source \<Rightarrow> u64" where
  "maximum_ttl AllowOnce = MAX_ALLOW_ONCE_TTL_MILLIS"
| "maximum_ttl ProjectGrant = MAX_PROJECT_GRANT_TTL_MILLIS"

definition saturating_sub :: "u64 \<Rightarrow> u64 \<Rightarrow> u64" where
  "saturating_sub a b = (if a < b then 0 else a - b)"

section \<open>Admission of a grant\<close>

definition valid_opaque_id :: "string \<Rightarrow> bool" where
  "valid_opaque_id value \<longleftrightarrow> value \<noteq> [] \<and> length value \<le> MAX_IDENTIFIER_BYTES \<and> list_all id_char value"

definition workspace_shape_valid :: "permission_kind \<Rightarrow> workspace_grant_identity option \<Rightarrow> bool" where
  "workspace_shape_valid p w = (case p of WorkspaceRInspect \<Rightarrow> w \<noteq> None | _ \<Rightarrow> w = None)"

definition workspace_identity_invalid :: "workspace_grant_identity \<Rightarrow> bool" where
  "workspace_identity_invalid w \<longleftrightarrow>
     wi_workspace_id w = [] \<or> length (wi_workspace_id w) > 256 \<or>
     wi_kernel_instance_id w = [] \<or> length (wi_kernel_instance_id w) > 256 \<or>
     has_control (wi_workspace_id w) \<or> has_control (wi_kernel_instance_id w)"

definition validate_grant_request ::
  "(string \<Rightarrow> string) \<Rightarrow> canonical_json \<Rightarrow> 'ver grant_request \<Rightarrow>
   (extension_error, unit) result" where
  "validate_grant_request sha canonical r =
     (if \<not> valid_opaque_id (rq_durable_grant_id r)
      then Err (ManifestValidation ''durable grant id is invalid'')
      else if trim (rq_normalized_project_root r) = [] \<or>
              rq_normalized_project_root r = ''legacy_unscoped'' \<or>
              CHR 0x5C \<in> set (rq_normalized_project_root r)
      then Err (ManifestValidation ''grant requires an explicit normalized project root'')
      else if rq_runtime_kind r \<noteq> Wasm
      then Err (ManifestValidation ''live plugin grants require the Wasm runtime'')
      else if rq_project_id r \<noteq> rq_scope_id r
      then Err (ManifestValidation ''initial plugin grants must use the exact project scope'')
      else if rq_policy_revision r = 0
      then Err (ManifestValidation ''grant policy revision must be positive'')
      else try_res (constraints_digest sha canonical (rq_constraints r)) (\<lambda>d.
        if d \<noteq> rq_constraints_digest r
        then Err (ManifestValidation ''grant constraints digest does not match canonical constraints'')
        else if \<not> workspace_shape_valid (rq_permission r) (rq_workspace r)
        then Err (ManifestValidation ''grant Workspace identity does not match its permission'')
        else if (case rq_workspace r of None \<Rightarrow> False | Some w \<Rightarrow> workspace_identity_invalid w)
        then Err (ManifestValidation ''grant Workspace identity is invalid'')
        else Ok ()))"

definition handle_of_token :: "string \<Rightarrow> string" where
  "handle_of_token token = ''handle.'' @ hex_encode token"

definition new_grant :: "u64 \<Rightarrow> string \<Rightarrow> 'ver grant_request \<Rightarrow> 'ver plugin_grant" where
  "new_grant now handle_digest r =
     \<lparr>g_durable_grant_id = rq_durable_grant_id r, g_handle_digest = handle_digest,
      g_normalized_project_root = rq_normalized_project_root r, g_plugin_id = rq_plugin_id r,
      g_plugin_version = rq_plugin_version r, g_runtime_kind = rq_runtime_kind r,
      g_host_instance_id = rq_host_instance_id r, g_package_digest = rq_package_digest r,
      g_project_id = rq_project_id r, g_scope_id = rq_scope_id r,
      g_activation_generation = rq_activation_generation r, g_permission = rq_permission r,
      g_constraints = rq_constraints r, g_constraints_digest = rq_constraints_digest r,
      g_grant_source = rq_grant_source r, g_policy_revision = rq_policy_revision r,
      g_workspace = rq_workspace r, g_created_at_millis = now,
      g_expires_at_millis = rq_expires_at_millis r, g_revoked_at_millis = None,
      g_used = False, g_in_flight = False\<rparr>"

text \<open>The checks of \<open>GrantStore::grant\<close> up to the point where it starts to change the store.\<close>

definition grant_precheck ::
  "(string \<Rightarrow> string) \<Rightarrow> canonical_json \<Rightarrow> u64 \<Rightarrow> 'ver grant_request \<Rightarrow>
   (extension_error, unit) result" where
  "grant_precheck sha canonical now r =
     try_res (validate_constraints (rq_permission r) (rq_constraints r)) (\<lambda>_.
     try_res (validate_grant_request sha canonical r) (\<lambda>_.
       if rq_expires_at_millis r \<le> now
       then Err (ManifestValidation ''grant expiry must be in the future'')
       else if saturating_sub (rq_expires_at_millis r) now > maximum_ttl (rq_grant_source r)
       then Err (ManifestValidation ''grant expiry exceeds its source policy'')
       else Ok ()))"

definition live_durable :: "'ver grant_store \<Rightarrow> u64 \<Rightarrow> string \<Rightarrow> bool" where
  "live_durable s now d =
     (case bt_get (gs_durable_handles s) d of
        None \<Rightarrow> False
      | Some digest \<Rightarrow>
          (case bt_get (gs_grants s) digest of None \<Rightarrow> False | Some g \<Rightarrow> grant_is_active g now))"

definition grant ::
  "(string \<Rightarrow> string) \<Rightarrow> canonical_json \<Rightarrow> u64 \<Rightarrow> string \<Rightarrow>
   'ver grant_store \<Rightarrow> 'ver grant_request \<Rightarrow>
   'ver grant_store \<times> (extension_error, capability_handle) result" where
  "grant sha canonical now token s r =
     (case grant_precheck sha canonical now r of
        Inl e \<Rightarrow> (s, Err e)
      | Inr _ \<Rightarrow>
          if live_durable s now (rq_durable_grant_id r)
          then (s, Err (ManifestValidation ''durable grant already has a live handle''))
          else
            (let s1 = s\<lparr>gs_durable_handles := bt_remove (rq_durable_grant_id r) (gs_durable_handles s)\<rparr>;
                 handle_id = handle_of_token token;
                 handle_digest = sha256_hex sha handle_id
             in if bt_contains_key (gs_grants s1) handle_digest
                then (s1, Err (ManifestValidation ''handle token source produced a duplicate token''))
                else
                  (s1\<lparr>gs_durable_handles :=
                        bt_insert (rq_durable_grant_id r) handle_digest (gs_durable_handles s1),
                      gs_grants := bt_insert handle_digest (new_grant now handle_digest r) (gs_grants s1)\<rparr>,
                   Ok \<lparr>h_id = handle_id, h_permission = rq_permission r, h_scope_id = rq_scope_id r,
                       h_expires_at_millis = Some (rq_expires_at_millis r)\<rparr>)))"

section \<open>Revocation, invalidation and queries\<close>

definition update_grant ::
  "string \<Rightarrow> ('ver plugin_grant \<Rightarrow> 'ver plugin_grant) \<Rightarrow> 'ver grant_store \<Rightarrow> 'ver grant_store" where
  "update_grant k f s =
     (case bt_get (gs_grants s) k of
        None \<Rightarrow> s
      | Some g \<Rightarrow> s\<lparr>gs_grants := bt_insert k (f g) (gs_grants s)\<rparr>)"

definition revoke :: "(string \<Rightarrow> string) \<Rightarrow> u64 \<Rightarrow> 'ver grant_store \<Rightarrow> string \<Rightarrow> 'ver grant_store \<times> bool" where
  "revoke sha now s handle_id =
     (let k = sha256_hex sha handle_id in
      case bt_get (gs_grants s) k of
        Some g \<Rightarrow> (update_grant k (\<lambda>g. g\<lparr>g_revoked_at_millis := Some now\<rparr>) s, True)
      | None \<Rightarrow> (s, False))"

definition revoke_durable_grant :: "u64 \<Rightarrow> 'ver grant_store \<Rightarrow> string \<Rightarrow> 'ver grant_store \<times> bool" where
  "revoke_durable_grant now s durable_grant_id =
     (case bt_get (gs_durable_handles s) durable_grant_id of
        None \<Rightarrow> (s, False)
      | Some k \<Rightarrow>
          (case bt_get (gs_grants s) k of
             None \<Rightarrow> (s, False)
           | Some g \<Rightarrow> (update_grant k (\<lambda>g. g\<lparr>g_revoked_at_millis := Some now\<rparr>) s, True)))"

definition has_live_durable_grant :: "u64 \<Rightarrow> 'ver grant_store \<Rightarrow> string \<Rightarrow> bool" where
  "has_live_durable_grant now s d = live_durable s now d"

definition active_handle_count :: "u64 \<Rightarrow> 'ver grant_store \<Rightarrow> nat" where
  "active_handle_count now s = length (filter (\<lambda>g. grant_is_active g now) (bt_values (gs_grants s)))"

definition has_live_handle :: "(string \<Rightarrow> string) \<Rightarrow> u64 \<Rightarrow> 'ver grant_store \<Rightarrow> string \<Rightarrow> bool" where
  "has_live_handle sha now s handle_id =
     (case bt_get (gs_grants s) (sha256_hex sha handle_id) of
        None \<Rightarrow> False | Some g \<Rightarrow> grant_is_active g now)"

definition handle_allows_admitted_completion ::
  "(string \<Rightarrow> string) \<Rightarrow> u64 \<Rightarrow> 'ver grant_store \<Rightarrow> string \<Rightarrow> bool" where
  "handle_allows_admitted_completion sha now s handle_id =
     (case bt_get (gs_grants s) (sha256_hex sha handle_id) of
        None \<Rightarrow> False
      | Some g \<Rightarrow> g_revoked_at_millis g = None \<and> now < g_expires_at_millis g)"

text \<open>The loop shared by the three invalidations: revoke what matches and is not yet revoked.\<close>

definition invalidate_where ::
  "('ver plugin_grant \<Rightarrow> bool) \<Rightarrow> u64 \<Rightarrow> 'ver grant_store \<Rightarrow> 'ver grant_store \<times> nat" where
  "invalidate_where p now s =
     (let hit = (\<lambda>g. p g \<and> g_revoked_at_millis g = None) in
      (s\<lparr>gs_grants := bt_map_values
          (\<lambda>g. if hit g then g\<lparr>g_revoked_at_millis := Some now\<rparr> else g) (gs_grants s)\<rparr>,
       length (filter hit (bt_values (gs_grants s)))))"

definition invalidate_project :: "u64 \<Rightarrow> 'ver grant_store \<Rightarrow> string \<Rightarrow> 'ver grant_store \<times> nat" where
  "invalidate_project now s root = invalidate_where (\<lambda>g. g_normalized_project_root g = root) now s"

definition invalidate_host :: "u64 \<Rightarrow> 'ver grant_store \<Rightarrow> host_instance_id \<Rightarrow> 'ver grant_store \<times> nat" where
  "invalidate_host now s h = invalidate_where (\<lambda>g. g_host_instance_id g = h) now s"

definition invalidate_workspace ::
  "u64 \<Rightarrow> 'ver grant_store \<Rightarrow> workspace_grant_identity \<Rightarrow> 'ver grant_store \<times> nat" where
  "invalidate_workspace now s w = invalidate_where (\<lambda>g. g_workspace g = Some w) now s"

section \<open>Revalidation and completion\<close>

definition revalidation_error ::
  "'ver plugin_grant \<Rightarrow> revalidation_request \<Rightarrow> u64 \<Rightarrow> bool \<Rightarrow> grant_error_kind option" where
  "revalidation_error g r now admitted =
     (if g_revoked_at_millis g \<noteq> None then Some Revoked
      else if now \<ge> g_expires_at_millis g then Some Expired
      else if g_used g then Some Consumed
      else if admitted \<and> g_grant_source g = AllowOnce \<and> \<not> g_in_flight g then Some NotAdmitted
      else if \<not> admitted \<and> g_in_flight g then Some InFlight
      else if g_plugin_id g \<noteq> rv_plugin_id r then Some WrongPlugin
      else if g_host_instance_id g \<noteq> rv_host_instance_id r then Some WrongHostSession
      else if g_project_id g \<noteq> rv_project_id r then Some WrongProject
      else if g_scope_id g \<noteq> rv_scope_id r then Some WrongScope
      else if g_activation_generation g \<noteq> rv_generation r then Some WrongGeneration
      else if g_package_digest g \<noteq> rv_package_digest r then Some WrongPackageDigest
      else if g_permission g \<noteq> rv_permission r then Some WrongPermission
      else if g_workspace g \<noteq> rv_workspace r then Some WrongWorkspace
      else if \<not> permission_use_allowed (g_permission g) (g_constraints g) (rv_permission_use r)
      then Some ConstraintViolation
      else None)"

definition revalidate ::
  "(string \<Rightarrow> string) \<Rightarrow> u64 \<Rightarrow> 'ver grant_store \<Rightarrow> revalidation_request \<Rightarrow>
   'ver grant_store \<times> revalidation" where
  "revalidate sha now s r =
     (let k = sha256_hex sha (rv_handle_id r) in
      case bt_get (gs_grants s) k of
        None \<Rightarrow> (s, Denied UnknownHandle)
      | Some g \<Rightarrow>
          (case revalidation_error g r now False of
             Some e \<Rightarrow> (s, Denied e)
           | None \<Rightarrow>
               (if g_grant_source g = AllowOnce
                then update_grant k (\<lambda>g. g\<lparr>g_in_flight := True\<rparr>) s else s, Allowed)))"

definition revalidate_admitted ::
  "(string \<Rightarrow> string) \<Rightarrow> u64 \<Rightarrow> 'ver grant_store \<Rightarrow> revalidation_request \<Rightarrow> revalidation" where
  "revalidate_admitted sha now s r =
     (case bt_get (gs_grants s) (sha256_hex sha (rv_handle_id r)) of
        None \<Rightarrow> Denied UnknownHandle
      | Some g \<Rightarrow>
          (case revalidation_error g r now True of Some e \<Rightarrow> Denied e | None \<Rightarrow> Allowed))"

definition durable_grant_id_for_handle ::
  "(string \<Rightarrow> string) \<Rightarrow> 'ver grant_store \<Rightarrow> string \<Rightarrow> string option" where
  "durable_grant_id_for_handle sha s handle_id =
     map_option g_durable_grant_id (bt_get (gs_grants s) (sha256_hex sha handle_id))"

definition permission_constraints_for_handle ::
  "(string \<Rightarrow> string) \<Rightarrow> 'ver grant_store \<Rightarrow> string \<Rightarrow> permission_constraints option" where
  "permission_constraints_for_handle sha s handle_id =
     map_option g_constraints (bt_get (gs_grants s) (sha256_hex sha handle_id))"

datatype completion_class = CompleteSuccess | CompleteFailureBeforeDispatch | CompleteUncertain

definition complete ::
  "(string \<Rightarrow> string) \<Rightarrow> 'ver grant_store \<Rightarrow> string \<Rightarrow> completion_class \<Rightarrow> 'ver grant_store \<times> bool" where
  "complete sha s handle_id c =
     (let k = sha256_hex sha handle_id in
      case bt_get (gs_grants s) k of
        None \<Rightarrow> (s, False)
      | Some g \<Rightarrow>
          if g_grant_source g \<noteq> AllowOnce \<or> \<not> g_in_flight g then (s, False)
          else
            (update_grant k
               (\<lambda>g. (case c of
                  CompleteSuccess \<Rightarrow> g\<lparr>g_in_flight := False, g_used := True\<rparr>
                | CompleteUncertain \<Rightarrow> g\<lparr>g_in_flight := False, g_used := True\<rparr>
                | CompleteFailureBeforeDispatch \<Rightarrow> g\<lparr>g_in_flight := False\<rparr>)) s, True))"

end
