(* ===== verification/Grant_Monitor.thy ===== *)
theory Grant_Monitor
  imports Grants
begin

text \<open>
  Correctness of the grant store as a reference monitor: the operations as one step function, the
  invariant of the store, what the operations may change of an issued grant, and from these the
  permanence of revocation and consumption over every further sequence of operations.
\<close>

section \<open>The operations as steps\<close>

datatype 'ver grant_op =
  OpGrant u64 string "'ver grant_request"
| OpRevoke u64 string
| OpRevokeDurable u64 string
| OpInvalidateProject u64 string
| OpInvalidateHost u64 host_instance_id
| OpInvalidateWorkspace u64 workspace_grant_identity
| OpRevalidate u64 revalidation_request
| OpComplete u64 string completion_class

fun grant_step ::
  "(string \<Rightarrow> string) \<Rightarrow> canonical_json \<Rightarrow> 'ver grant_store \<Rightarrow> 'ver grant_op \<Rightarrow> 'ver grant_store" where
  "grant_step sha canonical s (OpGrant now token r) = fst (grant sha canonical now token s r)"
| "grant_step sha canonical s (OpRevoke now h) = fst (revoke sha now s h)"
| "grant_step sha canonical s (OpRevokeDurable now d) = fst (revoke_durable_grant now s d)"
| "grant_step sha canonical s (OpInvalidateProject now p) = fst (invalidate_project now s p)"
| "grant_step sha canonical s (OpInvalidateHost now h) = fst (invalidate_host now s h)"
| "grant_step sha canonical s (OpInvalidateWorkspace now w) = fst (invalidate_workspace now s w)"
| "grant_step sha canonical s (OpRevalidate now r) = fst (revalidate sha now s r)"
| "grant_step sha canonical s (OpComplete now h c) = fst (complete sha s h c)"

fun op_time :: "'ver grant_op \<Rightarrow> u64" where
  "op_time (OpGrant now _ _) = now"
| "op_time (OpRevoke now _) = now"
| "op_time (OpRevokeDurable now _) = now"
| "op_time (OpInvalidateProject now _) = now"
| "op_time (OpInvalidateHost now _) = now"
| "op_time (OpInvalidateWorkspace now _) = now"
| "op_time (OpRevalidate now _) = now"
| "op_time (OpComplete now _ _) = now"

section \<open>What one grant record always satisfies\<close>

definition grant_wf :: "string \<Rightarrow> 'ver plugin_grant \<Rightarrow> bool" where
  "grant_wf k g \<longleftrightarrow>
     g_handle_digest g = k \<and>
     valid_opaque_id (g_durable_grant_id g) \<and>
     constraints_valid (g_permission g) (g_constraints g) \<and>
     g_runtime_kind g = Wasm \<and>
     g_project_id g = g_scope_id g \<and>
     g_policy_revision g \<noteq> 0 \<and>
     workspace_shape_valid (g_permission g) (g_workspace g) \<and>
     g_created_at_millis g < g_expires_at_millis g \<and>
     g_expires_at_millis g - g_created_at_millis g \<le> maximum_ttl (g_grant_source g) \<and>
     (g_in_flight g \<or> g_used g \<longrightarrow> g_grant_source g = AllowOnce) \<and>
     \<not> (g_in_flight g \<and> g_used g)"

definition store_inv :: "'ver grant_store \<Rightarrow> bool" where
  "store_inv s \<longleftrightarrow>
     bt_ok (gs_grants s) \<and> bt_ok (gs_durable_handles s) \<and>
     (\<forall>k g. bt_get (gs_grants s) k = Some g \<longrightarrow> grant_wf k g) \<and>
     (\<forall>d k. bt_get (gs_durable_handles s) d = Some k \<longrightarrow>
        (\<exists>g. bt_get (gs_grants s) k = Some g \<and> g_durable_grant_id g = d))"

lemma store_inv_wf: "store_inv s \<Longrightarrow> bt_get (gs_grants s) k = Some g \<Longrightarrow> grant_wf k g"
  by (simp add: store_inv_def)

lemma store_inv_durable:
  "store_inv s \<Longrightarrow> bt_get (gs_durable_handles s) d = Some k \<Longrightarrow>
     \<exists>g. bt_get (gs_grants s) k = Some g \<and> g_durable_grant_id g = d"
  by (simp add: store_inv_def)

lemma store_inv_ok: "store_inv s \<Longrightarrow> bt_ok (gs_grants s) \<and> bt_ok (gs_durable_handles s)"
  by (simp add: store_inv_def)

text \<open>Everything of a grant that no operation may touch.\<close>

definition frozen :: "'ver plugin_grant \<Rightarrow> 'ver plugin_grant" where
  "frozen g = g\<lparr>g_revoked_at_millis := None, g_used := False, g_in_flight := False\<rparr>"

definition evolves :: "'ver plugin_grant \<Rightarrow> 'ver plugin_grant \<Rightarrow> bool" where
  "evolves g g' \<longleftrightarrow>
     frozen g' = frozen g \<and>
     (g_revoked_at_millis g \<noteq> None \<longrightarrow> g_revoked_at_millis g' \<noteq> None) \<and>
     (g_used g \<longrightarrow> g_used g' \<and> (g_in_flight g' \<longrightarrow> g_in_flight g))"

lemma evolves_refl [simp]: "evolves g g"
  by (simp add: evolves_def)

lemma evolves_trans: "evolves g g' \<Longrightarrow> evolves g' g'' \<Longrightarrow> evolves g g''"
  by (auto simp: evolves_def)

lemma frozen_sel:
  "frozen g' = frozen g \<Longrightarrow>
     g_durable_grant_id g' = g_durable_grant_id g \<and> g_handle_digest g' = g_handle_digest g \<and>
     g_normalized_project_root g' = g_normalized_project_root g \<and>
     g_host_instance_id g' = g_host_instance_id g \<and> g_workspace g' = g_workspace g \<and>
     g_expires_at_millis g' = g_expires_at_millis g \<and> g_grant_source g' = g_grant_source g \<and>
     g_constraints g' = g_constraints g \<and> g_permission g' = g_permission g"
  unfolding frozen_def by (cases g; cases g') simp

lemma evolves_dead:
  "evolves g g' \<Longrightarrow> \<not> grant_is_active g t \<Longrightarrow> t \<le> t' \<Longrightarrow> \<not> grant_is_active g' t'"
  unfolding evolves_def using frozen_sel [of g' g]
  by (auto simp: grant_is_active_def grant_consumed_def)

section \<open>Stores before and after a step\<close>

definition store_evolves :: "'ver grant_store \<Rightarrow> 'ver grant_store \<Rightarrow> bool" where
  "store_evolves s s' \<longleftrightarrow>
     (\<forall>k g. bt_get (gs_grants s) k = Some g \<longrightarrow>
        (\<exists>g'. bt_get (gs_grants s') k = Some g' \<and> evolves g g'))"

lemma store_evolves_refl [simp]: "store_evolves s s"
  by (auto simp: store_evolves_def)

lemma store_evolves_trans: "store_evolves s s' \<Longrightarrow> store_evolves s' s'' \<Longrightarrow> store_evolves s s''"
  unfolding store_evolves_def by (meson evolves_trans)

lemma get_update_grant:
  "bt_get (gs_grants (update_grant k f s)) k' =
     (if k = k' then map_option f (bt_get (gs_grants s) k) else bt_get (gs_grants s) k')"
  by (auto simp: update_grant_def split: option.splits)

lemma durable_update_grant [simp]: "gs_durable_handles (update_grant k f s) = gs_durable_handles s"
  by (auto simp: update_grant_def split: option.splits)

lemma bt_ok_update_grant: "bt_ok (gs_grants s) \<Longrightarrow> bt_ok (gs_grants (update_grant k f s))"
  by (auto simp: update_grant_def split: option.splits)

text \<open>The one obligation of an operation that rewrites a single record.\<close>

lemma update_grant_inv:
  assumes "store_inv s"
    and "\<And>g. bt_get (gs_grants s) k = Some g \<Longrightarrow> grant_wf k g \<Longrightarrow>
           grant_wf k (f g) \<and> evolves g (f g)"
  shows "store_inv (update_grant k f s) \<and> store_evolves s (update_grant k f s)"
proof
  have wf: "\<And>k g. bt_get (gs_grants s) k = Some g \<Longrightarrow> grant_wf k g"
    using assms(1) by (rule store_inv_wf)
  show "store_evolves s (update_grant k f s)"
    using assms(2) wf by (auto simp: store_evolves_def get_update_grant)
  have d: "g_durable_grant_id (f g) = g_durable_grant_id g" if "bt_get (gs_grants s) k = Some g" for g
    using assms(2) [OF that wf [OF that]] frozen_sel [of "f g" g] by (simp add: evolves_def)
  show "store_inv (update_grant k f s)"
    unfolding store_inv_def
  proof (intro conjI allI impI)
    show "bt_ok (gs_grants (update_grant k f s))" "bt_ok (gs_durable_handles (update_grant k f s))"
      using store_inv_ok [OF assms(1)] by (auto intro: bt_ok_update_grant)
    fix k' g assume "bt_get (gs_grants (update_grant k f s)) k' = Some g"
    then show "grant_wf k' g"
      using wf assms(2) by (auto simp: get_update_grant split: if_splits)
  next
    fix d' k' assume "bt_get (gs_durable_handles (update_grant k f s)) d' = Some k'"
    then obtain g where "bt_get (gs_grants s) k' = Some g" "g_durable_grant_id g = d'"
      using store_inv_durable [OF assms(1)] by auto
    then show "\<exists>g. bt_get (gs_grants (update_grant k f s)) k' = Some g \<and> g_durable_grant_id g = d'"
      using d by (auto simp: get_update_grant)
  qed
qed

lemma map_values_inv:
  assumes "store_inv s"
    and "\<And>k g. grant_wf k g \<Longrightarrow> grant_wf k (f g) \<and> evolves g (f g)"
  shows "store_inv (s\<lparr>gs_grants := bt_map_values f (gs_grants s)\<rparr>) \<and>
     store_evolves s (s\<lparr>gs_grants := bt_map_values f (gs_grants s)\<rparr>)"
proof
  note wf = store_inv_wf [OF assms(1)]
  show "store_evolves s (s\<lparr>gs_grants := bt_map_values f (gs_grants s)\<rparr>)"
    using assms(2) wf by (auto simp: store_evolves_def)
  have d: "g_durable_grant_id (f g) = g_durable_grant_id g" if "grant_wf k g" for k g
    using assms(2) [OF that] frozen_sel [of "f g" g] by (simp add: evolves_def)
  show "store_inv (s\<lparr>gs_grants := bt_map_values f (gs_grants s)\<rparr>)"
    unfolding store_inv_def
    using store_inv_ok [OF assms(1)] store_inv_durable [OF assms(1)] wf assms(2) d
    by (auto, metis)
qed

section \<open>Each operation keeps the invariant\<close>

lemma revoked_ok:
  "grant_wf k g \<Longrightarrow> grant_wf k (g\<lparr>g_revoked_at_millis := Some now\<rparr>) \<and>
     evolves g (g\<lparr>g_revoked_at_millis := Some now\<rparr>)"
  by (simp add: grant_wf_def evolves_def frozen_def)

lemma reserved_ok:
  "grant_wf k g \<Longrightarrow> g_grant_source g = AllowOnce \<Longrightarrow> \<not> g_used g \<Longrightarrow>
     grant_wf k (g\<lparr>g_in_flight := True\<rparr>) \<and> evolves g (g\<lparr>g_in_flight := True\<rparr>)"
  by (simp add: grant_wf_def evolves_def frozen_def)

lemma released_ok:
  "grant_wf k g \<Longrightarrow> g_in_flight g \<Longrightarrow>
     grant_wf k (g\<lparr>g_in_flight := False\<rparr>) \<and> evolves g (g\<lparr>g_in_flight := False\<rparr>)"
  by (auto simp: grant_wf_def evolves_def frozen_def)

lemma consumed_ok:
  "grant_wf k g \<Longrightarrow> g_in_flight g \<Longrightarrow>
     grant_wf k (g\<lparr>g_in_flight := False, g_used := True\<rparr>) \<and>
     evolves g (g\<lparr>g_in_flight := False, g_used := True\<rparr>)"
  by (auto simp: grant_wf_def evolves_def frozen_def)

lemma revalidation_error_None_used:
  "revalidation_error g r now admitted = None \<Longrightarrow> \<not> g_used g"
  by (auto simp: revalidation_error_def split: if_splits)

abbreviation kept :: "'ver grant_store \<Rightarrow> 'ver grant_store \<Rightarrow> bool" where
  "kept s s' \<equiv> store_inv s' \<and> store_evolves s s'"

lemma revoke_inv [rho_inv]: "store_inv s \<Longrightarrow> kept s (fst (revoke sha now s h))"
  by (cases "bt_get (gs_grants s) (sha256_hex sha h)")
    (simp_all add: revoke_def update_grant_inv revoked_ok)

lemma revoke_durable_inv [rho_inv]: "store_inv s \<Longrightarrow> kept s (fst (revoke_durable_grant now s d))"
  by (simp add: revoke_durable_grant_def update_grant_inv revoked_ok split: option.split)

lemma invalidate_where_inv [rho_inv]: "store_inv s \<Longrightarrow> kept s (fst (invalidate_where p now s))"
  unfolding invalidate_where_def Let_def fst_conv
  by (rule map_values_inv) (auto dest: revoked_ok)

lemma revalidate_inv [rho_inv]:
  assumes "store_inv s"
  shows "kept s (fst (revalidate sha now s r))"
proof -
  let ?k = "sha256_hex sha (rv_handle_id r)"
  have "kept s (update_grant ?k (\<lambda>g. g\<lparr>g_in_flight := True\<rparr>) s)"
    if "bt_get (gs_grants s) ?k = Some g" "revalidation_error g r now False = None"
      "g_grant_source g = AllowOnce" for g
    by (rule update_grant_inv [OF assms])
      (use that reserved_ok revalidation_error_None_used [OF that(2)] in auto)
  then show ?thesis using assms by (auto simp: revalidate_def Let_def split: option.split)
qed

lemma complete_inv [rho_inv]:
  assumes "store_inv s"
  shows "kept s (fst (complete sha s h c))"
proof -
  let ?k = "sha256_hex sha h"
  have "kept s (update_grant ?k f s)"
    if "bt_get (gs_grants s) ?k = Some g" "g_in_flight g"
      "f = (\<lambda>g. g\<lparr>g_in_flight := False\<rparr>) \<or> f = (\<lambda>g. g\<lparr>g_in_flight := False, g_used := True\<rparr>)" for g f
    by (rule update_grant_inv [OF assms]) (use that released_ok consumed_ok in auto)
  then show ?thesis
    using assms by (cases c) (auto simp: complete_def Let_def split: option.split)
qed

lemma grant_precheck_wf:
  assumes "grant_precheck sha canonical now r = Ok ()"
  shows "grant_wf k (new_grant now k r)"
proof -
  have e: "now < rq_expires_at_millis r"
    "saturating_sub (rq_expires_at_millis r) now \<le> maximum_ttl (rq_grant_source r)"
    "constraints_valid (rq_permission r) (rq_constraints r)"
    "validate_grant_request sha canonical r = Ok ()"
    using assms by (auto simp: grant_precheck_def try_res_Ok_iff not_le not_less split: if_splits)
  have "rq_expires_at_millis r - now \<le> maximum_ttl (rq_grant_source r)"
    using e(1,2) by (auto simp: saturating_sub_def dest: less_asym split: if_splits)
  with e show ?thesis
    by (auto simp: grant_wf_def new_grant_def validate_grant_request_def try_res_Ok_iff split: if_splits)
qed

lemma grant_inv [rho_inv]:
  assumes "store_inv s"
  shows "kept s (fst (grant sha canonical now token s r))"
proof (cases "grant_precheck sha canonical now r")
  case (Inr u)
  let ?k = "sha256_hex sha (handle_of_token token)"
  let ?d = "rq_durable_grant_id r"
  let ?s1 = "s\<lparr>gs_durable_handles := bt_remove ?d (gs_durable_handles s)\<rparr>"
  let ?s2 = "?s1\<lparr>gs_durable_handles := bt_insert ?d ?k (gs_durable_handles ?s1),
      gs_grants := bt_insert ?k (new_grant now ?k r) (gs_grants ?s1)\<rparr>"
  have wf: "grant_wf ?k (new_grant now ?k r)" using grant_precheck_wf Inr by auto
  note ok = store_inv_ok [OF assms]
  have s1: "kept s ?s1"
    using ok store_inv_wf [OF assms] store_inv_durable [OF assms]
    by (auto simp: store_inv_def store_evolves_def split: if_splits)
  have s2: "kept s ?s2" if new: "bt_get (gs_grants s) ?k = None"
  proof
    show "store_evolves s ?s2" using new by (auto simp: store_evolves_def)
    show "store_inv ?s2"
      unfolding store_inv_def
      using ok wf new store_inv_wf [OF assms] store_inv_durable [OF assms]
      by (fastforce simp: new_grant_def split: if_splits)
  qed
  show ?thesis
    using assms s1 s2 Inr by (auto simp: grant_def Let_def bt_contains_key_def)
qed (use assms in \<open>simp add: grant_def\<close>)

lemma grant_step_kept: "store_inv s \<Longrightarrow> kept s (grant_step sha canonical s a)"
  by (cases a) (simp_all add: rho_inv invalidate_project_def invalidate_host_def invalidate_workspace_def)

lemma GrantStore_new_inv: "store_inv GrantStore_new"
  by (simp add: store_inv_def GrantStore_new_def)

interpretation monitor: step_system GrantStore_new "grant_step sha canonical" store_inv
  by unfold_locales (simp_all add: GrantStore_new_inv grant_step_kept)

lemma run_evolves: "store_inv s \<Longrightarrow> store_evolves s (run (grant_step sha canonical) s acts)"
proof (induction acts arbitrary: s)
  case (Cons a acts)
  then have "store_inv (grant_step sha canonical s a)" "store_evolves s (grant_step sha canonical s a)"
    using grant_step_kept by blast+
  with Cons.IH show ?case by (auto intro: store_evolves_trans)
qed simp

section \<open>Revalidation\<close>

text \<open>What the grant must be, field by field, for a call to pass.\<close>

definition matches_call :: "'ver plugin_grant \<Rightarrow> revalidation_request \<Rightarrow> bool" where
  "matches_call g r \<longleftrightarrow>
     g_plugin_id g = rv_plugin_id r \<and> g_host_instance_id g = rv_host_instance_id r \<and>
     g_project_id g = rv_project_id r \<and> g_scope_id g = rv_scope_id r \<and>
     g_activation_generation g = rv_generation r \<and> g_package_digest g = rv_package_digest r \<and>
     g_permission g = rv_permission r \<and> g_workspace g = rv_workspace r \<and>
     permission_use_allowed (g_permission g) (g_constraints g) (rv_permission_use r)"

lemma revalidation_error_None_iff:
  "revalidation_error g r now admitted = None \<longleftrightarrow>
     grant_is_active g now \<and> matches_call g r \<and>
     (if admitted then g_grant_source g = AllowOnce \<longrightarrow> g_in_flight g else \<not> g_in_flight g)"
  by (auto simp: revalidation_error_def grant_is_active_def grant_consumed_def matches_call_def)

lemma revalidate_Allowed_iff:
  "snd (revalidate sha now s r) = Allowed \<longleftrightarrow>
     (\<exists>g. bt_get (gs_grants s) (sha256_hex sha (rv_handle_id r)) = Some g \<and>
        grant_is_active g now \<and> \<not> g_in_flight g \<and> matches_call g r)"
proof -
  have "snd (revalidate sha now s r) = Allowed \<longleftrightarrow>
     (\<exists>g. bt_get (gs_grants s) (sha256_hex sha (rv_handle_id r)) = Some g \<and>
        revalidation_error g r now False = None)"
    by (auto simp: revalidate_def Let_def split: option.splits)
  then show ?thesis by (auto simp: revalidation_error_None_iff)
qed

lemma revalidate_admitted_Allowed_iff:
  "revalidate_admitted sha now s r = Allowed \<longleftrightarrow>
     (\<exists>g. bt_get (gs_grants s) (sha256_hex sha (rv_handle_id r)) = Some g \<and>
        grant_is_active g now \<and> (g_grant_source g = AllowOnce \<longrightarrow> g_in_flight g) \<and> matches_call g r)"
proof -
  have "revalidate_admitted sha now s r = Allowed \<longleftrightarrow>
     (\<exists>g. bt_get (gs_grants s) (sha256_hex sha (rv_handle_id r)) = Some g \<and>
        revalidation_error g r now True = None)"
    by (auto simp: revalidate_admitted_def split: option.splits)
  then show ?thesis by (auto simp: revalidation_error_None_iff)
qed

section \<open>Permanence\<close>

text \<open>A handle is retired when its record is revoked or used; no operation brings it back.\<close>

definition retired :: "string \<Rightarrow> 'ver grant_store \<Rightarrow> bool" where
  "retired k s \<longleftrightarrow>
     (\<exists>g. bt_get (gs_grants s) k = Some g \<and> (g_revoked_at_millis g \<noteq> None \<or> g_used g))"

lemma retired_evolves: "retired k s \<Longrightarrow> store_evolves s s' \<Longrightarrow> retired k s'"
proof -
  assume "retired k s" and ev: "store_evolves s s'"
  then obtain g where g: "bt_get (gs_grants s) k = Some g" "g_revoked_at_millis g \<noteq> None \<or> g_used g"
    unfolding retired_def by auto
  from ev g(1) obtain g' where "bt_get (gs_grants s') k = Some g'" "evolves g g'"
    unfolding store_evolves_def by auto
  with g(2) show ?thesis unfolding retired_def evolves_def by auto
qed

lemma retired_step: "store_inv s \<Longrightarrow> retired k s \<Longrightarrow> retired k (grant_step sha canonical s a)"
  using retired_evolves [of k s "grant_step sha canonical s a"] grant_step_kept [of s sha canonical a]
  by simp

interpretation retirement: stable_property GrantStore_new "grant_step sha canonical" store_inv "retired k"
  by unfold_locales (rule retired_step)

lemma revalidation_error_retired:
  assumes "g_revoked_at_millis g \<noteq> None \<or> g_used g"
  shows "\<exists>e\<in>{Revoked, Expired, Consumed}. revalidation_error g r now admitted = Some e"
proof (cases "g_revoked_at_millis g \<noteq> None")
  case True
  then show ?thesis by (simp add: revalidation_error_def)
next
  case False
  with assms show ?thesis
    by (cases "now \<ge> g_expires_at_millis g") (simp_all add: revalidation_error_def)
qed

lemma retired_denied:
  assumes "retired (sha256_hex sha (rv_handle_id r)) s"
  shows "\<exists>e\<in>{Revoked, Expired, Consumed}. revalidate sha now s r = (s, Denied e)"
proof -
  obtain g where g: "bt_get (gs_grants s) (sha256_hex sha (rv_handle_id r)) = Some g"
    "g_revoked_at_millis g \<noteq> None \<or> g_used g"
    using assms unfolding retired_def by auto
  from revalidation_error_retired [OF g(2)] obtain e
    where "e \<in> {Revoked, Expired, Consumed}" "revalidation_error g r now False = Some e" by blast
  with g(1) show ?thesis by (auto simp: revalidate_def)
qed

lemma retired_not_completable:
  assumes "store_inv s" "bt_get (gs_grants s) (sha256_hex sha h) = Some g" "g_used g"
  shows "complete sha s h c = (s, False)"
  using store_inv_wf [OF assms(1,2)] assms(2,3)
  by (simp add: complete_def grant_wf_def)

lemma revoke_retires:
  "snd (revoke sha now s h) \<Longrightarrow> retired (sha256_hex sha h) (fst (revoke sha now s h))"
  by (auto simp: revoke_def Let_def retired_def get_update_grant split: option.splits)

lemma complete_retires:
  "snd (complete sha s h c) \<Longrightarrow> c \<noteq> CompleteFailureBeforeDispatch \<Longrightarrow>
     \<exists>g. bt_get (gs_grants (fst (complete sha s h c))) (sha256_hex sha h) = Some g \<and> g_used g"
  by (cases c) (auto simp: complete_def Let_def get_update_grant split: option.splits if_splits)

lemma used_evolves:
  "bt_get (gs_grants s) k = Some g \<Longrightarrow> g_used g \<Longrightarrow> store_evolves s s' \<Longrightarrow>
     \<exists>g'. bt_get (gs_grants s') k = Some g' \<and> g_used g'"
  unfolding store_evolves_def evolves_def by metis

section \<open>At most one live handle per durable grant\<close>

text \<open>
  A record that the durable index does not point to is dead at time \<open>t\<close>. This needs the clock not to
  run backwards, since expiry is compared with the time of the operation.
\<close>

definition orphans_dead :: "u64 \<Rightarrow> 'ver grant_store \<Rightarrow> bool" where
  "orphans_dead t s \<longleftrightarrow>
     (\<forall>k g. bt_get (gs_grants s) k = Some g \<longrightarrow>
        bt_get (gs_durable_handles s) (g_durable_grant_id g) \<noteq> Some k \<longrightarrow> \<not> grant_is_active g t)"

lemma orphans_dead_evolves:
  assumes od: "orphans_dead t s" "t \<le> t'" and ev: "store_evolves s s'"
    and keys: "\<And>k g. bt_get (gs_grants s') k = Some g \<Longrightarrow> bt_get (gs_grants s) k \<noteq> None"
    and dur: "gs_durable_handles s' = gs_durable_handles s"
  shows "orphans_dead t' s'"
  unfolding orphans_dead_def
proof (intro allI impI)
  fix k g' assume g': "bt_get (gs_grants s') k = Some g'"
    and n: "bt_get (gs_durable_handles s') (g_durable_grant_id g') \<noteq> Some k"
  from keys [OF g'] obtain g where g: "bt_get (gs_grants s) k = Some g" by blast
  with ev g' have e: "evolves g g'" unfolding store_evolves_def by fastforce
  then have "g_durable_grant_id g' = g_durable_grant_id g" using frozen_sel by (auto simp: evolves_def)
  with n g od(1) have "\<not> grant_is_active g t" by (auto simp: orphans_dead_def dur)
  with e od(2) show "\<not> grant_is_active g' t'" using evolves_dead by blast
qed

lemma keys_update_grant:
  "bt_get (gs_grants (update_grant k f s)) k' = Some g \<Longrightarrow> bt_get (gs_grants s) k' \<noteq> None"
  by (auto simp: get_update_grant split: if_splits)

lemma orphans_dead_grant:
  assumes inv: "store_inv s" and od: "orphans_dead t s" "t \<le> now"
  shows "orphans_dead now (fst (grant sha canonical now token s r))"
proof -
  let ?d = "rq_durable_grant_id r" and ?k = "sha256_hex sha (handle_of_token token)"
  have dead: "\<not> grant_is_active g now"
    if "bt_get (gs_grants s) k = Some g" "bt_get (gs_durable_handles s) (g_durable_grant_id g) \<noteq> Some k" for k g
    using od that evolves_dead [of g g t now] by (auto simp: orphans_dead_def)
  have dead_d: "\<not> grant_is_active g now"
    if "bt_get (gs_grants s) k = Some g" "g_durable_grant_id g = ?d" "\<not> live_durable s now ?d" for k g
  proof (cases "bt_get (gs_durable_handles s) ?d = Some k")
    case True
    with that show ?thesis by (simp add: live_durable_def)
  next
    case False
    with dead [OF that(1)] that(2) show ?thesis by simp
  qed
  show ?thesis
    using dead dead_d
    by (auto simp: grant_def Let_def orphans_dead_def bt_contains_key_def new_grant_def
        split: sum.splits if_splits)
qed

lemma keys_map_values:
  "bt_get (bt_map_values f m) k = Some g \<Longrightarrow> bt_get m k \<noteq> None"
  by auto

lemma non_issue_frame:
  "\<forall>now token r. a \<noteq> OpGrant now token r \<Longrightarrow>
     gs_durable_handles (grant_step sha canonical s a) = gs_durable_handles s \<and>
     (bt_get (gs_grants (grant_step sha canonical s a)) k = Some g \<longrightarrow> bt_get (gs_grants s) k \<noteq> None)"
  by (cases a)
    (auto simp: revoke_def revoke_durable_grant_def invalidate_project_def invalidate_host_def
      invalidate_workspace_def invalidate_where_def revalidate_def complete_def Let_def
      get_update_grant split: option.splits if_splits)

lemma orphans_dead_step:
  assumes "store_inv s" "orphans_dead t s" "t \<le> op_time a"
  shows "orphans_dead (op_time a) (grant_step sha canonical s a)"
proof (cases "\<exists>now token r. a = OpGrant now token r")
  case True
  then show ?thesis using assms orphans_dead_grant by auto
next
  case False
  then show ?thesis
    using orphans_dead_evolves [OF assms(2,3), of "grant_step sha canonical s a"]
      grant_step_kept [OF assms(1), of sha canonical a] non_issue_frame [of a] by blast
qed

lemma orphans_dead_run:
  "store_inv s \<Longrightarrow> orphans_dead t s \<Longrightarrow> sorted (t # map op_time acts) \<Longrightarrow>
     orphans_dead (last (t # map op_time acts)) (run (grant_step sha canonical) s acts)"
proof (induction acts arbitrary: s t)
  case (Cons a acts)
  have "store_inv (grant_step sha canonical s a)"
    "orphans_dead (op_time a) (grant_step sha canonical s a)"
    using Cons.prems grant_step_kept orphans_dead_step by auto
  with Cons.IH [of "grant_step sha canonical s a" "op_time a"] Cons.prems(3) show ?case by simp
qed simp

end
