(* ===== verification/Grant_Properties.thy ===== *)
theory Grant_Properties
  imports Grant_Monitor
begin

text \<open>
  The properties of the grant store that the rest of the system relies on, with the concrete
  requests on which their hypotheses are exercised. \<open>'ver\<close> is \<open>unit\<close>, \<open>sha\<close> the identity and the
  canonical JSON a constant in the examples; the theorems hold for every choice.
\<close>

section \<open>Supporting lemmas\<close>

definition revoked_in :: "string \<Rightarrow> 'ver grant_store \<Rightarrow> bool" where
  "revoked_in k s \<longleftrightarrow> (\<exists>g. bt_get (gs_grants s) k = Some g \<and> g_revoked_at_millis g \<noteq> None)"

definition used_in :: "string \<Rightarrow> 'ver grant_store \<Rightarrow> bool" where
  "used_in k s \<longleftrightarrow> (\<exists>g. bt_get (gs_grants s) k = Some g \<and> g_used g)"

lemma revoked_in_evolves: "store_evolves s s' \<Longrightarrow> revoked_in k s \<Longrightarrow> revoked_in k s'"
  unfolding store_evolves_def evolves_def revoked_in_def by metis

lemma used_in_evolves: "store_evolves s s' \<Longrightarrow> used_in k s \<Longrightarrow> used_in k s'"
  unfolding store_evolves_def evolves_def used_in_def by metis

lemma revoked_in_denied:
  assumes "revoked_in (sha256_hex sha (rv_handle_id r)) s"
  shows "revalidate sha now s r = (s, Denied Revoked)"
proof -
  obtain g where "bt_get (gs_grants s) (sha256_hex sha (rv_handle_id r)) = Some g"
    "g_revoked_at_millis g \<noteq> None"
    using assms unfolding revoked_in_def by auto
  then show ?thesis by (simp add: revalidate_def revalidation_error_def)
qed

lemma used_in_retired: "used_in k s \<Longrightarrow> retired k s"
  by (auto simp: used_in_def retired_def)

lemma run_after_step:
  assumes "s = run (grant_step sha canonical) GrantStore_new past"
  shows "store_inv (grant_step sha canonical s a) \<and>
     store_evolves (grant_step sha canonical s a)
       (run (grant_step sha canonical) (grant_step sha canonical s a) future)"
  using assms monitor.inv_run grant_step_kept run_evolves by blast

text \<open>A reservation is only released by a completion of the same handle.\<close>

definition reserved_in :: "string \<Rightarrow> 'ver grant_store \<Rightarrow> bool" where
  "reserved_in k s \<longleftrightarrow> (\<exists>g. bt_get (gs_grants s) k = Some g \<and> g_in_flight g)"

fun completes :: "(string \<Rightarrow> string) \<Rightarrow> string \<Rightarrow> 'ver grant_op \<Rightarrow> bool" where
  "completes sha k (OpComplete _ h _) = (sha256_hex sha h = k)"
| "completes sha k _ = False"

lemma reserved_update:
  "reserved_in k s \<Longrightarrow> (\<And>g. g_in_flight g \<Longrightarrow> k' = k \<Longrightarrow> g_in_flight (f g)) \<Longrightarrow>
     reserved_in k (update_grant k' f s)"
  by (auto simp: reserved_in_def get_update_grant)

lemma reserved_where:
  "reserved_in k s \<Longrightarrow> reserved_in k (fst (invalidate_where p now s))"
proof -
  assume "reserved_in k s"
  then obtain g where g: "bt_get (gs_grants s) k = Some g" "g_in_flight g" by (auto simp: reserved_in_def)
  let ?g = "if p g \<and> g_revoked_at_millis g = None then g\<lparr>g_revoked_at_millis := Some now\<rparr> else g"
  have "bt_get (gs_grants (fst (invalidate_where p now s))) k = Some ?g"
    by (simp add: invalidate_where_def Let_def g(1))
  moreover have "g_in_flight ?g" using g(2) by simp
  ultimately show ?thesis unfolding reserved_in_def by blast
qed

lemma reserved_step:
  assumes "reserved_in k s" "\<not> completes sha k a" "store_inv s"
  shows "reserved_in k (grant_step sha canonical s a)"
proof (cases a)
  case (OpGrant now token r)
  then show ?thesis using assms(1)
    by (auto simp: grant_def Let_def reserved_in_def bt_contains_key_def split: sum.splits)
next
  case (OpComplete t h c)
  then show ?thesis using assms
    by (auto simp: complete_def Let_def intro: reserved_update split: option.splits)
next
  case (OpRevalidate t r)
  then show ?thesis using assms(1)
    by (auto simp: revalidate_def Let_def intro: reserved_update split: option.splits)
qed (use assms in \<open>auto simp: revoke_def revoke_durable_grant_def invalidate_project_def
      invalidate_host_def invalidate_workspace_def Let_def intro: reserved_where reserved_update
      split: option.splits\<close>)

lemma reserved_run:
  "reserved_in k s \<Longrightarrow> store_inv s \<Longrightarrow> \<forall>a\<in>set acts. \<not> completes sha k a \<Longrightarrow>
     reserved_in k (run (grant_step sha canonical) s acts)"
proof (induction acts arbitrary: s)
  case (Cons a acts)
  have "reserved_in k (grant_step sha canonical s a)" using Cons.prems by (intro reserved_step) auto
  moreover have "store_inv (grant_step sha canonical s a)" using Cons.prems(2) grant_step_kept by blast
  ultimately show ?case using Cons.IH Cons.prems(3) by simp
qed simp

lemma reserved_not_allowed:
  "reserved_in (sha256_hex sha (rv_handle_id r)) s \<Longrightarrow> snd (revalidate sha now s r) \<noteq> Allowed"
  by (auto simp: reserved_in_def revalidate_Allowed_iff)

lemma allowed_reserves:
  assumes "snd (revalidate sha now s r) = Allowed"
    and "bt_get (gs_grants s) (sha256_hex sha (rv_handle_id r)) = Some g" "g_grant_source g = AllowOnce"
  shows "reserved_in (sha256_hex sha (rv_handle_id r)) (fst (revalidate sha now s r))"
  using assms by (auto simp: revalidate_def Let_def reserved_in_def get_update_grant split: option.splits)

section \<open>Concrete requests\<close>

definition demo_constraints :: permission_constraints where
  "demo_constraints =
     \<lparr>pc_paths = [''data/*.csv''], pc_operations = [], pc_schemes = [], pc_hosts = [],
      pc_methods = [], pc_max_bytes = Some 1024, pc_max_response_bytes = None\<rparr>"

definition demo_request :: "unit grant_request" where
  "demo_request =
     \<lparr>rq_durable_grant_id = ''grant.once'', rq_normalized_project_root = ''/p'',
      rq_plugin_id = ''org.a'', rq_plugin_version = (), rq_runtime_kind = Wasm,
      rq_host_instance_id = ''instance.1'', rq_package_digest = ''d'', rq_project_id = ''s'',
      rq_scope_id = ''s'', rq_activation_generation = 1, rq_permission = ProjectFsRead,
      rq_constraints = demo_constraints, rq_constraints_digest = ''7b7d'',
      rq_grant_source = AllowOnce, rq_policy_revision = 1, rq_workspace = None,
      rq_expires_at_millis = 2000\<rparr>"

abbreviation demo_canonical :: canonical_json where
  "demo_canonical \<equiv> (\<lambda>_. Ok ''{}'')"

definition demo_call :: revalidation_request where
  "demo_call =
     \<lparr>rv_handle_id = ''handle.41'', rv_plugin_id = ''org.a'', rv_host_instance_id = ''instance.1'',
      rv_package_digest = ''d'', rv_project_id = ''s'', rv_scope_id = ''s'', rv_generation = 1,
      rv_permission = ProjectFsRead, rv_permission_use = UseProjectFsRead ''data/a.csv'' 100,
      rv_workspace = None\<rparr>"

abbreviation demo_past :: "unit grant_op list" where
  "demo_past \<equiv> [OpGrant 1000 ''A'' demo_request]"

definition demo_store :: "unit grant_store" where
  "demo_store = run (grant_step id demo_canonical) GrantStore_new demo_past"


abbreviation demo_key :: string where
  "demo_key \<equiv> sha256_hex id ''handle.41''"

abbreviation demo_grant :: "unit plugin_grant" where
  "demo_grant \<equiv> new_grant 1000 demo_key demo_request"

lemma demo_precheck: "grant_precheck id demo_canonical 1000 demo_request = Ok ()"
proof -
  have "constraints_valid ProjectFsRead demo_constraints" by code_simp
  moreover have "valid_opaque_id ''grant.once''" by code_simp
  moreover have "trim ''/p'' = ''/p''" by (rule trim_graphic) (simp_all add: graphic_def)
  moreover have "sha256_hex id ''{}'' = ''7b7d''" by code_simp
  moreover have "saturating_sub 2000 1000 = 1000" by (simp add: saturating_sub_def)
  ultimately show ?thesis
    by (simp add: grant_precheck_def validate_constraints_def validate_grant_request_def demo_request_def constraints_digest_def
        workspace_shape_valid_def MAX_ALLOW_ONCE_TTL_MILLIS_def)
qed

lemma demo_store_eq:
  "demo_store = \<lparr>gs_grants = [(demo_key, demo_grant)],
                gs_durable_handles = [(''grant.once'', demo_key)]\<rparr>"
proof -
  have "handle_of_token ''A'' = ''handle.41''" by code_simp
  moreover have "rq_durable_grant_id demo_request = ''grant.once''" by (simp add: demo_request_def)
  ultimately show ?thesis
    by (simp add: demo_store_def grant_def demo_precheck GrantStore_new_def live_durable_def Let_def bt_contains_key_def
        bt_empty_def bt_remove_def bt_retain_def)
qed

lemma demo_matches: "matches_call demo_grant demo_call"
proof -
  have "permission_use_allowed ProjectFsRead demo_constraints (UseProjectFsRead ''data/a.csv'' 100)"
    by code_simp
  then show ?thesis by (simp add: matches_call_def new_grant_def demo_request_def demo_call_def)
qed

lemma demo_live: "grant_is_active demo_grant 1500" "\<not> g_in_flight demo_grant"
  "g_grant_source demo_grant = AllowOnce"
  by (simp_all add: grant_is_active_def grant_consumed_def new_grant_def demo_request_def)

lemma demo_allowed: "snd (revalidate id 1500 demo_store demo_call) = Allowed"
proof -
  have "rv_handle_id demo_call = ''handle.41''" by (simp add: demo_call_def)
  then show ?thesis using demo_live demo_matches by (simp add: revalidate_Allowed_iff demo_store_eq)
qed

section \<open>Properties\<close>

text \<open>C1. Complete mediation: a privileged call passes exactly when the store holds a grant under the
  digest of its handle that is neither revoked, used, reserved nor expired, that was issued for the
  same plugin, host session, project, scope, activation generation, package and Workspace, for the
  same permission, and whose constraints cover the resource the call asks for.\<close>

theorem revalidate_complete_mediation:
  "snd (revalidate sha now s r) = Allowed \<longleftrightarrow>
     (\<exists>g. bt_get (gs_grants s) (sha256_hex sha (rv_handle_id r)) = Some g \<and>
        grant_is_active g now \<and> \<not> g_in_flight g \<and> matches_call g r)"
  by (rule revalidate_Allowed_iff)

text \<open>C2. Every store the operations can produce is well formed: both maps are sorted, each grant is
  stored under its own handle digest with validated constraints, a Wasm runtime, the project as its
  scope, a positive policy revision, a lifetime within the limit of its source and consistent
  allow-once flags, and the durable index points only to grants of that durable id.\<close>

theorem grant_store_invariant:
  "store_inv (run (grant_step sha canonical) GrantStore_new acts)"
  by (rule monitor.inv_run)

text \<open>C3. Revocation is permanent: once \<open>revoke\<close> has reported success for a handle, every later
  revalidation of it is denied as revoked, whatever operations ran in between, reissues of the
  same durable grant and clock changes included.\<close>

theorem revocation_permanent:
  assumes "s = run (grant_step sha canonical) GrantStore_new past"
    and "snd (revoke sha now s (rv_handle_id r))"
    and "s' = run (grant_step sha canonical) (fst (revoke sha now s (rv_handle_id r))) future"
  shows "revalidate sha later s' r = (s', Denied Revoked)"
proof -
  have "revoked_in (sha256_hex sha (rv_handle_id r)) (fst (revoke sha now s (rv_handle_id r)))"
    using assms(2) by (auto simp: revoke_def Let_def revoked_in_def get_update_grant split: option.splits)
  moreover have "store_evolves (fst (revoke sha now s (rv_handle_id r))) s'"
    using run_after_step [OF assms(1), of "OpRevoke now (rv_handle_id r)" future] assms(3) by simp
  ultimately show ?thesis using revoked_in_evolves revoked_in_denied by blast
qed

theorem revocation_permanent_witness:
  "snd (revoke id 1200 demo_store (rv_handle_id demo_call)) \<and>
   revalidate id 1500
     (run (grant_step id demo_canonical) (fst (revoke id 1200 demo_store (rv_handle_id demo_call)))
        [OpGrant 1300 ''B'' demo_request]) demo_call =
   (run (grant_step id demo_canonical) (fst (revoke id 1200 demo_store (rv_handle_id demo_call)))
        [OpGrant 1300 ''B'' demo_request], Denied Revoked)"
proof -
  have "snd (revoke id 1200 demo_store (rv_handle_id demo_call))"
    by (simp add: revoke_def demo_store_eq demo_call_def Let_def)
  then show ?thesis using revocation_permanent [OF demo_store_def _ refl] by blast
qed

text \<open>C4. Allow-once means once: when a reserved call completes with success or with an uncertain
  outcome, no later revalidation of its handle is allowed and no later completion of it succeeds,
  after any further operations.\<close>

theorem allow_once_consumed_forever:
  assumes "s = run (grant_step sha canonical) GrantStore_new past"
    and "snd (complete sha s h c)" "c \<noteq> CompleteFailureBeforeDispatch"
    and "s' = run (grant_step sha canonical) (fst (complete sha s h c)) future"
  shows "(\<forall>now r. rv_handle_id r = h \<longrightarrow> snd (revalidate sha now s' r) \<noteq> Allowed) \<and>
     (\<forall>c'. complete sha s' h c' = (s', False))"
proof -
  have "used_in (sha256_hex sha h) (fst (complete sha s h c))"
    using complete_retires [OF assms(2,3)] by (simp add: used_in_def)
  moreover have e: "store_inv (fst (complete sha s h c))" "store_evolves (fst (complete sha s h c)) s'"
    using run_after_step [OF assms(1), of "OpComplete 0 h c" future] assms(4) by simp_all
  ultimately have u: "used_in (sha256_hex sha h) s'" using used_in_evolves by blast
  have i: "store_inv s'" using monitor.inv_run_from [OF e(1)] assms(4) by simp
  obtain g where "bt_get (gs_grants s') (sha256_hex sha h) = Some g" "g_used g"
    using u by (auto simp: used_in_def)
  then show ?thesis
    using retired_not_completable [OF i] by (auto simp: revalidate_Allowed_iff grant_is_active_def grant_consumed_def)
qed

abbreviation demo_reserved :: "unit grant_store" where
  "demo_reserved \<equiv> run (grant_step id demo_canonical) GrantStore_new (demo_past @ [OpRevalidate 1500 demo_call])"

lemma demo_reserved_eq:
  "demo_reserved = demo_store\<lparr>gs_grants := [(demo_key, demo_grant\<lparr>g_in_flight := True\<rparr>)]\<rparr>"
proof -
  have "demo_reserved = fst (revalidate id 1500 demo_store demo_call)" by (simp add: demo_store_def)
  moreover have "rv_handle_id demo_call = ''handle.41''" by (simp add: demo_call_def)
  moreover have "revalidation_error demo_grant demo_call 1500 False = None"
    using demo_live demo_matches by (simp add: revalidation_error_None_iff)
  ultimately show ?thesis
    using demo_live by (simp add: revalidate_def Let_def update_grant_def demo_store_eq)
qed

lemma demo_completes: "snd (complete id demo_reserved ''handle.41'' c)"
proof -
  have "g_grant_source demo_grant = AllowOnce" by (rule demo_live)
  then show ?thesis unfolding demo_reserved_eq by (simp add: complete_def Let_def)
qed

theorem allow_once_consumed_forever_witness:
  "snd (complete id demo_reserved ''handle.41'' CompleteUncertain) \<and>
   snd (revalidate id 1600 (run (grant_step id demo_canonical)
       (fst (complete id demo_reserved ''handle.41'' CompleteUncertain)) [OpRevalidate 1550 demo_call])
     demo_call) \<noteq> Allowed"
proof -
  have "rv_handle_id demo_call = ''handle.41''" by (simp add: demo_call_def)
  then show ?thesis
    using demo_completes allow_once_consumed_forever [OF refl demo_completes _ refl, of CompleteUncertain]
    by blast
qed

text \<open>A reservation is exclusive: after an allow-once call has been admitted, no further call on the
  same handle is admitted until the reservation is completed, whatever else the store does.\<close>

theorem reservation_exclusive:
  assumes "s = run (grant_step sha canonical) GrantStore_new past"
    and "snd (revalidate sha now s r) = Allowed"
    and "bt_get (gs_grants s) (sha256_hex sha (rv_handle_id r)) = Some g" "g_grant_source g = AllowOnce"
    and "\<forall>a\<in>set others. \<not> completes sha (sha256_hex sha (rv_handle_id r)) a"
    and "s' = run (grant_step sha canonical) (fst (revalidate sha now s r)) others"
    and "rv_handle_id r' = rv_handle_id r"
  shows "snd (revalidate sha later s' r') \<noteq> Allowed"
proof -
  have "store_inv (fst (revalidate sha now s r))"
    using monitor.inv_run revalidate_inv assms(1) by blast
  then have "reserved_in (sha256_hex sha (rv_handle_id r)) s'"
    using reserved_run allowed_reserves [OF assms(2-4)] assms(5,6) by blast
  then show ?thesis using reserved_not_allowed assms(7) by metis
qed

theorem reservation_exclusive_witness:
  "snd (revalidate id 1700 (run (grant_step id demo_canonical) (fst (revalidate id 1500 demo_store demo_call))
      [OpRevalidate 1550 demo_call, OpGrant 1600 ''B'' demo_request, OpComplete 1650 ''handle.9'' CompleteSuccess])
    demo_call) \<noteq> Allowed"
proof -
  have "rv_handle_id demo_call = ''handle.41''" by (simp add: demo_call_def)
  moreover have "sha256_hex id ''handle.9'' \<noteq> demo_key" by (simp add: sha256_hex_def hex_encode_inj)
  moreover have "bt_get (gs_grants demo_store) demo_key = Some demo_grant" by (simp add: demo_store_eq)
  ultimately show ?thesis
    by (intro reservation_exclusive [OF demo_store_def demo_allowed _ demo_live(3) _ refl refl]) simp_all
qed

text \<open>Invalidating a project revokes exactly the grants of that project root that were not revoked yet,
  reports their number, leaves every other grant untouched, and every call on a grant of that project
  is denied as revoked ever after.\<close>

lemma get_invalidate_where:
  "bt_get (gs_grants (fst (invalidate_where p now s))) k =
     map_option (\<lambda>g. if p g \<and> g_revoked_at_millis g = None then g\<lparr>g_revoked_at_millis := Some now\<rparr> else g)
       (bt_get (gs_grants s) k)"
  by (simp add: invalidate_where_def Let_def)

theorem invalidate_project_exact:
  assumes "s = run (grant_step sha canonical) GrantStore_new past"
    and "s' = fst (invalidate_project now s root)"
    and "s'' = run (grant_step sha canonical) s' future"
  shows "snd (invalidate_project now s root) =
       card {k. \<exists>g. bt_get (gs_grants s) k = Some g \<and>
         g_normalized_project_root g = root \<and> g_revoked_at_millis g = None} \<and>
     (\<forall>k g. bt_get (gs_grants s) k = Some g \<and> g_normalized_project_root g \<noteq> root \<longrightarrow>
        bt_get (gs_grants s') k = Some g) \<and>
     (\<forall>later r g. bt_get (gs_grants s) (sha256_hex sha (rv_handle_id r)) = Some g \<and>
        g_normalized_project_root g = root \<longrightarrow> revalidate sha later s'' r = (s'', Denied Revoked))"
proof (intro conjI allI impI)
  have "store_inv s" using monitor.inv_run assms(1) by blast
  then have ok: "bt_ok (gs_grants s)" by (simp add: store_inv_def)
  show "snd (invalidate_project now s root) =
       card {k. \<exists>g. bt_get (gs_grants s) k = Some g \<and>
         g_normalized_project_root g = root \<and> g_revoked_at_millis g = None}"
    by (simp add: invalidate_project_def invalidate_where_def Let_def length_filter_values [OF ok])
  fix k g assume "bt_get (gs_grants s) k = Some g \<and> g_normalized_project_root g \<noteq> root"
  then show "bt_get (gs_grants s') k = Some g"
    using assms(2) by (simp add: invalidate_project_def get_invalidate_where)
next
  fix later and r :: revalidation_request and g
  assume "bt_get (gs_grants s) (sha256_hex sha (rv_handle_id r)) = Some g \<and> g_normalized_project_root g = root"
  then have "revoked_in (sha256_hex sha (rv_handle_id r)) s'"
    using assms(2) by (cases "g_revoked_at_millis g")
      (simp_all add: revoked_in_def invalidate_project_def get_invalidate_where)
  moreover have "store_evolves s' s''"
    using run_after_step [OF assms(1), of "OpInvalidateProject now root" future] assms(2,3) by simp
  ultimately show "revalidate sha later s'' r = (s'', Denied Revoked)"
    using revoked_in_evolves revoked_in_denied by blast
qed

theorem invalidate_project_exact_witness:
  "revalidate id 1500 (run (grant_step id demo_canonical) (fst (invalidate_project 1200 demo_store ''/p''))
      [OpGrant 1300 ''B'' demo_request]) demo_call =
   (run (grant_step id demo_canonical) (fst (invalidate_project 1200 demo_store ''/p''))
      [OpGrant 1300 ''B'' demo_request], Denied Revoked)"
proof -
  have "bt_get (gs_grants demo_store) (sha256_hex id (rv_handle_id demo_call)) = Some demo_grant"
    by (simp add: demo_store_eq demo_call_def)
  moreover have "g_normalized_project_root demo_grant = ''/p''"
    by (simp add: new_grant_def demo_request_def)
  ultimately show ?thesis using invalidate_project_exact [OF demo_store_def refl refl] by blast
qed

text \<open>C5. While the clock does not run backwards, a durable grant has at most one live handle: two
  grants with the same durable id that are both active at the time of the last operation are the same.\<close>

theorem one_live_handle_per_durable_grant:
  assumes "sorted (map op_time acts)" and "s = run (grant_step sha canonical) GrantStore_new acts"
    and "bt_get (gs_grants s) k = Some g" "bt_get (gs_grants s) k' = Some g'"
    and "g_durable_grant_id g = g_durable_grant_id g'"
    and "grant_is_active g (last (0 # map op_time acts))" "grant_is_active g' (last (0 # map op_time acts))"
  shows "k = k'"
proof -
  have "sorted (0 # map op_time acts)" using assms(1) by simp
  moreover have "orphans_dead 0 GrantStore_new" by (simp add: orphans_dead_def GrantStore_new_def)
  ultimately have "orphans_dead (last (0 # map op_time acts)) s"
    using orphans_dead_run [OF GrantStore_new_inv] assms(2) by blast
  then show ?thesis using assms(3-7) unfolding orphans_dead_def by (metis option.inject)
qed

theorem one_live_handle_per_durable_grant_witness:
  "bt_get (gs_grants demo_store) demo_key = Some demo_grant \<and> grant_is_active demo_grant 1000 \<and> demo_key = demo_key"
proof -
  have g: "bt_get (gs_grants demo_store) demo_key = Some demo_grant" by (simp add: demo_store_eq)
  have a: "grant_is_active demo_grant 1000"
    by (simp add: grant_is_active_def grant_consumed_def new_grant_def demo_request_def)
  have "demo_key = demo_key"
    using one_live_handle_per_durable_grant [OF _ demo_store_def g g refl] a by simp
  with g a show ?thesis by simp
qed

text \<open>C6. A grant that is issued works: the handle returned by \<open>grant\<close> admits every call that matches
  the request it was issued for, at every time before its expiry, in the store \<open>grant\<close> leaves behind.\<close>

theorem issued_grant_admits:
  assumes "grant sha canonical now token s q = (s', Ok h)" and "rv_handle_id r = h_id h"
    and "matches_call (new_grant now (sha256_hex sha (h_id h)) q) r" and "t < rq_expires_at_millis q"
  shows "snd (revalidate sha t s' r) = Allowed"
proof -
  have "bt_get (gs_grants s') (sha256_hex sha (h_id h)) = Some (new_grant now (sha256_hex sha (h_id h)) q)"
    using assms(1) by (auto simp: grant_def Let_def split: sum.splits if_splits)
  then show ?thesis
    using assms(2-4)
    by (simp add: revalidate_Allowed_iff grant_is_active_def grant_consumed_def new_grant_def)
qed

lemma demo_issue:
  "grant id demo_canonical 1000 ''A'' GrantStore_new demo_request =
     (demo_store, Ok \<lparr>h_id = ''handle.41'', h_permission = ProjectFsRead, h_scope_id = ''s'',
        h_expires_at_millis = Some 2000\<rparr>)"
proof -
  have "fst (grant id demo_canonical 1000 ''A'' GrantStore_new demo_request) = demo_store"
    by (simp add: demo_store_def)
  moreover have "handle_of_token ''A'' = ''handle.41''" by code_simp
  ultimately show ?thesis
    by (simp add: prod_eq_iff, simp add: grant_def demo_precheck live_durable_def GrantStore_new_def
        Let_def bt_contains_key_def) (simp add: demo_request_def)
qed

theorem issued_grant_admits_witness:
  "snd (revalidate id 1999 demo_store demo_call) = Allowed"
proof (rule issued_grant_admits [OF demo_issue])
  show "rv_handle_id demo_call = h_id \<lparr>h_id = ''handle.41'', h_permission = ProjectFsRead,
      h_scope_id = ''s'', h_expires_at_millis = Some 2000\<rparr>"
    by (simp add: demo_call_def)
qed (use demo_matches in \<open>simp_all add: demo_request_def\<close>)

text \<open>C7. File containment: in every reachable store, a read that is admitted names a path that resolves
  below the project root without climbing, that a granted pattern matches, and asks for no more bytes
  than the positive bound of the grant.\<close>

theorem admitted_read_contained:
  assumes "s = run (grant_step sha canonical) GrantStore_new past"
    and "snd (revalidate sha now s r) = Allowed" and "rv_permission_use r = UseProjectFsRead path n"
  shows "\<exists>g maximum. bt_get (gs_grants s) (sha256_hex sha (rv_handle_id r)) = Some g \<and>
     g_permission g = ProjectFsRead \<and>
     resolve_path root path = root @ split_on is_slash path \<and>
     (\<exists>pattern\<in>set (pc_paths (g_constraints g)). glob_spec pattern path) \<and>
     pc_max_bytes (g_constraints g) = Some maximum \<and> 0 < maximum \<and> n \<le> maximum"
proof -
  obtain g where g: "bt_get (gs_grants s) (sha256_hex sha (rv_handle_id r)) = Some g" "matches_call g r"
    using assms(2) by (auto simp: revalidate_Allowed_iff)
  have "grant_wf (sha256_hex sha (rv_handle_id r)) g"
    using store_inv_wf [OF monitor.inv_run] g(1) assms(1) by blast
  then have "constraints_valid (g_permission g) (g_constraints g)" by (simp add: grant_wf_def)
  moreover have "permission_use_allowed (g_permission g) (g_constraints g) (UseProjectFsRead path n)"
    using g(2) assms(3) unfolding matches_call_def by metis
  note use = this allowed_fs_read [OF this, of root]
  ultimately show ?thesis
    using g(1) by (auto simp: positive_bound_def)
qed

theorem admitted_read_contained_witness:
  "snd (revalidate id 1500 demo_store demo_call) = Allowed \<and>
   resolve_path [''home'', ''p''] ''data/a.csv'' = [''home'', ''p'', ''data'', ''a.csv'']"
proof -
  have "resolve_path [''home'', ''p''] ''data/a.csv'' = [''home'', ''p''] @ split_on is_slash ''data/a.csv''"
    using admitted_read_contained [OF demo_store_def demo_allowed, of "''data/a.csv''" 100 "[''home'', ''p'']"]
    unfolding demo_call_def revalidation_request.simps by blast
  moreover have "split_on is_slash ''data/a.csv'' = [''data'', ''a.csv'']" by code_simp
  ultimately show ?thesis using demo_allowed by simp
qed

text \<open>C8. Network containment: an admitted fetch uses \<open>https\<close>, \<open>GET\<close> or \<open>HEAD\<close>, a host that is a granted
  host or a proper subdomain of a granted \<open>*.\<close> pattern, and a response bound within the grant.\<close>

theorem admitted_fetch_contained:
  assumes "s = run (grant_step sha canonical) GrantStore_new past"
    and "snd (revalidate sha now s r) = Allowed" and "rv_permission_use r = UseNetworkFetch sch h m n"
  shows "\<exists>g maximum. bt_get (gs_grants s) (sha256_hex sha (rv_handle_id r)) = Some g \<and>
     g_permission g = NetworkFetch \<and> sch = ''https'' \<and> m \<in> {''GET'', ''HEAD''} \<and>
     (\<exists>pattern\<in>set (pc_hosts (g_constraints g)). h = pattern \<or>
        (\<exists>d l. pattern = ''*.'' @ d \<and> l \<noteq> [] \<and> h = l @ ''.'' @ d)) \<and>
     pc_max_response_bytes (g_constraints g) = Some maximum \<and> n \<le> maximum"
proof -
  obtain g where g: "bt_get (gs_grants s) (sha256_hex sha (rv_handle_id r)) = Some g" "matches_call g r"
    using assms(2) by (auto simp: revalidate_Allowed_iff)
  have "grant_wf (sha256_hex sha (rv_handle_id r)) g"
    using store_inv_wf [OF monitor.inv_run] g(1) assms(1) by blast
  then have v: "constraints_valid (g_permission g) (g_constraints g)" by (simp add: grant_wf_def)
  have "permission_use_allowed (g_permission g) (g_constraints g) (UseNetworkFetch sch h m n)"
    using g(2) assms(3) unfolding matches_call_def by metis
  note a = allowed_network_fetch [OF this v]
  then obtain pattern where p: "pattern \<in> set (pc_hosts (g_constraints g))" "host_matches pattern h" by blast
  have "h = pattern \<or> (\<exists>d l. pattern = ''*.'' @ d \<and> l \<noteq> [] \<and> h = l @ ''.'' @ d)"
  proof (cases "starts_with ''*.'' pattern")
    case True
    then obtain d where d: "pattern = ''*.'' @ d" by (auto simp: starts_with_iff)
    with p(2) host_matches_wildcard [of d h] obtain l where "l \<noteq> []" "h = l @ CHR ''.'' # d" by auto
    with d show ?thesis by simp
  next
    case False
    then show ?thesis using host_matches_exact p(2) by blast
  qed
  with a p(1) g(1) show ?thesis by blast
qed

definition demo_fetch_constraints :: permission_constraints where
  "demo_fetch_constraints =
     \<lparr>pc_paths = [], pc_operations = [], pc_schemes = [''https''], pc_hosts = [''*.a.org''],
      pc_methods = [''GET''], pc_max_bytes = None, pc_max_response_bytes = Some 4096\<rparr>"

definition demo_fetch_request :: "unit grant_request" where
  "demo_fetch_request =
     demo_request\<lparr>rq_permission := NetworkFetch, rq_constraints := demo_fetch_constraints,
       rq_grant_source := ProjectGrant\<rparr>"

definition demo_fetch_call :: revalidation_request where
  "demo_fetch_call =
     demo_call\<lparr>rv_permission := NetworkFetch,
       rv_permission_use := UseNetworkFetch ''https'' ''x.a.org'' ''GET'' 100\<rparr>"

lemma demo_fetch_allowed:
  "snd (revalidate id 1500
     (run (grant_step id demo_canonical) GrantStore_new [OpGrant 1000 ''A'' demo_fetch_request])
     demo_fetch_call) = Allowed"
proof -
  have "constraints_valid NetworkFetch demo_fetch_constraints" by code_simp
  moreover have "valid_opaque_id ''grant.once''" by code_simp
  moreover have "trim ''/p'' = ''/p''" by (rule trim_graphic) (simp_all add: graphic_def)
  moreover have "sha256_hex id ''{}'' = ''7b7d''" by code_simp
  moreover have "saturating_sub 2000 1000 = 1000" by (simp add: saturating_sub_def)
  ultimately have p: "grant_precheck id demo_canonical 1000 demo_fetch_request = Ok ()"
    by (simp add: grant_precheck_def validate_constraints_def validate_grant_request_def
        demo_request_def demo_fetch_request_def constraints_digest_def
        workspace_shape_valid_def MAX_PROJECT_GRANT_TTL_MILLIS_def)
  have "handle_of_token ''A'' = ''handle.41''" by code_simp
  then have s: "bt_get (gs_grants (fst (grant id demo_canonical 1000 ''A'' GrantStore_new demo_fetch_request)))
      demo_key = Some (new_grant 1000 demo_key demo_fetch_request)"
    by (simp add: grant_def p GrantStore_new_def live_durable_def Let_def bt_contains_key_def)
  have "permission_use_allowed NetworkFetch demo_fetch_constraints
      (UseNetworkFetch ''https'' ''x.a.org'' ''GET'' 100)" by code_simp
  then have "matches_call (new_grant 1000 demo_key demo_fetch_request) demo_fetch_call"
    by (simp add: matches_call_def new_grant_def demo_fetch_request_def demo_request_def
        demo_fetch_call_def demo_call_def)
  moreover have "rv_handle_id demo_fetch_call = ''handle.41''"
    by (simp add: demo_fetch_call_def demo_call_def)
  ultimately show ?thesis
    using s by (simp add: revalidate_Allowed_iff grant_is_active_def grant_consumed_def new_grant_def
        demo_fetch_request_def demo_request_def)
qed

theorem admitted_fetch_contained_witness:
  "\<exists>g. bt_get (gs_grants
       (run (grant_step id demo_canonical) GrantStore_new [OpGrant 1000 ''A'' demo_fetch_request]))
       (sha256_hex id (rv_handle_id demo_fetch_call)) = Some g \<and> g_permission g = NetworkFetch"
  using admitted_fetch_contained [OF refl demo_fetch_allowed, of "''https''" "''x.a.org''" "''GET''" 100]
  by (auto simp: demo_fetch_call_def)

text \<open>C9. The memoised glob matcher computes the declarative semantics of the pattern language, for every
  pattern and value: its table of visited positions never hides a match.\<close>

theorem glob_matcher_correct: "glob_matches pattern value \<longleftrightarrow> glob_spec pattern value"
  by (rule glob_matches_eq)

text \<open>A granted pattern without \<open>**\<close> never reaches into more or fewer directories than it writes out,
  and a pattern without wildcards reaches one path.\<close>

theorem glob_reach:
  assumes "glob_matches pattern value" and "no_double pattern"
  shows "count_list value (CHR ''/'') = count_list pattern (CHR ''/'') \<and>
     (no_wildcard pattern \<longrightarrow> value = pattern)"
  using assms glob_spec_depth glob_spec_literal unfolding glob_matches_eq by blast

theorem glob_reach_witness:
  "glob_matches ''data/*.csv'' ''data/a.csv'' \<and> count_list ''data/a.csv'' (CHR ''/'') = 1"
proof -
  have m: "glob_matches ''data/*.csv'' ''data/a.csv''" "no_double ''data/*.csv''" by code_simp+
  from glob_reach [OF m] have "count_list ''data/a.csv'' (CHR ''/'') = 1" by simp
  with m show ?thesis by simp
qed

text \<open>A wildcard host pattern admits exactly the proper subdomains of its domain: not the domain
  itself, not a sibling that merely ends with the same letters, and no pattern as a host.\<close>

theorem host_wildcard_subdomains:
  "host_matches (''*.'' @ d) h \<longleftrightarrow>
     valid_host_pattern (''*.'' @ d) \<and> valid_host_pattern h \<and> \<not> starts_with ''*.'' h \<and>
     (\<exists>l. l \<noteq> [] \<and> h = l @ ''.'' @ d)"
  using host_matches_wildcard by simp

end
