(* ===== verification/Scope_Model.thy ===== *)
theory Scope_Model
  imports Identifiers
begin

text \<open>
  The data model of activation, \<^verbatim>\<open>crates/rho-extension-runtime/src/model.rs\<close>: plugin descriptors with
  their normalisation and validation, the scope policy with its three checks, and the validation of
  a scope identity against its parent. Versions (\<open>semver::Version\<close>) are an ordered type \<open>'ver\<close>.
  The derived \<open>Ord\<close> of a struct is the lexicographic order of its fields, written here as a key.
\<close>

section \<open>Descriptors\<close>

record capability_declaration =
  cd_capability_id :: capability_id
  cd_contract_major :: u64

record capability_requirement =
  cr_capability_id :: capability_id
  cr_contract_major :: u64

datatype activation_policy = Eager

record 'ver plugin_descriptor =
  pd_id :: plugin_id
  pd_version :: 'ver
  pd_allowed_scopes :: "scope_kind_id list"
  pd_provides :: "capability_declaration list"
  pd_requires :: "capability_requirement list"
  pd_optional :: "capability_requirement list"
  pd_activation_policy :: activation_policy

definition PluginDescriptor_new :: "plugin_id \<Rightarrow> 'ver \<Rightarrow> scope_kind_id list \<Rightarrow> 'ver plugin_descriptor" where
  "PluginDescriptor_new i v scopes =
     \<lparr>pd_id = i, pd_version = v, pd_allowed_scopes = scopes, pd_provides = [], pd_requires = [],
      pd_optional = [], pd_activation_policy = Eager\<rparr>"

definition decl_key :: "capability_declaration \<Rightarrow> capability_id \<times> u64" where
  "decl_key d = (cd_capability_id d, cd_contract_major d)"

definition req_key :: "capability_requirement \<Rightarrow> capability_id \<times> u64" where
  "req_key r = (cr_capability_id r, cr_contract_major r)"

definition descriptor_key ::
  "'ver plugin_descriptor \<Rightarrow> plugin_id \<times> 'ver \<times> scope_kind_id list \<times> (capability_id \<times> u64) list \<times>
     (capability_id \<times> u64) list \<times> (capability_id \<times> u64) list" where
  "descriptor_key d =
     (pd_id d, pd_version d, pd_allowed_scopes d, map decl_key (pd_provides d),
      map req_key (pd_requires d), map req_key (pd_optional d))"

definition normalize_descriptor :: "'ver plugin_descriptor \<Rightarrow> 'ver plugin_descriptor" where
  "normalize_descriptor d =
     d\<lparr>pd_allowed_scopes := sort (pd_allowed_scopes d),
       pd_provides := sort_key decl_key (pd_provides d),
       pd_requires := sort_key req_key (pd_requires d),
       pd_optional := sort_key req_key (pd_optional d)\<rparr>"

text \<open>\<open>windows(2).find(..)\<close>: the first adjacent pair that satisfies the test.\<close>

fun find_window :: "('a \<Rightarrow> 'a \<Rightarrow> bool) \<Rightarrow> 'a list \<Rightarrow> ('a \<times> 'a) option" where
  "find_window p (x # y # xs) = (if p x y then Some (x, y) else find_window p (y # xs))"
| "find_window p _ = None"

definition duplicate_by_key :: "'a list \<Rightarrow> ('a \<Rightarrow> 'k) \<Rightarrow> 'a option" where
  "duplicate_by_key xs key = map_option snd (find_window (\<lambda>x y. key x = key y) xs)"

definition MAX_PLUGINS_PER_SCOPE :: nat where "MAX_PLUGINS_PER_SCOPE = 256"
definition MAX_PROVIDES_PER_PLUGIN :: nat where "MAX_PROVIDES_PER_PLUGIN = 64"
definition MAX_REQUIRED_PER_PLUGIN :: nat where "MAX_REQUIRED_PER_PLUGIN = 64"
definition MAX_OPTIONAL_PER_PLUGIN :: nat where "MAX_OPTIONAL_PER_PLUGIN = 64"
definition MAX_RESOLVED_EDGES :: nat where "MAX_RESOLVED_EDGES = 8192"

definition err_when :: "'a option \<Rightarrow> ('a \<Rightarrow> 'e) \<Rightarrow> ('e, unit) result \<Rightarrow> ('e, unit) result" where
  "err_when x f k = (case x of Some a \<Rightarrow> Err (f a) | None \<Rightarrow> k)"

text \<open>
  \<open>validate_for_scope\<close>. \<open>binary_search\<close> on the normalised, hence sorted, scope list decides
  membership.
\<close>

definition validate_for_scope :: "'ver plugin_descriptor \<Rightarrow> scope_kind_id \<Rightarrow> (extension_error, unit) result" where
  "validate_for_scope d scope_kind =
     (if length (pd_provides d) > MAX_PROVIDES_PER_PLUGIN
      then Err (LimitExceeded ProvidesPerPlugin (Some (pd_id d)) (length (pd_provides d)) MAX_PROVIDES_PER_PLUGIN)
      else if length (pd_requires d) > MAX_REQUIRED_PER_PLUGIN
      then Err (LimitExceeded RequiredPerPlugin (Some (pd_id d)) (length (pd_requires d)) MAX_REQUIRED_PER_PLUGIN)
      else if length (pd_optional d) > MAX_OPTIONAL_PER_PLUGIN
      then Err (LimitExceeded OptionalPerPlugin (Some (pd_id d)) (length (pd_optional d)) MAX_OPTIONAL_PER_PLUGIN)
      else if pd_allowed_scopes d = [] then Err (InvalidDescriptor (pd_id d) NoAllowedScopes)
      else
        err_when (duplicate_by_key (pd_allowed_scopes d) id)
          (\<lambda>k. InvalidDescriptor (pd_id d) (DuplicateAllowedScope k)) (
        err_when (duplicate_by_key (pd_provides d) cd_capability_id)
          (\<lambda>c. InvalidDescriptor (pd_id d) (DuplicateProvidedCapability (cd_capability_id c))) (
        err_when (duplicate_by_key (pd_requires d) cr_capability_id)
          (\<lambda>r. InvalidDescriptor (pd_id d) (DuplicateRequiredCapability (cr_capability_id r))) (
        err_when (duplicate_by_key (pd_optional d) cr_capability_id)
          (\<lambda>r. InvalidDescriptor (pd_id d) (DuplicateOptionalCapability (cr_capability_id r))) (
        err_when (find (\<lambda>r. cr_capability_id r \<in> set (map cr_capability_id (pd_requires d))) (pd_optional d))
          (\<lambda>r. InvalidDescriptor (pd_id d) (RequiredAndOptionalCapability (cr_capability_id r))) (
        if scope_kind \<notin> set (pd_allowed_scopes d)
        then Err (InvalidDescriptor (pd_id d) (ScopeNotAllowed scope_kind))
        else Ok ()))))))"

section \<open>The scope policy\<close>

record scope_kind_rule =
  kr_kind :: scope_kind_id
  kr_parent_kind :: "scope_kind_id option"

definition ScopeKindRule_root :: "scope_kind_id \<Rightarrow> scope_kind_rule" where
  "ScopeKindRule_root k = \<lparr>kr_kind = k, kr_parent_kind = None\<rparr>"

definition ScopeKindRule_child :: "scope_kind_id \<Rightarrow> scope_kind_id \<Rightarrow> scope_kind_rule" where
  "ScopeKindRule_child k p = \<lparr>kr_kind = k, kr_parent_kind = Some p\<rparr>"

definition rule_key :: "scope_kind_rule \<Rightarrow> scope_kind_id \<times> scope_kind_id option" where
  "rule_key r = (kr_kind r, kr_parent_kind r)"

record scope_policy =
  sp_rules :: "(scope_kind_id, scope_kind_id option) btree"

text \<open>The loop that follows parents from one kind until it leaves the rules or repeats a kind.\<close>

function walk_parents ::
  "(scope_kind_id, scope_kind_id option) btree \<Rightarrow> scope_kind_id set \<Rightarrow> scope_kind_id option \<Rightarrow>
   (extension_error, unit) result" where
  "walk_parents rules seen None = Ok ()"
| "walk_parents rules seen (Some kind) =
     (if kind \<in> seen then Err (InvalidScopePolicy kind ParentCycle)
      else walk_parents rules (insert kind seen)
             (case bt_get rules kind of None \<Rightarrow> None | Some parent \<Rightarrow> parent))"
  by pat_completeness auto
termination
proof (relation "measure (\<lambda>(rules, seen, cur). 2 * card (set (bt_keys rules) - seen) + (if cur = None then 0 else 1))",
    goal_cases)
  case (2 rules seen kind)
  show ?case
  proof (cases "bt_get rules kind")
    case None
    then have "set (bt_keys rules) - insert kind seen = set (bt_keys rules) - seen"
      by (auto simp: bt_get_None_iff)
    then show ?thesis using None by simp
  next
    case (Some p)
    then have "kind \<in> set (bt_keys rules)" using bt_get_None_iff [of rules kind] by simp
    then have "card (set (bt_keys rules) - insert kind seen) < card (set (bt_keys rules) - seen)"
      using 2 by (intro psubset_card_mono) auto
    then show ?thesis by simp
  qed
qed simp

definition collect_rules :: "scope_kind_rule list \<Rightarrow> (scope_kind_id, scope_kind_id option) btree" where
  "collect_rules rules = foldl (\<lambda>m r. bt_insert (kr_kind r) (kr_parent_kind r) m) bt_empty rules"

text \<open>The second loop of \<open>from_host_rules\<close>: every parent kind is itself a kind.\<close>

definition parent_present ::
  "(scope_kind_id, scope_kind_id option) btree \<Rightarrow> scope_kind_id \<times> scope_kind_id option \<Rightarrow>
   (extension_error, unit) result" where
  "parent_present rules = (\<lambda>(kind, parent). case parent of
     Some p \<Rightarrow> if bt_contains_key rules p then Ok () else Err (InvalidScopePolicy kind MissingParentKind)
   | None \<Rightarrow> Ok ())"

definition from_host_rules :: "scope_kind_rule list \<Rightarrow> (extension_error, scope_policy) result" where
  "from_host_rules input =
     (let sorted_rules = sort_key rule_key input in
      case find_window (\<lambda>a b. kr_kind a = kr_kind b) sorted_rules of
        Some (a, _) \<Rightarrow> Err (InvalidScopePolicy (kr_kind a) DuplicateKind)
      | None \<Rightarrow>
          (let rules = collect_rules sorted_rules in
           try_res (for_each (parent_present rules) rules) (\<lambda>_.
           try_res (for_each (\<lambda>start. walk_parents rules {} (Some start)) (bt_keys rules)) (\<lambda>_.
           Ok \<lparr>sp_rules = rules\<rparr>))))"

definition phase_one_rules :: "scope_kind_rule list" where
  "phase_one_rules =
     [ScopeKindRule_root ''application'', ScopeKindRule_child ''project'' ''application'',
      ScopeKindRule_child ''workspace'' ''project'', ScopeKindRule_child ''agent'' ''project'']"

text \<open>\<open>phase_one\<close> unwraps with \<open>expect\<close>; \<open>None\<close> is the panic.\<close>

definition phase_one :: "scope_policy option" where
  "phase_one = (case from_host_rules phase_one_rules of Inl _ \<Rightarrow> None | Inr p \<Rightarrow> Some p)"

definition invalid_parent ::
  "scope_identity \<Rightarrow> scope_identity option \<Rightarrow> scope_kind_id option \<Rightarrow> invalid_parent_reason \<Rightarrow> extension_error" where
  "invalid_parent scope parent expected reason =
     InvalidParent
       \<lparr>ctx_scope_id = si_id scope, ctx_scope_kind = si_kind scope,
        ctx_parent_scope_id =
          (case si_parent_id scope of Some i \<Rightarrow> Some i | None \<Rightarrow> map_option si_id parent),
        ctx_parent_scope_kind = map_option si_kind parent,
        ctx_expected_parent_kind = expected\<rparr> reason"

definition validate_identity ::
  "scope_policy \<Rightarrow> scope_identity \<Rightarrow> scope_identity option \<Rightarrow> (extension_error, unit) result" where
  "validate_identity policy scope parent =
     (case bt_get (sp_rules policy) (si_kind scope) of
        None \<Rightarrow> Err (InvalidScope (si_id scope) (si_kind scope) UnknownKind)
      | Some None \<Rightarrow>
          if si_parent_id scope \<noteq> None \<or> parent \<noteq> None
          then Err (invalid_parent scope parent None UnexpectedParent)
          else Ok ()
      | Some (Some expected) \<Rightarrow>
          (case si_parent_id scope of
             None \<Rightarrow> Err (invalid_parent scope parent (Some expected) MissingParent)
           | Some pid \<Rightarrow>
               (case parent of
                  None \<Rightarrow> Err (invalid_parent scope None (Some expected) ParentIdentityMissing)
                | Some p \<Rightarrow>
                    if pid \<noteq> si_id p
                    then Err (invalid_parent scope (Some p) (Some expected) ParentIdMismatch)
                    else if si_kind p \<noteq> expected
                    then Err (invalid_parent scope (Some p) (Some expected) ParentKindMismatch)
                    else Ok ())))"

section \<open>Adjacent duplicates in a sorted list\<close>

lemma find_window_SomeD: "find_window p xs = Some (x, y) \<Longrightarrow> p x y \<and> x \<in> set xs \<and> y \<in> set xs"
  by (induction p xs rule: find_window.induct) (auto split: if_splits)

lemma find_window_key_None:
  "sorted (map f xs) \<Longrightarrow> find_window (\<lambda>x y. f x = f y) xs = None \<longleftrightarrow> distinct (map f xs)"
proof (induction "\<lambda>x y. f x = f y" xs rule: find_window.induct)
  case (1 x y xs)
  show ?case
  proof (cases "f x = f y")
    case False
    then have "f x < f y" "\<forall>z\<in>set xs. f y \<le> f z" using "1.prems" by auto
    then have "f x \<notin> set (map f (y # xs))" by fastforce
    with False "1.hyps" "1.prems" show ?thesis by simp
  qed simp
qed simp_all

lemma duplicate_by_key_None:
  "sorted (map key xs) \<Longrightarrow> duplicate_by_key xs key = None \<longleftrightarrow> distinct (map key xs)"
  by (simp add: duplicate_by_key_def find_window_key_None)

lemma sorted_fst_of_key: "sorted (map (\<lambda>x. (f x, g x)) xs) \<Longrightarrow> sorted (map f xs)"
  by (induction xs) (auto simp: less_eq_prod_def)

lemma err_when_Ok_iff [simp]: "err_when x f k = Ok u \<longleftrightarrow> x = None \<and> k = Ok u"
  by (cases x) (simp_all add: err_when_def)

section \<open>What a validated descriptor satisfies\<close>

definition descriptor_ok :: "'ver plugin_descriptor \<Rightarrow> scope_kind_id \<Rightarrow> bool" where
  "descriptor_ok d k \<longleftrightarrow>
     length (pd_provides d) \<le> MAX_PROVIDES_PER_PLUGIN \<and>
     length (pd_requires d) \<le> MAX_REQUIRED_PER_PLUGIN \<and>
     length (pd_optional d) \<le> MAX_OPTIONAL_PER_PLUGIN \<and>
     k \<in> set (pd_allowed_scopes d) \<and> distinct (pd_allowed_scopes d) \<and>
     distinct (map cd_capability_id (pd_provides d)) \<and>
     distinct (map cr_capability_id (pd_requires d @ pd_optional d))"

lemma normalize_sel [simp]:
  "pd_id (normalize_descriptor d) = pd_id d" "pd_version (normalize_descriptor d) = pd_version d"
  "mset (pd_provides (normalize_descriptor d)) = mset (pd_provides d)"
  "mset (pd_requires (normalize_descriptor d)) = mset (pd_requires d)"
  "mset (pd_optional (normalize_descriptor d)) = mset (pd_optional d)"
  "mset (pd_allowed_scopes (normalize_descriptor d)) = mset (pd_allowed_scopes d)"
  "set (pd_provides (normalize_descriptor d)) = set (pd_provides d)"
  "set (pd_requires (normalize_descriptor d)) = set (pd_requires d)"
  "set (pd_optional (normalize_descriptor d)) = set (pd_optional d)"
  "length (pd_provides (normalize_descriptor d)) = length (pd_provides d)"
  "length (pd_requires (normalize_descriptor d)) = length (pd_requires d)"
  "length (pd_optional (normalize_descriptor d)) = length (pd_optional d)"
  "set (pd_allowed_scopes (normalize_descriptor d)) = set (pd_allowed_scopes d)"
  by (simp_all add: normalize_descriptor_def)

lemma distinct_map_mset: "mset xs = mset ys \<Longrightarrow> distinct (map f xs) \<longleftrightarrow> distinct (map f ys)"
  by (metis mset_eq_imp_distinct_iff mset_map)

lemma normalize_sorted:
  "sorted (map cd_capability_id (pd_provides (normalize_descriptor d)))"
  "sorted (map cr_capability_id (pd_requires (normalize_descriptor d)))"
  "sorted (map cr_capability_id (pd_optional (normalize_descriptor d)))"
  "sorted (map id (pd_allowed_scopes (normalize_descriptor d)))"
proof -
  have p: "sorted (map decl_key (pd_provides (normalize_descriptor d)))"
    and r: "sorted (map req_key (pd_requires (normalize_descriptor d)))"
    and o: "sorted (map req_key (pd_optional (normalize_descriptor d)))"
    by (simp_all add: normalize_descriptor_def)
  show "sorted (map cd_capability_id (pd_provides (normalize_descriptor d)))"
    using p sorted_fst_of_key [of cd_capability_id cd_contract_major] by (simp add: decl_key_def [abs_def])
  show "sorted (map cr_capability_id (pd_requires (normalize_descriptor d)))"
    using r sorted_fst_of_key [of cr_capability_id cr_contract_major] by (simp add: req_key_def [abs_def])
  show "sorted (map cr_capability_id (pd_optional (normalize_descriptor d)))"
    using o sorted_fst_of_key [of cr_capability_id cr_contract_major] by (simp add: req_key_def [abs_def])
  show "sorted (map id (pd_allowed_scopes (normalize_descriptor d)))" by (simp add: normalize_descriptor_def)
qed

lemma validate_for_scope_Ok:
  "validate_for_scope (normalize_descriptor d) k = Ok () \<longleftrightarrow> descriptor_ok d k"
proof -
  have a: "distinct (pd_allowed_scopes (normalize_descriptor d)) \<longleftrightarrow> distinct (pd_allowed_scopes d)"
    by (rule mset_eq_imp_distinct_iff) simp
  have e: "pd_allowed_scopes (normalize_descriptor d) = [] \<longleftrightarrow> pd_allowed_scopes d = []"
    by (metis normalize_sel(6) mset_zero_iff)
  note m = distinct_map_mset [OF normalize_sel(3)] distinct_map_mset [OF normalize_sel(4)]
    distinct_map_mset [OF normalize_sel(5)]
  have "validate_for_scope (normalize_descriptor d) k = Ok () \<longleftrightarrow>
     length (pd_provides d) \<le> MAX_PROVIDES_PER_PLUGIN \<and>
     length (pd_requires d) \<le> MAX_REQUIRED_PER_PLUGIN \<and>
     length (pd_optional d) \<le> MAX_OPTIONAL_PER_PLUGIN \<and>
     k \<in> set (pd_allowed_scopes d) \<and> distinct (pd_allowed_scopes d) \<and>
     distinct (map cd_capability_id (pd_provides d)) \<and>
     distinct (map cr_capability_id (pd_requires d)) \<and>
     distinct (map cr_capability_id (pd_optional d)) \<and>
     (\<forall>r\<in>set (pd_optional d). cr_capability_id r \<notin> set (map cr_capability_id (pd_requires d)))"
    unfolding validate_for_scope_def
    using normalize_sorted [of d] e
    by (auto simp: duplicate_by_key_None a m find_None_iff)
  also have "\<dots> \<longleftrightarrow> descriptor_ok d k"
    unfolding descriptor_ok_def by (auto simp: image_iff) (metis+)?
  finally show ?thesis .
qed

section \<open>The policy is a forest\<close>

definition parent_rel :: "(scope_kind_id, scope_kind_id option) btree \<Rightarrow> (scope_kind_id \<times> scope_kind_id) set" where
  "parent_rel rules = {(p, k). bt_get rules k = Some (Some p)}"

lemma walk_parents_acyclic:
  "walk_parents rules seen cur = Ok () \<Longrightarrow> cur = Some k \<Longrightarrow> (k, k) \<notin> (parent_rel rules)\<^sup>+"
proof (induction rules seen cur arbitrary: k rule: walk_parents.induct)
  case (2 rules seen kind)
  let ?R = "parent_rel rules"
  have k: "kind = k" using "2.prems" by simp
  show ?case
  proof
    assume c: "(k, k) \<in> ?R\<^sup>+"
    then obtain p where p: "(p, k) \<in> ?R" "(k, p) \<in> ?R\<^sup>*" by (meson tranclD2)
    then have g: "bt_get rules kind = Some (Some p)" by (simp add: parent_rel_def k)
    have "(p, p) \<notin> ?R\<^sup>+" using "2.IH" [of p] "2.prems" g by (auto split: if_splits)
    moreover have "(p, p) \<in> ?R\<^sup>+" using p by (metis rtrancl_into_trancl2)
    ultimately show False by blast
  qed
qed simp

lemma walk_parents_Ok:
  "\<forall>x\<in>seen. \<forall>k. cur = Some k \<longrightarrow> (k, x) \<in> (parent_rel rules)\<^sup>+ \<Longrightarrow> acyclic (parent_rel rules) \<Longrightarrow>
     walk_parents rules seen cur = Ok ()"
proof (induction rules seen cur rule: walk_parents.induct)
  case (2 rules seen kind)
  let ?R = "parent_rel rules"
  have n: "kind \<notin> seen" using "2.prems" by (auto simp: acyclic_def)
  have "\<forall>x\<in>insert kind seen. \<forall>k. (case bt_get rules kind of None \<Rightarrow> None | Some parent \<Rightarrow> parent) = Some k \<longrightarrow>
      (k, x) \<in> ?R\<^sup>+"
  proof (intro ballI allI impI)
    fix x k assume x: "x \<in> insert kind seen"
      and "(case bt_get rules kind of None \<Rightarrow> None | Some parent \<Rightarrow> parent) = Some k"
    then have "(k, kind) \<in> ?R" by (auto simp: parent_rel_def split: option.splits)
    with x "2.prems"(1) show "(k, x) \<in> ?R\<^sup>+" by (auto intro: trancl_into_trancl2)
  qed
  then show ?case using "2.IH" [OF n] "2.prems"(2) n by simp
qed simp

lemma walks_Ok_iff:
  "(\<forall>k\<in>set (bt_keys rules). walk_parents rules {} (Some k) = Ok ()) \<longleftrightarrow> acyclic (parent_rel rules)"
proof
  assume w: "\<forall>k\<in>set (bt_keys rules). walk_parents rules {} (Some k) = Ok ()"
  show "acyclic (parent_rel rules)"
    unfolding acyclic_def
  proof (intro allI notI)
    fix x assume c: "(x, x) \<in> (parent_rel rules)\<^sup>+"
    then obtain p where "(p, x) \<in> parent_rel rules" by (meson tranclD2)
    then have "x \<in> set (bt_keys rules)"
      using bt_get_None_iff [of rules x] by (simp add: parent_rel_def)
    with w c walk_parents_acyclic show False by blast
  qed
next
  assume "acyclic (parent_rel rules)"
  then show "\<forall>k\<in>set (bt_keys rules). walk_parents rules {} (Some k) = Ok ()"
    by (intro ballI walk_parents_Ok) simp_all
qed

lemma collect_rules_get_aux:
  "bt_ok m \<Longrightarrow> distinct (map kr_kind rs) \<Longrightarrow> (\<forall>r\<in>set rs. bt_get m (kr_kind r) = None) \<Longrightarrow>
     bt_ok (foldl (\<lambda>m r. bt_insert (kr_kind r) (kr_parent_kind r) m) m rs) \<and>
     (bt_get (foldl (\<lambda>m r. bt_insert (kr_kind r) (kr_parent_kind r) m) m rs) k = Some p \<longleftrightarrow>
        bt_get m k = Some p \<or> (\<exists>r\<in>set rs. kr_kind r = k \<and> kr_parent_kind r = p))"
proof (induction rs arbitrary: m)
  case (Cons r rs)
  have "bt_ok (bt_insert (kr_kind r) (kr_parent_kind r) m)"
    "\<forall>q\<in>set rs. bt_get (bt_insert (kr_kind r) (kr_parent_kind r) m) (kr_kind q) = None"
    using Cons.prems by (auto simp: image_iff)
  with Cons.IH [of "bt_insert (kr_kind r) (kr_parent_kind r) m"] Cons.prems show ?case by auto
qed simp

lemma collect_rules_get:
  "distinct (map kr_kind rs) \<Longrightarrow> bt_ok (collect_rules rs) \<and>
     (bt_get (collect_rules rs) k = Some p \<longleftrightarrow> (\<exists>r\<in>set rs. kr_kind r = k \<and> kr_parent_kind r = p))"
  unfolding collect_rules_def using collect_rules_get_aux [of bt_empty rs k p] by simp

definition rules_closed :: "scope_kind_rule list \<Rightarrow> bool" where
  "rules_closed rs \<longleftrightarrow>
     (\<forall>r\<in>set rs. \<forall>p. kr_parent_kind r = Some p \<longrightarrow> p \<in> set (map kr_kind rs))"

definition rule_edges :: "scope_kind_rule list \<Rightarrow> (scope_kind_id \<times> scope_kind_id) set" where
  "rule_edges rs = {(p, k). \<exists>r\<in>set rs. kr_kind r = k \<and> kr_parent_kind r = Some p}"

lemma parent_present_iff:
  assumes "distinct (map kr_kind rs)"
  shows "(\<forall>e\<in>set (collect_rules rs). parent_present (collect_rules rs) e = Ok ()) \<longleftrightarrow> rules_closed rs"
proof -
  let ?m = "collect_rules rs"
  note g = collect_rules_get [OF assms]
  have ok: "bt_ok ?m" using g by blast
  have mem: "(k, q) \<in> set ?m \<longleftrightarrow> (\<exists>r\<in>set rs. kr_kind r = k \<and> kr_parent_kind r = q)" for k q
    using bt_get_Some_iff [OF ok, of k q] g by blast
  have keys: "bt_contains_key ?m x \<longleftrightarrow> x \<in> set (map kr_kind rs)" for x
    unfolding bt_contains_key_def using g [of x] by (auto simp: image_iff)
  have f: "parent_present ?m (k, q) = Ok () \<longleftrightarrow> (\<forall>p. q = Some p \<longrightarrow> p \<in> set (map kr_kind rs))" for k q
    using keys by (cases q) (simp_all add: parent_present_def)
  have "set ?m = (\<lambda>r. (kr_kind r, kr_parent_kind r)) ` set rs"
  proof (rule set_eqI)
    fix e show "e \<in> set ?m \<longleftrightarrow> e \<in> (\<lambda>r. (kr_kind r, kr_parent_kind r)) ` set rs"
      using mem [of "fst e" "snd e"] by (cases e) (auto simp: image_iff)
  qed
  then show ?thesis unfolding rules_closed_def by (simp add: f)
qed

lemma from_host_rules_Ok_iff:
  "(\<exists>policy. from_host_rules rs = Ok policy) \<longleftrightarrow>
     distinct (map kr_kind rs) \<and> rules_closed rs \<and> acyclic (rule_edges rs)"
  (is "?L \<longleftrightarrow> ?R")
proof -
  let ?s = "sort_key rule_key rs"
  let ?m = "collect_rules ?s"
  have srt: "sorted (map kr_kind ?s)"
    using sorted_fst_of_key [of kr_kind kr_parent_kind ?s] sorted_sort_key [of rule_key rs]
    by (simp add: rule_key_def [abs_def])
  have d: "distinct (map kr_kind ?s) \<longleftrightarrow> distinct (map kr_kind rs)"
    by (rule distinct_map_mset) simp
  show ?thesis
  proof (cases "distinct (map kr_kind rs)")
    case True
    note g = collect_rules_get [of ?s, unfolded d set_sort, OF True]
    have p: "parent_rel ?m = rule_edges rs" by (auto simp: parent_rel_def rule_edges_def g)
    have c: "(\<forall>e\<in>set ?m. parent_present ?m e = Ok ()) \<longleftrightarrow> rules_closed rs"
      using parent_present_iff [of ?s] d True by (simp add: rules_closed_def)
    have "find_window (\<lambda>a b. kr_kind a = kr_kind b) ?s = None"
      using find_window_key_None [OF srt] d True by simp
    then have "?L \<longleftrightarrow> rules_closed rs \<and> acyclic (rule_edges rs)"
      using c by (simp add: from_host_rules_def Let_def try_res_Ok_iff walks_Ok_iff p del: walk_parents.simps)
    with True show ?thesis by simp
  next
    case False
    then have "find_window (\<lambda>a b. kr_kind a = kr_kind b) ?s \<noteq> None"
      using find_window_key_None [OF srt] d by simp
    then show ?thesis using False by (auto simp: from_host_rules_def Let_def)
  qed
qed

lemma from_host_rules_get:
  assumes "from_host_rules rs = Ok policy"
  shows "bt_ok (sp_rules policy) \<and>
     (bt_get (sp_rules policy) k = Some p \<longleftrightarrow> (\<exists>r\<in>set rs. kr_kind r = k \<and> kr_parent_kind r = p))"
proof -
  have d: "distinct (map kr_kind rs)" using from_host_rules_Ok_iff [of rs] assms by blast
  then have "distinct (map kr_kind (sort_key rule_key rs))"
    by (subst distinct_map_mset [of _ rs]) simp_all
  note g = collect_rules_get [OF this, of k p]
  have "sp_rules policy = collect_rules (sort_key rule_key rs)"
    using assms by (auto simp: from_host_rules_def Let_def try_res_Ok_iff split: option.splits)
  with g show ?thesis by simp
qed

lemma validate_identity_Ok_iff:
  "validate_identity policy scope parent = Ok () \<longleftrightarrow>
     (\<exists>expected. bt_get (sp_rules policy) (si_kind scope) = Some expected \<and>
        si_parent_id scope = map_option si_id parent \<and> map_option si_kind parent = expected)"
  by (auto simp: validate_identity_def split: option.splits if_splits)

lemma phase_one_Some: "phase_one \<noteq> None"
proof -
  have "distinct (map kr_kind phase_one_rules)" "rules_closed phase_one_rules"
    by (auto simp: phase_one_rules_def ScopeKindRule_root_def ScopeKindRule_child_def rules_closed_def)
  moreover have "acyclic (rule_edges phase_one_rules)"
  proof (rule acyclicI_order [where f = "\<lambda>k. if k = ''application'' then 2 else if k = ''project'' then 1 else (0::nat)"])
    fix a b assume "(a, b) \<in> rule_edges phase_one_rules"
    then show "(if b = ''application'' then 2 else if b = ''project'' then 1 else (0::nat)) <
        (if a = ''application'' then 2 else if a = ''project'' then 1 else 0)"
      by (auto simp: rule_edges_def phase_one_rules_def ScopeKindRule_root_def ScopeKindRule_child_def)
  qed
  ultimately show ?thesis using from_host_rules_Ok_iff [of phase_one_rules] by (auto simp: phase_one_def)
qed

end
