(* ===== verification/Dep_Graph.thy ===== *)
theory Dep_Graph
  imports Scope_Model
begin

text \<open>
  The dependency graph of \<^verbatim>\<open>crates/rho-extension-runtime/src/resolver.rs\<close>: the sorted adjacency, the
  stable Kahn ordering and the search for a canonical cycle. A node of the \<open>petgraph\<close> graph is
  identified with its weight, the plugin id; ids are distinct when the graph is built. Strongly
  connected components come from \<open>petgraph::algo::kosaraju_scc\<close>, a parameter \<open>scc\<close> with its documented
  behaviour as the hypothesis \<open>scc_spec\<close>. The \<open>expect\<close> calls and the subtraction of the Kahn loop
  may panic: \<open>None\<close>.
\<close>

record dep_graph =
  gr_nodes :: "plugin_id list"
  gr_edges :: "(plugin_id \<times> plugin_id \<times> capability_id) list"

type_synonym adjacency = "(plugin_id, plugin_id list) btree"

definition adjacency_add :: "adjacency \<Rightarrow> plugin_id \<times> plugin_id \<times> capability_id \<Rightarrow> adjacency" where
  "adjacency_add m e =
     (case e of (source, target, _) \<Rightarrow>
        bt_insert source
          (insort_insert target (case bt_get m source of None \<Rightarrow> [] | Some ts \<Rightarrow> ts)) m)"

definition stable_adjacency :: "dep_graph \<Rightarrow> adjacency" where
  "stable_adjacency g =
     foldl adjacency_add (foldl (\<lambda>m n. bt_insert n [] m) bt_empty (gr_nodes g)) (gr_edges g)"

definition targets :: "adjacency \<Rightarrow> plugin_id \<Rightarrow> plugin_id list" where
  "targets adj n = (case bt_get adj n of None \<Rightarrow> [] | Some ts \<Rightarrow> ts)"

section \<open>Kahn's algorithm\<close>

definition bump :: "(plugin_id, nat) btree \<Rightarrow> plugin_id \<Rightarrow> (plugin_id, nat) btree option" where
  "bump degree t = (if bt_contains_key degree t then Some (bt_modify t Suc degree) else None)"

definition in_degrees :: "adjacency \<Rightarrow> (plugin_id, nat) btree option" where
  "in_degrees adj = fold_opt bump (map (\<lambda>n. (n, 0)) (bt_keys adj)) (concat (bt_values adj))"

definition relax ::
  "(plugin_id, nat) btree \<times> plugin_id list \<Rightarrow> plugin_id \<Rightarrow> ((plugin_id, nat) btree \<times> plugin_id list) option" where
  "relax st dependent =
     (case bt_get (fst st) dependent of
        None \<Rightarrow> None
      | Some 0 \<Rightarrow> None
      | Some (Suc d) \<Rightarrow>
          Some (bt_modify dependent (\<lambda>v. v - 1) (fst st),
                if d = 0 then insort_insert dependent (snd st) else snd st))"

definition kahn_measure :: "(plugin_id, nat) btree \<Rightarrow> plugin_id list \<Rightarrow> nat" where
  "kahn_measure degree ready = 2 * sum_list (map snd degree) + length ready"

lemma sum_modify_le: "sum_list (map snd (bt_modify k (\<lambda>v. v - 1) m)) \<le> sum_list (map snd (m :: ('k, nat) btree))"
  by (induction m) (auto simp: bt_modify_def)

lemma sum_modify_less:
  "bt_get m k = Some (Suc d) \<Longrightarrow>
     sum_list (map snd (bt_modify k (\<lambda>v. v - 1) m)) < sum_list (map snd (m :: ('k, nat) btree))"
proof (induction m)
  case (Cons e m)
  then show ?case
    using sum_modify_le [of k m] by (cases e) (auto simp: bt_modify_def split: if_splits)
qed simp

lemma length_insort_insert_le: "length (insort_insert x xs) \<le> Suc (length xs)"
  by (simp add: insort_insert_key_def)

lemma relax_measure:
  "relax (D, r) t = Some (D', r') \<Longrightarrow> kahn_measure D' r' < kahn_measure D r"
proof -
  assume "relax (D, r) t = Some (D', r')"
  then obtain d where d: "bt_get D t = Some (Suc d)" "D' = bt_modify t (\<lambda>v. v - 1) D"
    "r' = (if d = 0 then insort_insert t r else r)"
    by (auto simp: relax_def split: option.splits nat.splits)
  then have "length r' \<le> Suc (length r)" using length_insort_insert_le [of t r] by simp
  with sum_modify_less [OF d(1)] d(2) show ?thesis by (simp add: kahn_measure_def)
qed

lemma fold_relax_measure:
  "fold_opt relax (D, r) ts = Some (D', r') \<Longrightarrow> kahn_measure D' r' \<le> kahn_measure D r"
proof (induction ts arbitrary: D r)
  case (Cons t ts)
  then obtain D1 r1 where "relax (D, r) t = Some (D1, r1)" "fold_opt relax (D1, r1) ts = Some (D', r')"
    by (auto split: option.splits)
  with Cons.IH relax_measure show ?case by fastforce
qed simp

function kahn_loop ::
  "adjacency \<Rightarrow> (plugin_id, nat) btree \<Rightarrow> plugin_id list \<Rightarrow> plugin_id list \<Rightarrow> plugin_id list option" where
  "kahn_loop adj degree [] order = Some order"
| "kahn_loop adj degree (p # rest) order =
     (case fold_opt relax (degree, rest) (targets adj p) of
        None \<Rightarrow> None
      | Some (degree', ready') \<Rightarrow> kahn_loop adj degree' ready' (order @ [p]))"
  by pat_completeness auto
termination
proof (relation "measure (\<lambda>(adj, degree, ready, order). kahn_measure degree ready)", goal_cases)
  case (2 adj degree p rest order st degree' ready')
  then have "kahn_measure degree' ready' \<le> kahn_measure degree rest" using fold_relax_measure by simp
  then show ?case by (simp add: kahn_measure_def)
qed simp

definition stable_kahn_order :: "dep_graph \<Rightarrow> plugin_id list option" where
  "stable_kahn_order g =
     (let adj = stable_adjacency g in
      case in_degrees adj of
        None \<Rightarrow> None
      | Some degree \<Rightarrow> kahn_loop adj degree (map fst (filter (\<lambda>(_, d). d = 0) degree)) [])"

section \<open>The canonical cycle\<close>

text \<open>
  \<open>find_closed_path\<close>: the loop over the remaining neighbours of the last node of \<open>path\<close>. Popping and
  removing after a failed descent restores \<open>path\<close> and \<open>on_path\<close>.
\<close>

function find_closed_path ::
  "plugin_id \<Rightarrow> plugin_id list \<Rightarrow> adjacency \<Rightarrow> plugin_id list \<Rightarrow> plugin_id set \<Rightarrow> plugin_id list \<Rightarrow>
   plugin_id list option" where
  "find_closed_path start allowed adj path on_path [] = None"
| "find_closed_path start allowed adj path on_path (n # ns) =
     (if n \<notin> set allowed then find_closed_path start allowed adj path on_path ns
      else if n = start then Some (path @ [start])
      else if n \<notin> on_path then
        (case find_closed_path start allowed adj (path @ [n]) (insert n on_path) (targets adj n) of
           Some closed \<Rightarrow> Some closed
         | None \<Rightarrow> find_closed_path start allowed adj path on_path ns)
      else find_closed_path start allowed adj path on_path ns)"
  by pat_completeness auto
termination
proof (relation "inv_image (less_than <*lex*> less_than)
    (\<lambda>(start, allowed, adj, path, on_path, ns). (card (set allowed - on_path), length ns))", goal_cases)
  case (3 start allowed adj path on_path n ns)
  then have "card (set allowed - insert n on_path) < card (set allowed - on_path)"
    by (intro psubset_card_mono) auto
  then show ?case by simp
qed auto

definition cyclic_component :: "dep_graph \<Rightarrow> plugin_id list \<Rightarrow> bool" where
  "cyclic_component g c \<longleftrightarrow>
     length c > 1 \<or> (c \<noteq> [] \<and> list_ex (\<lambda>(a, b, _). a = hd c \<and> b = hd c) (gr_edges g))"

definition canonical_cycle ::
  "(dep_graph \<Rightarrow> plugin_id list list) \<Rightarrow> dep_graph \<Rightarrow> plugin_id list option" where
  "canonical_cycle scc g =
     (case sort (map sort (filter (cyclic_component g) (scc g))) of
        [] \<Rightarrow> None
      | component # _ \<Rightarrow>
          (case component of
             [] \<Rightarrow> None
           | start # _ \<Rightarrow>
               (let adj = stable_adjacency g in
                find_closed_path start component adj [start] {start} (targets adj start))))"

section \<open>The adjacency is the edge relation\<close>

definition edge_rel :: "dep_graph \<Rightarrow> (plugin_id \<times> plugin_id) set" where
  "edge_rel g = {(a, b). \<exists>c. (a, b, c) \<in> set (gr_edges g)}"

definition graph_ok :: "dep_graph \<Rightarrow> bool" where
  "graph_ok g \<longleftrightarrow> distinct (gr_nodes g) \<and> edge_rel g \<subseteq> set (gr_nodes g) \<times> set (gr_nodes g)"

lemma nodes_fold:
  "bt_ok m \<Longrightarrow> bt_ok (foldl (\<lambda>m n. bt_insert n [] m) m ns) \<and>
     bt_get (foldl (\<lambda>m n. bt_insert n [] m) m ns) k =
       (if k \<in> set ns then Some [] else bt_get m k)"
  by (induction ns arbitrary: m) auto

definition adj_sets :: "adjacency \<Rightarrow> bool" where
  "adj_sets adj \<longleftrightarrow> bt_ok adj \<and> (\<forall>n. sorted (targets adj n) \<and> distinct (targets adj n))"

lemma adjacency_add_props:
  assumes "adj_sets m"
  shows "adj_sets (adjacency_add m (a, b, c)) \<and>
     set (targets (adjacency_add m (a, b, c)) n) = set (targets m n) \<union> (if n = a then {b} else {}) \<and>
     set (bt_keys (adjacency_add m (a, b, c))) = insert a (set (bt_keys m))"
proof -
  have t: "targets (adjacency_add m (a, b, c)) n =
      (if n = a then insort_insert b (targets m a) else targets m n)" for n
    by (auto simp: adjacency_add_def targets_def split: option.splits)
  have "set (bt_keys (adjacency_add m (a, b, c))) = insert a (set (bt_keys m))"
    unfolding adjacency_add_def bt_keys_def by (simp add: keys_bt_insert del: set_map)
  moreover have "adj_sets (adjacency_add m (a, b, c))"
    unfolding adj_sets_def
  proof (intro conjI allI)
    show "bt_ok (adjacency_add m (a, b, c))" using assms by (simp add: adjacency_add_def adj_sets_def)
    fix n show "sorted (targets (adjacency_add m (a, b, c)) n)"
      "distinct (targets (adjacency_add m (a, b, c)) n)"
      using assms unfolding t adj_sets_def by (auto simp: sorted_insort_insert distinct_insort_insert)
  qed
  ultimately show ?thesis by (auto simp: t set_insort_insert)
qed

lemma edges_fold:
  "adj_sets m \<Longrightarrow> adj_sets (foldl adjacency_add m es) \<and>
     set (targets (foldl adjacency_add m es) n) = set (targets m n) \<union> {b. \<exists>c. (n, b, c) \<in> set es} \<and>
     set (bt_keys (foldl adjacency_add m es)) = set (bt_keys m) \<union> {a. \<exists>b c. (a, b, c) \<in> set es}"
proof (induction es arbitrary: m)
  case (Cons e es)
  obtain a b c where e: "e = (a, b, c)" by (cases e)
  note p = adjacency_add_props [OF Cons.prems, of a b c]
  have "adj_sets (adjacency_add m (a, b, c))" using p by blast
  from Cons.IH [OF this] p [of n] show ?case by (auto simp: e)
qed simp

lemma stable_adjacency_props:
  assumes "graph_ok g"
  shows "adj_sets (stable_adjacency g)"
    and "set (targets (stable_adjacency g) n) = {b. (n, b) \<in> edge_rel g}"
    and "set (bt_keys (stable_adjacency g)) = set (gr_nodes g)"
proof -
  let ?m = "foldl (\<lambda>m n. bt_insert n [] m) (bt_empty :: adjacency) (gr_nodes g)"
  have ok: "bt_ok ?m" using nodes_fold [of bt_empty "gr_nodes g"] by blast
  have get: "bt_get ?m k = (if k \<in> set (gr_nodes g) then Some [] else None)" for k
    using nodes_fold [of "bt_empty :: adjacency" "gr_nodes g" k] by simp
  have t: "targets ?m k = []" for k by (simp add: targets_def get)
  have k: "set (bt_keys ?m) = set (gr_nodes g)"
    using get bt_get_None_iff [of ?m] by (metis (no_types, lifting) option.discI set_eqI)
  have s: "adj_sets ?m" using ok by (simp add: adj_sets_def t)
  note e = edges_fold [OF s, of "gr_edges g"]
  show "adj_sets (stable_adjacency g)" using e unfolding stable_adjacency_def by blast
  show "set (targets (stable_adjacency g) n) = {b. (n, b) \<in> edge_rel g}"
    using e [of n] unfolding stable_adjacency_def edge_rel_def by (auto simp: t)
  have "{a. \<exists>b c. (a, b, c) \<in> set (gr_edges g)} \<subseteq> set (gr_nodes g)"
    using assms by (auto simp: graph_ok_def edge_rel_def)
  then show "set (bt_keys (stable_adjacency g)) = set (gr_nodes g)"
    using e unfolding stable_adjacency_def by (auto simp: k)
qed

end
