(* ===== verification/Activation_Order.thy ===== *)
theory Activation_Order
  imports Dep_Graph
begin

text \<open>
  Correctness of the graph algorithms of \<^verbatim>\<open>resolver.rs\<close>: Kahn's loop never panics and, on an acyclic
  graph, lists every node after all its predecessors; the reported closed path is a walk of the
  graph, and one is reported exactly when the graph has a cycle.
\<close>

section \<open>Kahn's algorithm orders every acyclic graph\<close>

abbreviation nodes_of :: "adjacency \<Rightarrow> plugin_id set" where
  "nodes_of adj \<equiv> set (bt_keys adj)"

definition waiting :: "adjacency \<Rightarrow> plugin_id list \<Rightarrow> plugin_id \<Rightarrow> plugin_id set" where
  "waiting adj order n = {m \<in> nodes_of adj - set order. n \<in> set (targets adj m)}"

definition topological :: "adjacency \<Rightarrow> plugin_id list \<Rightarrow> bool" where
  "topological adj order \<longleftrightarrow>
     (\<forall>i < length order. \<forall>m\<in>nodes_of adj. order ! i \<in> set (targets adj m) \<longrightarrow> m \<in> set (take i order))"

text \<open>The loop invariant, with the dependents \<open>ts\<close> of the last plugin still to be relaxed.\<close>

definition kahn_inv ::
  "adjacency \<Rightarrow> (plugin_id, nat) btree \<Rightarrow> plugin_id list \<Rightarrow> plugin_id list \<Rightarrow> plugin_id list \<Rightarrow> bool" where
  "kahn_inv adj degree ready order ts \<longleftrightarrow>
     (\<forall>n\<in>nodes_of adj. bt_get degree n =
        Some (card (waiting adj order n) + (if n \<in> set ts then 1 else 0))) \<and>
     set ready = {n \<in> nodes_of adj - set order. bt_get degree n = Some 0} \<and>
     sorted ready \<and> distinct ready \<and> distinct order \<and> set order \<subseteq> nodes_of adj \<and>
     topological adj order \<and>
     distinct ts \<and> set ts \<subseteq> nodes_of adj - set order"

lemma finite_waiting [simp]: "finite (waiting adj order n)"
  by (simp add: waiting_def)

lemma kahn_relax:
  assumes "kahn_inv adj D r order (t # ts)"
  shows "\<exists>D' r'. relax (D, r) t = Some (D', r') \<and> kahn_inv adj D' r' order ts"
proof -
  note i = assms [unfolded kahn_inv_def]
  let ?c = "card (waiting adj order t)"
  let ?D = "bt_modify t (\<lambda>v. v - 1) D" and ?r = "if ?c = 0 then insort_insert t r else r"
  have t: "t \<in> nodes_of adj" "t \<notin> set order" "t \<notin> set ts" "bt_get D t = Some (Suc ?c)"
    using i by auto
  have "relax (D, r) t = Some (?D, ?r)" using t(4) by (simp add: relax_def)
  moreover have "kahn_inv adj ?D ?r order ts"
    unfolding kahn_inv_def
  proof (intro conjI)
    show "\<forall>n\<in>nodes_of adj. bt_get ?D n =
        Some (card (waiting adj order n) + (if n \<in> set ts then 1 else 0))"
      using i t by auto
    have "set r = {n \<in> nodes_of adj - set order. bt_get D n = Some 0}" using i by blast
    moreover have "bt_get ?D n = (if n = t then Some ?c else bt_get D n)" for n using t(4) by simp
    ultimately show "set ?r = {n \<in> nodes_of adj - set order. bt_get ?D n = Some 0}"
      using t by (cases "?c = 0") (auto simp: set_insort_insert simp del: bt_get_modify)
    show "sorted ?r" "distinct ?r"
      using i by (auto simp: sorted_insort_insert distinct_insort_insert)
  qed (use i in auto)
  ultimately show ?thesis by blast
qed

lemma kahn_relax_all:
  "kahn_inv adj D r order ts \<Longrightarrow>
     \<exists>D' r'. fold_opt relax (D, r) ts = Some (D', r') \<and> kahn_inv adj D' r' order []"
proof (induction ts arbitrary: D r)
  case (Cons t ts)
  from kahn_relax [OF Cons.prems] obtain D1 r1
    where "relax (D, r) t = Some (D1, r1)" "kahn_inv adj D1 r1 order ts" by blast
  with Cons.IH show ?case by simp
qed simp

lemma topological_snoc:
  "topological adj order \<Longrightarrow> waiting adj order p = {} \<Longrightarrow> topological adj (order @ [p])"
  by (auto simp: topological_def waiting_def nth_append less_Suc_eq)

lemma topological_closed:
  assumes "topological adj order" "t \<in> set order" "m \<in> nodes_of adj" "t \<in> set (targets adj m)"
  shows "m \<in> set order"
proof -
  obtain i where "i < length order" "order ! i = t" using assms(2) by (auto simp: in_set_conv_nth)
  then have "m \<in> set (take i order)" using assms unfolding topological_def by blast
  then show ?thesis by (rule in_set_takeD)
qed

lemma kahn_pop:
  assumes "kahn_inv adj D (p # rest) order []" "adj_sets adj"
    and cl: "\<And>m. set (targets adj m) \<subseteq> nodes_of adj"
  shows "kahn_inv adj D rest (order @ [p]) (targets adj p)"
proof -
  note i = assms(1) [unfolded kahn_inv_def]
  have r: "set (p # rest) = {n \<in> nodes_of adj - set order. bt_get D n = Some 0}" using i by blast
  then have p: "p \<in> nodes_of adj" "p \<notin> set order" "bt_get D p = Some 0" by auto
  then have w: "waiting adj order p = {}" using i by auto
  have self: "p \<notin> set (targets adj p)" using w p by (auto simp: waiting_def)
  have top: "topological adj order" using i by blast
  have fresh: "t \<notin> set order" if "t \<in> set (targets adj p)" for t
    using topological_closed [OF top _ p(1) that] p(2) by blast
  have split: "waiting adj order n = (if n \<in> set (targets adj p) then insert p (waiting adj (order @ [p]) n)
      else waiting adj (order @ [p]) n)" for n
    using p by (auto simp: waiting_def)
  have "p \<notin> waiting adj (order @ [p]) n" for n by (simp add: waiting_def)
  then have card: "card (waiting adj order n) =
      card (waiting adj (order @ [p]) n) + (if n \<in> set (targets adj p) then 1 else 0)" for n
    unfolding split [of n] by simp
  show ?thesis
    unfolding kahn_inv_def
  proof (intro conjI)
    show "\<forall>n\<in>nodes_of adj. bt_get D n =
        Some (card (waiting adj (order @ [p]) n) + (if n \<in> set (targets adj p) then 1 else 0))"
      using i card by auto
    show "set rest = {n \<in> nodes_of adj - set (order @ [p]). bt_get D n = Some 0}"
      using r i by auto
    show "topological adj (order @ [p])" using topological_snoc [OF top w] .
    show "distinct (targets adj p)" using assms(2) by (simp add: adj_sets_def)
    show "set (targets adj p) \<subseteq> nodes_of adj - set (order @ [p])" using cl fresh self by auto
  qed (use i p in auto)
qed

lemma kahn_loop_result:
  "kahn_inv adj D ready order [] \<Longrightarrow> adj_sets adj \<Longrightarrow> (\<And>m. set (targets adj m) \<subseteq> nodes_of adj) \<Longrightarrow>
     \<exists>final. kahn_loop adj D ready order = Some final \<and> distinct final \<and> set final \<subseteq> nodes_of adj \<and>
       topological adj final \<and> (\<forall>n\<in>nodes_of adj - set final. waiting adj final n \<noteq> {})"
proof (induction adj D ready order rule: kahn_loop.induct)
  case (1 adj D order)
  have "waiting adj order n \<noteq> {}" if "n \<in> nodes_of adj - set order" for n
  proof
    assume "waiting adj order n = {}"
    with "1.prems"(1) that have "n \<in> {n \<in> nodes_of adj - set order. bt_get D n = Some 0}"
      by (simp add: kahn_inv_def)
    with "1.prems"(1) show False unfolding kahn_inv_def by (metis empty_iff empty_set)
  qed
  with "1.prems"(1) show ?case by (simp add: kahn_inv_def)
next
  case (2 adj D p rest order)
  from kahn_relax_all [OF kahn_pop [OF "2.prems"]] obtain D' r' where
    f: "fold_opt relax (D, rest) (targets adj p) = Some (D', r')" "kahn_inv adj D' r' (order @ [p]) []" by blast
  then show ?case using "2.IH" [OF f(1) refl f(2) "2.prems"(2,3)] by simp
qed

lemma bump_fold:
  "set ts \<subseteq> set (bt_keys D) \<Longrightarrow>
     \<exists>D'. fold_opt bump D ts = Some D' \<and> map fst D' = map fst D \<and>
       (\<forall>n d. bt_get D n = Some d \<longrightarrow> bt_get D' n = Some (d + count_list ts n))"
proof (induction ts arbitrary: D)
  case (Cons t ts)
  have k: "bt_contains_key D t" using Cons.prems by (simp add: bt_contains_key_iff)
  have "set ts \<subseteq> set (bt_keys (bt_modify t Suc D))" using Cons.prems by (simp add: bt_keys_def)
  from Cons.IH [OF this] obtain D' where D': "fold_opt bump (bt_modify t Suc D) ts = Some D'"
    "map fst D' = map fst D"
    "\<forall>n d. bt_get (bt_modify t Suc D) n = Some d \<longrightarrow> bt_get D' n = Some (d + count_list ts n)"
    by auto
  have "bt_get D' n = Some (d + count_list (t # ts) n)" if "bt_get D n = Some d" for n d
    using D'(3) that by (cases "t = n") auto
  moreover have "fold_opt bump D (t # ts) = Some D'" using D'(1) k by (simp add: bump_def [of D t])
  ultimately show ?case using D'(2) by blast
qed simp

lemma count_concat_targets:
  "bt_ok adj \<Longrightarrow> (\<forall>ts\<in>set (bt_values adj). distinct ts) \<Longrightarrow>
     count_list (concat (bt_values adj)) n = card {m \<in> nodes_of adj. n \<in> set (targets adj m)}"
proof (induction adj)
  case (Cons e adj)
  obtain k ts where e: "e = (k, ts)" by (cases e)
  have ok: "bt_ok adj" and k: "k \<notin> nodes_of adj" using Cons.prems(1) by (auto simp: e bt_ok_def bt_keys_def)
  have t: "targets ((k, ts) # adj) m = (if m = k then ts else targets adj m)" for m
    by (simp add: targets_def)
  have c: "count_list ts n = (if n \<in> set ts then 1 else 0)"
    using Cons.prems(2) distinct_count_atmost_1 [of ts] by (simp add: e bt_values_def count_mset)
  have "{m \<in> nodes_of (e # adj). n \<in> set (targets (e # adj) m)} =
      (if n \<in> set ts then {k} else {}) \<union> {m \<in> nodes_of adj. n \<in> set (targets adj m)}"
    using k unfolding e by (auto simp: t bt_keys_def split: if_splits)
  then have "card {m \<in> nodes_of (e # adj). n \<in> set (targets (e # adj) m)} =
      count_list ts n + card {m \<in> nodes_of adj. n \<in> set (targets adj m)}"
    using k c by (auto simp: card_insert_if)
  then show ?case using Cons.IH [OF ok] Cons.prems(2) by (simp add: e bt_values_def)
qed (simp add: bt_values_def bt_keys_def)

lemma in_degrees_Some:
  assumes "adj_sets adj" and cl: "\<And>m. set (targets adj m) \<subseteq> nodes_of adj"
  shows "\<exists>D. in_degrees adj = Some D \<and> bt_keys D = bt_keys adj \<and>
     (\<forall>n\<in>nodes_of adj. bt_get D n = Some (card (waiting adj [] n)))"
proof -
  let ?Z = "map (\<lambda>n. (n, 0::nat)) (bt_keys adj)"
  have ok: "bt_ok adj" using assms(1) by (simp add: adj_sets_def)
  have val: "\<exists>k. ts = targets adj k" if ts: "ts \<in> set (bt_values adj)" for ts
  proof -
    obtain k where "bt_get adj k = Some ts" using iffD1 [OF bt_values_get [OF ok] ts] ..
    then have "ts = targets adj k" by (simp add: targets_def)
    then show ?thesis by blast
  qed
  then have "\<forall>ts\<in>set (bt_values adj). distinct ts" using assms(1) by (auto simp: adj_sets_def)
  note cnt = count_concat_targets [OF ok this]
  have keys: "bt_keys ?Z = bt_keys adj" by (simp add: bt_keys_def o_def)
  have "set (concat (bt_values adj)) \<subseteq> set (bt_keys ?Z)" unfolding keys using val cl by auto
  from bump_fold [OF this] obtain D where D: "in_degrees adj = Some D" "map fst D = map fst ?Z"
    "\<forall>n d. bt_get ?Z n = Some d \<longrightarrow> bt_get D n = Some (d + count_list (concat (bt_values adj)) n)"
    unfolding in_degrees_def by blast
  have "bt_get (map (\<lambda>n. (n, 0::nat)) ks) n = Some 0" if "n \<in> set ks" for n and ks :: "string list"
    using that by (induction ks) auto
  then have "bt_get D n = Some (card (waiting adj [] n))" if "n \<in> nodes_of adj" for n
    using D(3) that by (simp add: cnt waiting_def)
  with D keys show ?thesis by (auto simp: bt_keys_def)
qed

lemma stable_kahn_order_total:
  assumes "graph_ok g"
  shows "\<exists>order. stable_kahn_order g = Some order \<and> distinct order \<and> set order \<subseteq> set (gr_nodes g) \<and>
     topological (stable_adjacency g) order \<and>
     (\<forall>n\<in>set (gr_nodes g) - set order. waiting (stable_adjacency g) order n \<noteq> {})"
proof -
  let ?adj = "stable_adjacency g"
  note a = stable_adjacency_props [OF assms]
  have cl: "set (targets ?adj m) \<subseteq> nodes_of ?adj" for m
    using a(2,3) assms by (auto simp: graph_ok_def)
  from in_degrees_Some [OF a(1) cl] obtain D where D: "in_degrees ?adj = Some D" "bt_keys D = bt_keys ?adj"
    "\<forall>n\<in>nodes_of ?adj. bt_get D n = Some (card (waiting ?adj [] n))" by blast
  let ?r = "map fst (filter (\<lambda>(_, d). d = 0) D)"
  have ok: "bt_ok D" using a(1) D(2) by (simp add: adj_sets_def bt_ok_def bt_keys_def)
  have r: "set ?r = {n \<in> nodes_of ?adj. bt_get D n = Some 0}"
    unfolding D(2) [symmetric] by (force simp: bt_get_Some_iff [OF ok] bt_keys_def)
  have "sorted_wrt (<) ?r" using ok unfolding bt_ok_def
    by (induction D) auto
  then have "kahn_inv ?adj D ?r [] []"
    using D(3) r by (simp add: kahn_inv_def topological_def strict_sorted_iff)
  from kahn_loop_result [OF this a(1) cl] D(1) show ?thesis
    by (simp add: stable_kahn_order_def a(3))
qed

lemma stable_kahn_order_acyclic:
  assumes "graph_ok g" "acyclic (edge_rel g)"
  shows "\<exists>order. stable_kahn_order g = Some order \<and> distinct order \<and> set order = set (gr_nodes g) \<and>
     (\<forall>i < length order. \<forall>m. (m, order ! i) \<in> edge_rel g \<longrightarrow> m \<in> set (take i order))"
proof -
  note a = stable_adjacency_props [OF assms(1)]
  from stable_kahn_order_total [OF assms(1)] obtain order where o: "stable_kahn_order g = Some order"
    "distinct order" "set order \<subseteq> set (gr_nodes g)" "topological (stable_adjacency g) order"
    "\<forall>n\<in>set (gr_nodes g) - set order. waiting (stable_adjacency g) order n \<noteq> {}" by blast
  have "edge_rel g \<subseteq> set (gr_nodes g) \<times> set (gr_nodes g)" using assms(1) by (simp add: graph_ok_def)
  note edges = this
  then have "wf (edge_rel g)"
    using finite_acyclic_wf [OF finite_subset [OF edges] assms(2)] by simp
  have "set (gr_nodes g) - set order = {}"
  proof (rule ccontr)
    assume "set (gr_nodes g) - set order \<noteq> {}"
    then obtain z where z: "z \<in> set (gr_nodes g) - set order"
      "\<And>y. (y, z) \<in> edge_rel g \<Longrightarrow> y \<notin> set (gr_nodes g) - set order"
      using \<open>wf (edge_rel g)\<close> by (metis wf_eq_minimal equals0I)
    with o(5) show False using a(2,3) by (fastforce simp: waiting_def)
  qed
  then have "set order = set (gr_nodes g)" using o(3) by blast
  moreover have "m \<in> set (take i order)" if "i < length order" "(m, order ! i) \<in> edge_rel g" for i m
    using o(4) that edges a(2,3) unfolding topological_def by blast
  ultimately show ?thesis using o(1,2) by blast
qed

section \<open>The closed path that is reported\<close>

text \<open>\<open>chain R a vs b\<close>: a walk from \<open>a\<close> to \<open>b\<close> with inner nodes \<open>vs\<close>.\<close>

fun chain :: "('a \<times> 'a) set \<Rightarrow> 'a \<Rightarrow> 'a list \<Rightarrow> 'a \<Rightarrow> bool" where
  "chain R a [] b = ((a, b) \<in> R)"
| "chain R a (v # vs) b = ((a, v) \<in> R \<and> chain R v vs b)"

lemma chain_append: "chain R a (us @ v # vs) b \<longleftrightarrow> chain R a us v \<and> chain R v vs b"
  by (induction us arbitrary: a) auto

lemma chain_trancl: "chain R a vs b \<Longrightarrow> (a, b) \<in> R\<^sup>+ \<and> (\<forall>v\<in>set vs. (a, v) \<in> R\<^sup>+ \<and> (v, b) \<in> R\<^sup>+)"
  by (induction vs arbitrary: a) (fastforce intro: trancl_into_trancl2)+

lemma trancl_chain: "(a, b) \<in> R\<^sup>+ \<Longrightarrow> \<exists>vs. chain R a vs b"
proof (induction rule: converse_trancl_induct)
  case (base y)
  then have "chain R y [] b" by simp
  then show ?case by blast
next
  case (step y z)
  then obtain vs where "chain R z vs b" by blast
  with step have "chain R y (z # vs) b" by simp
  then show ?case by blast
qed

lemma simple_chain:
  assumes "(a, b) \<in> R\<^sup>+"
  shows "\<exists>vs. chain R a vs b \<and> distinct vs \<and> b \<notin> set vs"
proof -
  obtain vs where vs: "chain R a vs b" "\<And>us. chain R a us b \<Longrightarrow> length vs \<le> length us"
    using trancl_chain [OF assms] ex_has_least_nat [of "\<lambda>vs. chain R a vs b" _ length] by blast
  have "distinct vs"
  proof (rule ccontr)
    assume "\<not> distinct vs"
    then obtain xs ys zs y where d: "vs = xs @ [y] @ ys @ [y] @ zs" using not_distinct_decomp by blast
    then have "chain R a (xs @ y # zs) b" using vs(1) by (auto simp: chain_append)
    with vs(2) d show False by fastforce
  qed
  moreover have "b \<notin> set vs"
  proof
    assume "b \<in> set vs"
    then obtain xs zs where d: "vs = xs @ b # zs" by (meson split_list)
    then have "chain R a xs b" using vs(1) by (auto simp: chain_append)
    with vs(2) d show False by fastforce
  qed
  ultimately show ?thesis using vs(1) by blast
qed

lemma find_closed_path_None:
  "find_closed_path start allowed adj path on_path ns = None \<Longrightarrow> n \<in> set ns \<Longrightarrow> n \<in> set allowed \<Longrightarrow>
     n \<noteq> start \<and> (n \<notin> on_path \<longrightarrow>
       find_closed_path start allowed adj (path @ [n]) (insert n on_path) (targets adj n) = None)"
proof (induction ns)
  case (Cons x ns)
  have "find_closed_path start allowed adj path on_path ns = None"
    using Cons.prems(1) by (auto split: if_splits option.splits)
  note IH = Cons.IH [OF this _ Cons.prems(3)]
  show ?case
  proof (cases "n = x")
    case True
    then show ?thesis using Cons.prems by (auto split: if_splits option.splits)
  qed (use IH Cons.prems in simp)
qed simp

abbreviation target_rel :: "adjacency \<Rightarrow> (plugin_id \<times> plugin_id) set" where
  "target_rel adj \<equiv> {(a, b). b \<in> set (targets adj a)}"

lemma find_closed_path_complete:
  "chain (target_rel adj) a vs start \<Longrightarrow> set vs \<subseteq> set allowed - on_path \<Longrightarrow> distinct vs \<Longrightarrow>
     start \<in> set allowed \<Longrightarrow> find_closed_path start allowed adj path on_path (targets adj a) \<noteq> None"
proof (induction vs arbitrary: a path on_path)
  case Nil
  then show ?case using find_closed_path_None [of start allowed adj path on_path "targets adj a" start] by auto
next
  case (Cons v vs)
  have "find_closed_path start allowed adj (path @ [v]) (insert v on_path) (targets adj v) \<noteq> None"
    using Cons.prems by (intro Cons.IH) auto
  moreover have "v \<in> set (targets adj a)" "v \<in> set allowed" "v \<notin> on_path" using Cons.prems by auto
  ultimately show ?case by (metis find_closed_path_None)
qed

text \<open>A reported path is a walk through the graph that returns to its start.\<close>

lemma find_closed_path_sound:
  "find_closed_path start allowed adj (start # us) on_path ns = Some closed \<Longrightarrow>
     set ns \<subseteq> set (targets adj (last (start # us))) \<Longrightarrow>
     (us \<noteq> [] \<longrightarrow> chain (target_rel adj) start (butlast us) (last us)) \<Longrightarrow>
     \<exists>vs. closed = start # vs @ [start] \<and> chain (target_rel adj) start vs start"
proof (induction start allowed adj "start # us" on_path ns arbitrary: us rule: find_closed_path.induct)
  case (2 start allowed adj on_path n ns)
  note step = find_closed_path.simps(2) [of start allowed adj "start # us" on_path n ns]
  have whole: "chain (target_rel adj) start us x" if "x \<in> set (targets adj (last (start # us)))" for x
    using that "2.prems"(3) chain_append [of "target_rel adj" start "butlast us" "last us" "[]" x]
    by (cases "us = []") auto
  consider (skip) "find_closed_path start allowed adj (start # us) on_path ns = Some closed"
      "n \<notin> set allowed \<or> n \<in> set allowed \<and> n \<noteq> start \<and> n \<in> on_path \<or> n \<in> set allowed \<and> n \<noteq> start \<and> n \<notin> on_path \<and>
        find_closed_path start allowed adj (start # us @ [n]) (insert n on_path) (targets adj n) = None"
    | (home) "n = start" "closed = start # us @ [start]"
    | (deep) "n \<in> set allowed" "n \<noteq> start" "n \<notin> on_path"
      "find_closed_path start allowed adj (start # us @ [n]) (insert n on_path) (targets adj n) = Some closed"
    using "2.prems"(1) step by (auto split: if_splits option.splits)
  then show ?case
  proof cases
    case skip
    then show ?thesis using "2.hyps"(1,3,4) "2.prems"(2,3) by auto
  next
    case home
    then show ?thesis using whole [of start] "2.prems"(2) by auto
  next
    case deep
    then show ?thesis using "2.hyps"(2) [of "us @ [n]"] whole [of n] "2.prems"(2) by auto
  qed
qed simp

section \<open>Cycle detection\<close>

text \<open>
  What \<open>kosaraju_scc\<close> documents: the components are not empty, every node is in one of them, and two
  nodes share a component exactly when each reaches the other.
\<close>

definition scc_of :: "dep_graph \<Rightarrow> plugin_id list list \<Rightarrow> bool" where
  "scc_of g comps \<longleftrightarrow>
     set (concat comps) = set (gr_nodes g) \<and>
     (\<forall>c\<in>set comps. c \<noteq> [] \<and> distinct c \<and>
        (\<forall>x\<in>set c. set c = {y \<in> set (gr_nodes g). (x, y) \<in> (edge_rel g)\<^sup>* \<and> (y, x) \<in> (edge_rel g)\<^sup>*}))"

definition scc_spec :: "(dep_graph \<Rightarrow> plugin_id list list) \<Rightarrow> bool" where
  "scc_spec scc \<longleftrightarrow> (\<forall>g. graph_ok g \<longrightarrow> scc_of g (scc g))"

lemma target_rel_edges: "graph_ok g \<Longrightarrow> target_rel (stable_adjacency g) = edge_rel g"
  using stable_adjacency_props(2) by auto

lemma canonical_cycle_sound:
  assumes "graph_ok g" "canonical_cycle scc g = Some path"
  shows "\<exists>start vs. path = start # vs @ [start] \<and> chain (edge_rel g) start vs start"
proof -
  let ?adj = "stable_adjacency g"
  obtain component start where
    "find_closed_path start component ?adj [start] {start} (targets ?adj start) = Some path"
    using assms(2) by (auto simp: canonical_cycle_def Let_def split: list.splits)
  then show ?thesis
    using find_closed_path_sound [of start component ?adj "[]" "{start}" "targets ?adj start" path]
      target_rel_edges [OF assms(1)] by auto
qed

lemma cyclic_component_iff:
  assumes "scc_of g comps" "c \<in> set comps" "x \<in> set c" "graph_ok g"
  shows "cyclic_component g c \<longleftrightarrow> (x, x) \<in> (edge_rel g)\<^sup>+"
proof -
  have c: "c \<noteq> []" "distinct c" "\<And>y. y \<in> set c \<Longrightarrow>
      set c = {z \<in> set (gr_nodes g). (y, z) \<in> (edge_rel g)\<^sup>* \<and> (z, y) \<in> (edge_rel g)\<^sup>*}"
    using assms(1,2) unfolding scc_of_def by blast+
  show ?thesis
  proof
    assume cy: "cyclic_component g c"
    show "(x, x) \<in> (edge_rel g)\<^sup>+"
    proof (cases "\<exists>y\<in>set c. y \<noteq> x")
      case True
      then obtain y where "y \<in> set c" "y \<noteq> x" by blast
      then have "(x, y) \<in> (edge_rel g)\<^sup>*" "(y, x) \<in> (edge_rel g)\<^sup>*" using c(3) [OF assms(3)] by blast+
      with \<open>y \<noteq> x\<close> show ?thesis by (meson rtranclD rtrancl_trancl_trancl)
    next
      case False
      then have "set c = {x}" using assms(3) by blast
      then have "c = [x]" using c(2) by (cases c rule: remdups_adj.cases) auto
      with cy have "(x, x) \<in> edge_rel g" by (auto simp: cyclic_component_def list_ex_iff edge_rel_def)
      then show ?thesis by blast
    qed
  next
    assume cy: "(x, x) \<in> (edge_rel g)\<^sup>+"
    then obtain y where y: "(x, y) \<in> edge_rel g" "(y, x) \<in> (edge_rel g)\<^sup>*" by (meson tranclD)
    show "cyclic_component g c"
    proof (cases "length c > 1")
      case False
      with c(1) have "c = [x]" using assms(3) by (cases c) auto
      moreover have "y \<in> set (gr_nodes g)" using y(1) assms(4) by (auto simp: graph_ok_def)
      ultimately have "y = x" using c(3) [OF assms(3)] y by auto
      with y \<open>c = [x]\<close> show ?thesis by (auto simp: cyclic_component_def list_ex_iff edge_rel_def)
    qed (simp add: cyclic_component_def)
  qed
qed

lemma canonical_cycle_complete:
  assumes g: "graph_ok g" and scc: "scc_of g (scc g)" and cyc: "\<not> acyclic (edge_rel g)"
  shows "canonical_cycle scc g \<noteq> None"
proof -
  let ?adj = "stable_adjacency g" and ?comps = "sort (map sort (filter (cyclic_component g) (scc g)))"
  obtain x where x: "(x, x) \<in> (edge_rel g)\<^sup>+" using cyc by (auto simp: acyclic_def)
  then have "x \<in> set (gr_nodes g)" using g by (meson graph_ok_def mem_Sigma_iff subsetD tranclD)
  then obtain c where "c \<in> set (scc g)" "x \<in> set c" using scc by (auto simp: scc_of_def)
  with x have "c \<in> set (filter (cyclic_component g) (scc g))" using cyclic_component_iff [OF scc _ _ g] by simp
  then have "?comps \<noteq> []" by (metis empty_iff empty_set length_0_conv length_map length_sort)
  then obtain comp rest where comp: "?comps = comp # rest" by (cases ?comps) auto
  then have "comp \<in> set ?comps" by simp
  then obtain c where c: "c \<in> set (scc g)" "cyclic_component g c" "comp = sort c" by auto
  then have "c \<noteq> []" using scc by (simp add: scc_of_def)
  then have "length comp \<noteq> 0" using c(3) by simp
  then obtain start tail where start: "comp = start # tail" by (cases comp) auto
  have sc: "set comp = set c" "start \<in> set c" using c(3) start by (simp, metis list.set_intros(1) set_sort)
  have set_c: "set c = {y \<in> set (gr_nodes g). (start, y) \<in> (edge_rel g)\<^sup>* \<and> (y, start) \<in> (edge_rel g)\<^sup>*}"
    using scc c(1) sc(2) unfolding scc_of_def by blast
  have "(start, start) \<in> (edge_rel g)\<^sup>+" using cyclic_component_iff [OF scc c(1) sc(2) g] c(2) by blast
  from simple_chain [OF this] obtain vs
    where vs: "chain (edge_rel g) start vs start" "distinct vs" "start \<notin> set vs" by (elim exE conjE)
  have "v \<in> set c" if "v \<in> set vs" for v
  proof -
    have t: "(start, v) \<in> (edge_rel g)\<^sup>+" "(v, start) \<in> (edge_rel g)\<^sup>+" using chain_trancl [OF vs(1)] that by auto
    then have "v \<in> set (gr_nodes g)" using g by (meson graph_ok_def mem_Sigma_iff subsetD tranclD)
    with t show ?thesis unfolding set_c by (simp add: trancl_into_rtrancl)
  qed
  then have "find_closed_path start comp ?adj [start] {start} (targets ?adj start) \<noteq> None"
    using vs sc by (intro find_closed_path_complete) (auto simp: target_rel_edges [OF g])
  then show ?thesis by (simp add: canonical_cycle_def comp start Let_def)
qed

lemma canonical_cycle_None_iff:
  assumes "graph_ok g" "scc_spec scc"
  shows "canonical_cycle scc g = None \<longleftrightarrow> acyclic (edge_rel g)"
proof
  assume "canonical_cycle scc g = None"
  then show "acyclic (edge_rel g)" using canonical_cycle_complete assms by (metis scc_spec_def)
next
  assume ac: "acyclic (edge_rel g)"
  show "canonical_cycle scc g = None"
  proof (rule ccontr)
    assume "canonical_cycle scc g \<noteq> None"
    then obtain start vs where "chain (edge_rel g) start vs start"
      using canonical_cycle_sound [OF assms(1)] by blast
    with ac chain_trancl show False by (metis acyclic_def)
  qed
qed

text \<open>The contract can be met: the components computed from mutual reachability.\<close>

definition scc_reference :: "dep_graph \<Rightarrow> plugin_id list list" where
  "scc_reference g =
     map (\<lambda>x. filter (\<lambda>y. (x, y) \<in> (edge_rel g)\<^sup>* \<and> (y, x) \<in> (edge_rel g)\<^sup>*) (gr_nodes g)) (gr_nodes g)"

lemma scc_reference_spec: "scc_spec scc_reference"
  unfolding scc_spec_def scc_of_def
proof (intro allI impI conjI ballI)
  fix g c x assume g: "graph_ok g" and c: "c \<in> set (scc_reference g)" and x: "x \<in> set c"
  then obtain a where a: "a \<in> set (gr_nodes g)"
    "c = filter (\<lambda>y. (a, y) \<in> (edge_rel g)\<^sup>* \<and> (y, a) \<in> (edge_rel g)\<^sup>*) (gr_nodes g)"
    by (auto simp: scc_reference_def)
  with x show "set c = {y \<in> set (gr_nodes g). (x, y) \<in> (edge_rel g)\<^sup>* \<and> (y, x) \<in> (edge_rel g)\<^sup>*}"
    by (auto intro: rtrancl_trans)
qed (auto simp: scc_reference_def graph_ok_def filter_empty_conv)

end
