(* ===== verification/Resolver.thy ===== *)
theory Resolver
  imports Activation_Order
begin

text \<open>
  \<open>resolve_activation_plan\<close> of \<^verbatim>\<open>crates/rho-extension-runtime/src/resolver.rs\<close>: normalise and check the
  descriptors of one scope, collect its providers next to those of the parent plan, bind every
  requirement, refuse cycles and order the plugins. The function returns \<open>Rejected e\<close> where the code
  returns the error \<open>e\<close>, and \<open>Panicked\<close> where an index, an \<open>expect\<close> or an assertion would panic.
\<close>

section \<open>Data\<close>

datatype requirement_kind = Required | Optional

instantiation requirement_kind :: linorder
begin

fun less_eq_requirement_kind :: "requirement_kind \<Rightarrow> requirement_kind \<Rightarrow> bool" where
  "less_eq_requirement_kind Optional Required = False"
| "less_eq_requirement_kind _ _ = True"

definition less_requirement_kind :: "requirement_kind \<Rightarrow> requirement_kind \<Rightarrow> bool" where
  "less_requirement_kind a b \<longleftrightarrow> a \<le> b \<and> \<not> b \<le> a"

instance
proof
  fix x y z :: requirement_kind
  show "x < y \<longleftrightarrow> x \<le> y \<and> \<not> y \<le> x" by (rule less_requirement_kind_def)
  show "x \<le> x" by (cases x) simp_all
  show "x \<le> y \<Longrightarrow> y \<le> z \<Longrightarrow> x \<le> z" by (cases x; cases y; cases z) simp_all
  show "x \<le> y \<Longrightarrow> y \<le> x \<Longrightarrow> x = y" by (cases x; cases y) simp_all
  show "x \<le> y \<or> y \<le> x" by (cases x; cases y) simp_all
qed

end

datatype binding_resolution = Provider provider_identity | AbsentOptional

record requirement_binding =
  rb_requirement :: capability_requirement
  rb_kind :: requirement_kind
  rb_resolution :: binding_resolution

record activation_plan =
  ap_scope :: scope_identity
  ap_activation_order :: "plugin_id list"
  ap_bindings :: "(plugin_id, requirement_binding list) btree"
  ap_effective_providers :: "(capability_id, provider_identity) btree"
  ap_diagnostics :: "extension_diagnostic list"

datatype resolve_error = Rejected extension_error | Panicked

definition provider_key ::
  "provider_identity \<Rightarrow> plugin_id \<times> scope_kind_id \<times> scope_id \<times> scope_id option \<times> u64 \<times> u64" where
  "provider_key p =
     (pv_plugin_id p, si_kind (pv_scope p), si_id (pv_scope p), si_parent_id (pv_scope p),
      si_generation (pv_scope p), pv_contract_major p)"

section \<open>Providers\<close>

definition add_provider ::
  "scope_identity \<Rightarrow> (capability_id, provider_identity list) btree \<Rightarrow> plugin_id \<times> capability_declaration \<Rightarrow>
   (capability_id, provider_identity list) btree" where
  "add_provider scope m d =
     (let cap = cd_capability_id (snd d) in
      bt_insert cap
        ((case bt_get m cap of None \<Rightarrow> [] | Some ps \<Rightarrow> ps) @
         [\<lparr>pv_plugin_id = fst d, pv_scope = scope, pv_contract_major = cd_contract_major (snd d)\<rparr>]) m)"

definition declarations :: "'ver plugin_descriptor list \<Rightarrow> (plugin_id \<times> capability_declaration) list" where
  "declarations ds = concat (map (\<lambda>d. map (Pair (pd_id d)) (pd_provides d)) ds)"

definition current_providers ::
  "scope_identity \<Rightarrow> 'ver plugin_descriptor list \<Rightarrow> (capability_id, provider_identity list) btree" where
  "current_providers scope ds = foldl (add_provider scope) bt_empty (declarations ds)"

definition check_provider ::
  "(capability_id, provider_identity) btree \<Rightarrow> capability_id \<times> provider_identity list \<Rightarrow>
   (extension_error, unit) result" where
  "check_provider parent e =
     (let providers = sort_key provider_key (snd e) in
      if length providers > 1 then Err (DuplicateProvider (fst e) providers)
      else
        (case bt_get parent (fst e) of
           Some q \<Rightarrow> Err (DuplicateProvider (fst e) (sort_key provider_key [q, hd providers]))
         | None \<Rightarrow> Ok ()))"

definition merge_providers ::
  "(capability_id, provider_identity) btree \<Rightarrow> (capability_id, provider_identity list) btree \<Rightarrow>
   (capability_id, provider_identity) btree" where
  "merge_providers parent current = foldl (\<lambda>m (cap, ps). bt_insert cap (hd ps) m) parent current"

section \<open>Binding the requirements of one descriptor\<close>

record bind_state =
  bs_edge_count :: nat
  bs_edges :: "(plugin_id \<times> plugin_id \<times> capability_id) list"
  bs_diagnostics :: "extension_diagnostic list"
  bs_plugin_bindings :: "requirement_binding list"

definition requirements_of :: "'ver plugin_descriptor \<Rightarrow> (capability_requirement \<times> requirement_kind) list" where
  "requirements_of d =
     sort_key (\<lambda>(r, k). (cr_capability_id r, k))
       (map (\<lambda>r. (r, Required)) (pd_requires d) @ map (\<lambda>r. (r, Optional)) (pd_optional d))"

definition bind_requirement ::
  "scope_identity \<Rightarrow> (capability_id, provider_identity) btree \<Rightarrow> plugin_id list \<Rightarrow> plugin_id \<Rightarrow>
   bind_state \<Rightarrow> capability_requirement \<times> requirement_kind \<Rightarrow> (resolve_error, bind_state) result" where
  "bind_requirement scope effective nodes consumer st rk =
     (let r = fst rk; kind = snd rk in
      case bt_get effective (cr_capability_id r) of
        None \<Rightarrow>
          if kind = Required
          then Err (Rejected (MissingRequiredCapability consumer (cr_capability_id r) (cr_contract_major r)))
          else Ok (st\<lparr>bs_diagnostics := bs_diagnostics st @
                        [optional_absent consumer (cr_capability_id r) (si_id scope)],
                      bs_plugin_bindings := bs_plugin_bindings st @
                        [\<lparr>rb_requirement = r, rb_kind = kind, rb_resolution = AbsentOptional\<rparr>]\<rparr>)
      | Some provider \<Rightarrow>
          if pv_contract_major provider \<noteq> cr_contract_major r
          then Err (Rejected (IncompatibleCapabilityMajor consumer (cr_capability_id r)
                 (cr_contract_major r) (pv_contract_major provider) (pv_plugin_id provider)))
          else if bs_edge_count st + 1 > MAX_RESOLVED_EDGES
          then Err (Rejected (LimitExceeded ResolvedEdges (Some consumer) (bs_edge_count st + 1) MAX_RESOLVED_EDGES))
          else if pv_scope provider = scope \<and> (pv_plugin_id provider \<notin> set nodes \<or> consumer \<notin> set nodes)
          then Err Panicked
          else Ok (st\<lparr>bs_edge_count := bs_edge_count st + 1,
                      bs_edges := bs_edges st @
                        (if pv_scope provider = scope
                         then [(pv_plugin_id provider, consumer, cr_capability_id r)] else []),
                      bs_plugin_bindings := bs_plugin_bindings st @
                        [\<lparr>rb_requirement = r, rb_kind = kind, rb_resolution = Provider provider\<rparr>]\<rparr>))"

definition bind_descriptor ::
  "scope_identity \<Rightarrow> (capability_id, provider_identity) btree \<Rightarrow> plugin_id list \<Rightarrow>
   bind_state \<times> (plugin_id, requirement_binding list) btree \<Rightarrow> 'ver plugin_descriptor \<Rightarrow>
   (resolve_error, bind_state \<times> (plugin_id, requirement_binding list) btree) result" where
  "bind_descriptor scope effective nodes acc d =
     try_res (fold_res (bind_requirement scope effective nodes (pd_id d))
                ((fst acc)\<lparr>bs_plugin_bindings := []\<rparr>) (requirements_of d))
       (\<lambda>st. Ok (st, bt_insert (pd_id d) (bs_plugin_bindings st) (snd acc)))"

section \<open>The resolver\<close>

definition prepare :: "('ver :: linorder) plugin_descriptor list \<Rightarrow> 'ver plugin_descriptor list" where
  "prepare ds = sort_key descriptor_key (map normalize_descriptor ds)"

text \<open>The end of the function, once every requirement is bound.\<close>

definition order_plan ::
  "(dep_graph \<Rightarrow> plugin_id list list) \<Rightarrow> scope_identity \<Rightarrow> (capability_id, provider_identity) btree \<Rightarrow>
   plugin_id list \<Rightarrow> bind_state \<times> (plugin_id, requirement_binding list) btree \<Rightarrow>
   (resolve_error, activation_plan) result" where
  "order_plan scc scope effective nodes acc =
     (let g = \<lparr>gr_nodes = nodes, gr_edges = bs_edges (fst acc)\<rparr> in
      case canonical_cycle scc g of
        Some path \<Rightarrow> Err (Rejected (DependencyCycle path))
      | None \<Rightarrow>
          (case stable_kahn_order g of
             None \<Rightarrow> Err Panicked
           | Some order \<Rightarrow>
               if length order \<noteq> length nodes then Err Panicked
               else Ok \<lparr>ap_scope = scope, ap_activation_order = order, ap_bindings = snd acc,
                       ap_effective_providers = effective,
                       ap_diagnostics = bs_diagnostics (fst acc)\<rparr>))"

definition resolve_prepared ::
  "(dep_graph \<Rightarrow> plugin_id list list) \<Rightarrow> scope_identity \<Rightarrow> (capability_id, provider_identity) btree \<Rightarrow>
   'ver plugin_descriptor list \<Rightarrow> (resolve_error, activation_plan) result" where
  "resolve_prepared scc scope inherited ds =
     (case find_window (\<lambda>a b. pd_id a = pd_id b) ds of
        Some (a, _) \<Rightarrow> Err (Rejected (DuplicatePlugin (pd_id a)))
      | None \<Rightarrow>
          try_res (map_err Rejected (for_each (\<lambda>d. validate_for_scope d (si_kind scope)) ds)) (\<lambda>_.
          let current = current_providers scope ds in
          try_res (map_err Rejected (for_each (check_provider inherited) current)) (\<lambda>_.
          let effective = merge_providers inherited current;
              nodes = map pd_id ds in
          try_res (fold_res (bind_descriptor scope effective nodes)
              (\<lparr>bs_edge_count = 0, bs_edges = [], bs_diagnostics = [], bs_plugin_bindings = []\<rparr>, bt_empty) ds)
            (order_plan scc scope effective nodes))))"

definition resolve_activation_plan ::
  "(dep_graph \<Rightarrow> plugin_id list list) \<Rightarrow> scope_policy \<Rightarrow> scope_identity \<Rightarrow> activation_plan option \<Rightarrow>
   ('ver :: linorder) plugin_descriptor list \<Rightarrow> (resolve_error, activation_plan) result" where
  "resolve_activation_plan scc policy scope parent_plan ds =
     try_res (map_err Rejected (validate_identity policy scope (map_option ap_scope parent_plan))) (\<lambda>_.
     if length ds > MAX_PLUGINS_PER_SCOPE
     then Err (Rejected (LimitExceeded PluginsPerScope None (length ds) MAX_PLUGINS_PER_SCOPE))
     else resolve_prepared scc scope
            (case parent_plan of None \<Rightarrow> bt_empty | Some plan \<Rightarrow> ap_effective_providers plan) (prepare ds))"

section \<open>Order independence\<close>

lemma sort_key_mset_eq:
  "mset xs = mset ys \<Longrightarrow> inj_on f (set xs) \<Longrightarrow> sort_key f xs = sort_key f ys"
  by (metis mset_sort properties_for_sort_key sort_key_inj_key_eq sorted_sort_key)

lemma inj_decl_key: "inj decl_key" and inj_req_key: "inj req_key"
  by (auto simp: inj_def decl_key_def req_key_def)

lemma inj_descriptor_key: "inj descriptor_key"
proof (rule injI)
  fix a b :: "'a plugin_descriptor"
  assume e: "descriptor_key a = descriptor_key b"
  obtain p where "pd_activation_policy a = p" "pd_activation_policy b = p"
    by (metis activation_policy.exhaust)
  with e show "a = b"
    by (auto simp: descriptor_key_def inj_map_eq_map inj_decl_key inj_req_key)
qed

lemma prepare_mset: "mset (map normalize_descriptor ds) = mset (map normalize_descriptor ds') \<Longrightarrow> prepare ds = prepare ds'"
  unfolding prepare_def by (rule sort_key_mset_eq) (auto intro: inj_on_subset inj_descriptor_key)

lemma resolve_order_independent:
  assumes "mset (map normalize_descriptor ds) = mset (map normalize_descriptor ds')"
  shows "resolve_activation_plan scc policy scope parent ds = resolve_activation_plan scc policy scope parent ds'"
proof -
  have "length ds = length ds'" using mset_eq_length [OF assms] by simp
  with prepare_mset [OF assms] show ?thesis by (simp add: resolve_activation_plan_def)
qed

section \<open>Providers of the scope\<close>

definition mk_provider :: "scope_identity \<Rightarrow> plugin_id \<times> capability_declaration \<Rightarrow> provider_identity" where
  "mk_provider scope d = \<lparr>pv_plugin_id = fst d, pv_scope = scope, pv_contract_major = cd_contract_major (snd d)\<rparr>"

definition declared :: "scope_identity \<Rightarrow> (plugin_id \<times> capability_declaration) list \<Rightarrow> capability_id \<Rightarrow> provider_identity list" where
  "declared scope decls cap = map (mk_provider scope) (filter (\<lambda>d. cd_capability_id (snd d) = cap) decls)"

lemma foldl_add_provider:
  "bt_ok m \<Longrightarrow> bt_ok (foldl (add_provider scope) m decls) \<and>
     bt_get (foldl (add_provider scope) m decls) cap =
       (if declared scope decls cap = [] then bt_get m cap
        else Some ((case bt_get m cap of None \<Rightarrow> [] | Some ps \<Rightarrow> ps) @ declared scope decls cap))"
proof (induction decls arbitrary: m)
  case (Cons d decls)
  have "bt_ok (add_provider scope m d)" using Cons.prems by (simp add: add_provider_def Let_def)
  from Cons.IH [OF this] show ?case
    by (simp add: add_provider_def declared_def mk_provider_def Let_def split: option.split)
qed (simp add: declared_def)

lemma current_providers_get:
  "bt_ok (current_providers scope ds)"
  "bt_get (current_providers scope ds) cap =
     (let ps = declared scope (declarations ds) cap in if ps = [] then None else Some ps)"
  using foldl_add_provider [of "bt_empty :: (capability_id, provider_identity list) btree" scope "declarations ds" cap]
  by (simp_all add: current_providers_def Let_def)

lemma merge_providers_get:
  "bt_ok parent \<Longrightarrow> bt_ok current \<Longrightarrow> bt_ok (merge_providers parent current) \<and>
     bt_get (merge_providers parent current) cap =
       (case bt_get current cap of Some ps \<Rightarrow> Some (hd ps) | None \<Rightarrow> bt_get parent cap)"
  unfolding merge_providers_def
proof (induction current arbitrary: parent)
  case (Cons e current)
  obtain c ps where e: "e = (c, ps)" by (cases e)
  have ok: "bt_ok current" and c: "bt_get current c = None"
    using Cons.prems(2) by (auto simp: e bt_ok_def bt_get_None_iff bt_keys_def)
  have "bt_ok (bt_insert c (hd ps) parent)" using Cons.prems(1) by blast
  from Cons.IH [OF this ok] c show ?case by (auto simp: e split: option.splits)
qed simp

lemma declaration_mem:
  "(i, c) \<in> set (declarations ds) \<longleftrightarrow> (\<exists>d\<in>set ds. pd_id d = i \<and> c \<in> set (pd_provides d))"
  by (auto simp: declarations_def)

text \<open>What the effective providers are once every check has passed.\<close>

definition providers_ok ::
  "scope_identity \<Rightarrow> (capability_id, provider_identity) btree \<Rightarrow> 'ver plugin_descriptor list \<Rightarrow>
   (capability_id, provider_identity) btree \<Rightarrow> bool" where
  "providers_ok scope inherited ds effective \<longleftrightarrow>
     (\<forall>cap p. bt_get inherited cap = Some p \<longrightarrow> bt_get effective cap = Some p) \<and>
     (\<forall>d\<in>set ds. \<forall>c\<in>set (pd_provides d).
        bt_get inherited (cd_capability_id c) = None \<and>
        bt_get effective (cd_capability_id c) = Some (mk_provider scope (pd_id d, c))) \<and>
     (\<forall>cap p. bt_get effective cap = Some p \<longrightarrow> bt_get inherited cap = Some p \<or>
        (\<exists>d\<in>set ds. \<exists>c\<in>set (pd_provides d). cd_capability_id c = cap \<and> p = mk_provider scope (pd_id d, c)))"

lemma check_provider_Ok:
  "check_provider inherited (cap, ps) = Ok () \<longleftrightarrow> length ps \<le> 1 \<and> bt_get inherited cap = None"
  by (auto simp: check_provider_def Let_def split: option.splits)

lemma checked_providers:
  assumes "bt_ok inherited" and "for_each (check_provider inherited) (current_providers scope ds) = Ok ()"
  shows "providers_ok scope inherited ds (merge_providers inherited (current_providers scope ds))"
proof -
  let ?cur = "current_providers scope ds" and ?eff = "merge_providers inherited (current_providers scope ds)"
  have chk: "length ps \<le> 1 \<and> bt_get inherited cap = None" if "bt_get ?cur cap = Some ps" for cap ps
    using assms(2) bt_get_SomeD [OF that] check_provider_Ok by (metis for_each_Ok_iff)
  note cur = current_providers_get(2) [of scope ds, unfolded Let_def]
  note eff = merge_providers_get [OF assms(1) current_providers_get(1), THEN conjunct2, of scope ds]
  show ?thesis
    unfolding providers_ok_def
  proof (intro conjI allI impI ballI)
    fix cap p assume "bt_get inherited cap = Some p"
    with chk [of cap] show "bt_get ?eff cap = Some p" by (cases "bt_get ?cur cap") (auto simp: eff)
  next
    fix d c assume d: "d \<in> set ds" "c \<in> set (pd_provides d)"
    let ?ps = "declared scope (declarations ds) (cd_capability_id c)"
    have m: "mk_provider scope (pd_id d, c) \<in> set ?ps"
      using d declaration_mem [of "pd_id d" c ds] by (auto simp: declared_def)
    then have g: "bt_get ?cur (cd_capability_id c) = Some ?ps" by (auto simp: cur)
    from chk [OF this] m have "?ps = [mk_provider scope (pd_id d, c)]" by (cases ?ps) auto
    with g chk [OF g] show "bt_get inherited (cd_capability_id c) = None"
      "bt_get ?eff (cd_capability_id c) = Some (mk_provider scope (pd_id d, c))"
      by (simp_all add: eff)
  next
    fix cap p assume p: "bt_get ?eff cap = Some p"
    show "bt_get inherited cap = Some p \<or>
        (\<exists>d\<in>set ds. \<exists>c\<in>set (pd_provides d). cd_capability_id c = cap \<and> p = mk_provider scope (pd_id d, c))"
    proof (cases "bt_get ?cur cap")
      case (Some ps)
      then have "ps = declared scope (declarations ds) cap" "ps \<noteq> []" by (auto simp: cur split: if_splits)
      moreover have "p = hd ps" using p Some by (simp add: eff)
      ultimately have "p \<in> set (declared scope (declarations ds) cap)" by simp
      then show ?thesis by (auto simp: declared_def declaration_mem) blast
    qed (use p in \<open>simp add: eff\<close>)
  qed
qed

section \<open>Bindings\<close>

definition good_binding :: "(capability_id, provider_identity) btree \<Rightarrow> requirement_binding \<Rightarrow> bool" where
  "good_binding effective b =
     (case rb_resolution b of
        Provider p \<Rightarrow> bt_get effective (cr_capability_id (rb_requirement b)) = Some p \<and>
          pv_contract_major p = cr_contract_major (rb_requirement b)
      | AbsentOptional \<Rightarrow> rb_kind b = Optional \<and>
          bt_get effective (cr_capability_id (rb_requirement b)) = None)"

definition binding_edges :: "scope_identity \<Rightarrow> plugin_id \<Rightarrow> requirement_binding list \<Rightarrow> (plugin_id \<times> plugin_id) set" where
  "binding_edges scope consumer bs =
     {(pv_plugin_id p, consumer) | b p. b \<in> set bs \<and> rb_resolution b = Provider p \<and> pv_scope p = scope}"

abbreviation pairs :: "(plugin_id \<times> plugin_id \<times> capability_id) list \<Rightarrow> (plugin_id \<times> plugin_id) set" where
  "pairs es \<equiv> {(a, b). \<exists>c. (a, b, c) \<in> set es}"

text \<open>Everything one successful requirement adds to the state.\<close>

definition binds ::
  "scope_identity \<Rightarrow> (capability_id, provider_identity) btree \<Rightarrow> plugin_id list \<Rightarrow> plugin_id \<Rightarrow>
   (capability_requirement \<times> requirement_kind) list \<Rightarrow> bind_state \<Rightarrow> bind_state \<Rightarrow>
   requirement_binding list \<Rightarrow> bool" where
  "binds scope effective nodes consumer rks st st' bs \<longleftrightarrow>
     bs_plugin_bindings st' = bs_plugin_bindings st @ bs \<and>
     map (\<lambda>b. (rb_requirement b, rb_kind b)) bs = rks \<and>
     (\<forall>b\<in>set bs. good_binding effective b) \<and>
     pairs (bs_edges st') = pairs (bs_edges st) \<union> binding_edges scope consumer bs \<and>
     binding_edges scope consumer bs \<subseteq> set nodes \<times> set nodes \<and>
     (bs_edge_count st \<le> MAX_RESOLVED_EDGES \<longrightarrow> bs_edge_count st' \<le> MAX_RESOLVED_EDGES)"

lemma bind_requirement_binds:
  assumes "bind_requirement scope effective nodes consumer st (r, k) = Ok st'"
  shows "\<exists>b. binds scope effective nodes consumer [(r, k)] st st' [b]"
proof (cases "bt_get effective (cr_capability_id r)")
  case None
  let ?b = "\<lparr>rb_requirement = r, rb_kind = k, rb_resolution = AbsentOptional\<rparr>"
  have "k = Optional" using assms None by (cases k) (simp_all add: bind_requirement_def)
  then have "binds scope effective nodes consumer [(r, k)] st st' [?b]"
    using assms None by (auto simp: bind_requirement_def binds_def good_binding_def binding_edges_def)
  then show ?thesis by blast
next
  case (Some p)
  let ?b = "\<lparr>rb_requirement = r, rb_kind = k, rb_resolution = Provider p\<rparr>"
  have "binds scope effective nodes consumer [(r, k)] st st' [?b]"
    using assms Some
    by (auto simp: bind_requirement_def binds_def good_binding_def binding_edges_def split: if_splits)
  then show ?thesis by blast
qed

lemma binds_trans:
  assumes "binds scope effective nodes consumer rks st st1 bs" "binds scope effective nodes consumer rks' st1 st' bs'"
  shows "binds scope effective nodes consumer (rks @ rks') st st' (bs @ bs')"
proof -
  have "binding_edges scope consumer (bs @ bs') = binding_edges scope consumer bs \<union> binding_edges scope consumer bs'"
    by (auto simp: binding_edges_def)
  with assms show ?thesis unfolding binds_def by auto
qed

lemma bind_requirements:
  "fold_res (bind_requirement scope effective nodes consumer) st rks = Ok st' \<Longrightarrow>
     \<exists>bs. binds scope effective nodes consumer rks st st' bs"
proof (induction rks arbitrary: st)
  case Nil
  then have "binds scope effective nodes consumer [] st st' []" by (simp add: binds_def binding_edges_def)
  then show ?case by blast
next
  case (Cons rk rks)
  then obtain st1 where st1: "bind_requirement scope effective nodes consumer st rk = Ok st1"
    "fold_res (bind_requirement scope effective nodes consumer) st1 rks = Ok st'"
    by (auto simp: try_res_Ok_iff)
  obtain r k where rk: "rk = (r, k)" by (cases rk)
  from bind_requirement_binds st1(1) rk obtain b
    where "binds scope effective nodes consumer [rk] st st1 [b]" by blast
  moreover from Cons.IH [OF st1(2)] obtain bs where "binds scope effective nodes consumer rks st1 st' bs" by blast
  ultimately have "binds scope effective nodes consumer ([rk] @ rks) st st' ([b] @ bs)" by (rule binds_trans)
  then show ?case by auto
qed

text \<open>What the loop over the descriptors has established about one of them.\<close>

definition bound ::
  "scope_identity \<Rightarrow> (capability_id, provider_identity) btree \<Rightarrow> (plugin_id \<times> plugin_id) set \<Rightarrow>
   (plugin_id, requirement_binding list) btree \<Rightarrow> 'ver plugin_descriptor \<Rightarrow> bool" where
  "bound scope effective edges bindings d \<longleftrightarrow>
     (\<exists>bs. bt_get bindings (pd_id d) = Some bs \<and>
        map (\<lambda>b. (rb_requirement b, rb_kind b)) bs = requirements_of d \<and>
        (\<forall>b\<in>set bs. good_binding effective b) \<and>
        binding_edges scope (pd_id d) bs \<subseteq> edges)"

lemma bind_descriptor_Ok:
  "bind_descriptor scope effective nodes acc d = Ok acc' \<longleftrightarrow>
     (\<exists>st. fold_res (bind_requirement scope effective nodes (pd_id d)) ((fst acc)\<lparr>bs_plugin_bindings := []\<rparr>)
        (requirements_of d) = Ok st \<and> acc' = (st, bt_insert (pd_id d) (bs_plugin_bindings st) (snd acc)))"
  by (auto simp: bind_descriptor_def try_res_Ok_iff)

text \<open>The edges a scope may have: from the provider of a needed capability to the plugin needing it.\<close>

definition need_rel ::
  "scope_identity \<Rightarrow> (capability_id, provider_identity) btree \<Rightarrow> 'ver plugin_descriptor list \<Rightarrow>
   (plugin_id \<times> plugin_id) set" where
  "need_rel scope effective ds =
     {(pv_plugin_id p, pd_id d) | p d r k. d \<in> set ds \<and> (r, k) \<in> set (requirements_of d) \<and>
        bt_get effective (cr_capability_id r) = Some p \<and> pv_scope p = scope}"

lemma binds_need:
  assumes "binds scope effective nodes (pd_id d) (requirements_of d) st st' bs"
  shows "binding_edges scope (pd_id d) bs \<subseteq> need_rel scope effective [d]"
proof
  fix e assume "e \<in> binding_edges scope (pd_id d) bs"
  then obtain b p where b: "b \<in> set bs" "rb_resolution b = Provider p" "pv_scope p = scope"
    "e = (pv_plugin_id p, pd_id d)" by (auto simp: binding_edges_def)
  have "(rb_requirement b, rb_kind b) \<in> set (map (\<lambda>b. (rb_requirement b, rb_kind b)) bs)" using b(1) by simp
  moreover have "map (\<lambda>b. (rb_requirement b, rb_kind b)) bs = requirements_of d" using assms by (simp add: binds_def)
  ultimately have "(rb_requirement b, rb_kind b) \<in> set (requirements_of d)" by metis
  moreover have "bt_get effective (cr_capability_id (rb_requirement b)) = Some p"
    using assms b by (auto simp: binds_def good_binding_def)
  ultimately show "e \<in> need_rel scope effective [d]" using b(3,4) by (auto simp: need_rel_def)
qed

lemma need_rel_Cons: "need_rel scope effective (d # ds) = need_rel scope effective [d] \<union> need_rel scope effective ds"
  unfolding need_rel_def list.set by blast

lemma bind_descriptors:
  "fold_res (bind_descriptor scope effective nodes) (st, m) ds = Ok (st', m') \<Longrightarrow>
     distinct (map pd_id ds) \<Longrightarrow> pairs (bs_edges st) \<subseteq> set nodes \<times> set nodes \<Longrightarrow>
     pairs (bs_edges st) \<subseteq> pairs (bs_edges st') \<and> pairs (bs_edges st') \<subseteq> set nodes \<times> set nodes \<and>
     pairs (bs_edges st') \<subseteq> pairs (bs_edges st) \<union> need_rel scope effective ds \<and>
     (\<forall>i. i \<notin> set (map pd_id ds) \<longrightarrow> bt_get m' i = bt_get m i) \<and>
     (\<forall>d\<in>set ds. bound scope effective (pairs (bs_edges st')) m' d)"
proof (induction ds arbitrary: st m)
  case (Cons d ds)
  from Cons.prems(1) obtain st1 where
    f: "fold_res (bind_requirement scope effective nodes (pd_id d)) (st\<lparr>bs_plugin_bindings := []\<rparr>)
        (requirements_of d) = Ok st1"
    and rest: "fold_res (bind_descriptor scope effective nodes)
        (st1, bt_insert (pd_id d) (bs_plugin_bindings st1) m) ds = Ok (st', m')"
    by (auto simp: bind_descriptor_Ok try_res_Ok_iff)
  from bind_requirements [OF f] obtain bs
    where bs: "binds scope effective nodes (pd_id d) (requirements_of d) (st\<lparr>bs_plugin_bindings := []\<rparr>) st1 bs" by blast
  have e1: "pairs (bs_edges st1) = pairs (bs_edges st) \<union> binding_edges scope (pd_id d) bs"
    "binding_edges scope (pd_id d) bs \<subseteq> set nodes \<times> set nodes" "bs_plugin_bindings st1 = bs"
    using bs by (simp_all add: binds_def)
  have "pairs (bs_edges st1) \<subseteq> set nodes \<times> set nodes" using e1 Cons.prems(3) by simp
  note IH = Cons.IH [OF rest _ this]
  have dist: "distinct (map pd_id ds)" "pd_id d \<notin> set (map pd_id ds)" using Cons.prems(2) by simp_all
  have get: "bt_get m' (pd_id d) = Some bs" using IH [OF dist(1)] dist(2) e1(3) by simp
  have mono: "pairs (bs_edges st1) \<subseteq> pairs (bs_edges st')" using IH [OF dist(1)] by blast
  have "binding_edges scope (pd_id d) bs \<subseteq> pairs (bs_edges st')" using e1(1) mono by blast
  then have "bound scope effective (pairs (bs_edges st')) m' d"
    unfolding bound_def using get bs unfolding binds_def by blast
  moreover have "pairs (bs_edges st') \<subseteq> pairs (bs_edges st) \<union> need_rel scope effective (d # ds)"
    using IH [OF dist(1)] e1(1) binds_need [OF bs] need_rel_Cons [of scope effective d ds] by blast
  ultimately show ?case using IH [OF dist(1)] mono e1(1) dist(2) by auto
qed simp

section \<open>Plans\<close>

text \<open>\<open>before order a b\<close>: \<open>a\<close> is activated before \<open>b\<close>.\<close>

definition before :: "plugin_id list \<Rightarrow> plugin_id \<Rightarrow> plugin_id \<Rightarrow> bool" where
  "before order a b \<longleftrightarrow> (\<exists>i < length order. order ! i = b \<and> a \<in> set (take i order))"

lemma kahn_before:
  assumes "graph_ok g" "acyclic (edge_rel g)" "stable_kahn_order g = Some order"
  shows "distinct order" "set order = set (gr_nodes g)" "\<And>a c. (a, c) \<in> edge_rel g \<Longrightarrow> before order a c"
proof -
  from stable_kahn_order_acyclic [OF assms(1,2)] assms(3)
  have order: "distinct order" "set order = set (gr_nodes g)"
    "\<And>i m. i < length order \<Longrightarrow> (m, order ! i) \<in> edge_rel g \<Longrightarrow> m \<in> set (take i order)" by auto
  then show "distinct order" "set order = set (gr_nodes g)" by blast+
  fix a c assume e: "(a, c) \<in> edge_rel g"
  then have "c \<in> set order" using assms(1) order(2) by (auto simp: graph_ok_def)
  then obtain i where "i < length order" "order ! i = c" by (auto simp: in_set_conv_nth)
  with order(3) e show "before order a c" unfolding before_def by blast
qed

definition binding_ok :: "activation_plan \<Rightarrow> plugin_id \<Rightarrow> requirement_binding \<Rightarrow> bool" where
  "binding_ok plan consumer b \<longleftrightarrow>
     good_binding (ap_effective_providers plan) b \<and>
     (\<forall>p. rb_resolution b = Provider p \<and> pv_scope p = ap_scope plan \<longrightarrow>
        before (ap_activation_order plan) (pv_plugin_id p) consumer)"

definition plan_ok ::
  "scope_identity \<Rightarrow> (capability_id, provider_identity) btree \<Rightarrow> 'ver plugin_descriptor list \<Rightarrow> activation_plan \<Rightarrow> bool" where
  "plan_ok scope inherited ds plan \<longleftrightarrow>
     ap_scope plan = scope \<and> distinct (ap_activation_order plan) \<and>
     set (ap_activation_order plan) = set (map pd_id ds) \<and> distinct (map pd_id ds) \<and>
     providers_ok scope inherited ds (ap_effective_providers plan) \<and>
     (\<forall>d\<in>set ds. descriptor_ok d (si_kind scope) \<and>
        (\<exists>bs. bt_get (ap_bindings plan) (pd_id d) = Some bs \<and>
           set (map (\<lambda>b. (rb_requirement b, rb_kind b)) bs) =
             (\<lambda>r. (r, Required)) ` set (pd_requires d) \<union> (\<lambda>r. (r, Optional)) ` set (pd_optional d) \<and>
           (\<forall>b\<in>set bs. binding_ok plan (pd_id d) b)))"

lemma set_requirements_of:
  "set (requirements_of d) = (\<lambda>r. (r, Required)) ` set (pd_requires d) \<union> (\<lambda>r. (r, Optional)) ` set (pd_optional d)"
  by (simp add: requirements_of_def)

abbreviation empty_bind_state :: bind_state where
  "empty_bind_state \<equiv> \<lparr>bs_edge_count = 0, bs_edges = [], bs_diagnostics = [], bs_plugin_bindings = []\<rparr>"

lemma resolve_prepared_Ok:
  assumes "resolve_prepared scc scope inherited ds = Ok plan"
  shows "find_window (\<lambda>a b. pd_id a = pd_id b) ds = None"
    and "\<forall>d\<in>set ds. validate_for_scope d (si_kind scope) = Ok ()"
    and "for_each (check_provider inherited) (current_providers scope ds) = Ok ()"
    and "ap_scope plan = scope"
    and "ap_effective_providers plan = merge_providers inherited (current_providers scope ds)"
    and "\<exists>st g. fold_res (bind_descriptor scope (ap_effective_providers plan) (map pd_id ds))
            (empty_bind_state, bt_empty) ds = Ok (st, ap_bindings plan) \<and>
          g = \<lparr>gr_nodes = map pd_id ds, gr_edges = bs_edges st\<rparr> \<and>
          canonical_cycle scc g = None \<and> stable_kahn_order g = Some (ap_activation_order plan)"
  using assms
  by (auto simp: resolve_prepared_def order_plan_def try_res_Ok_iff Let_def split: option.splits if_splits)

lemma resolve_prepared_plan:
  assumes "resolve_prepared scc scope inherited (prepare ds) = Ok plan" and "scc_spec scc" "bt_ok inherited"
  shows "plan_ok scope inherited ds plan"
proof -
  let ?ds = "prepare ds" and ?eff = "ap_effective_providers plan" and ?order = "ap_activation_order plan"
  note r = resolve_prepared_Ok [OF assms(1)]
  have ms: "mset ?ds = mset (map normalize_descriptor ds)" by (simp add: prepare_def)
  have ids: "mset (map pd_id ?ds) = mset (map pd_id ds)"
    using arg_cong [OF ms, of "image_mset pd_id"] by (simp add: o_def multiset.map_comp)
  have set_ds: "set ?ds = normalize_descriptor ` set ds" by (simp add: prepare_def)
  have "sorted (map descriptor_key ?ds)" by (simp add: prepare_def)
  then have "sorted (map pd_id ?ds)" unfolding descriptor_key_def [abs_def] by (rule sorted_fst_of_key)
  with r(1) have d: "distinct (map pd_id ?ds)" using find_window_key_None by blast
  then have dist: "distinct (map pd_id ds)" using mset_eq_imp_distinct_iff [OF ids] by blast
  from r(6) obtain st g where
    f: "fold_res (bind_descriptor scope ?eff (map pd_id ?ds)) (empty_bind_state, bt_empty) ?ds = Ok (st, ap_bindings plan)"
    and g: "g = \<lparr>gr_nodes = map pd_id ?ds, gr_edges = bs_edges st\<rparr>"
      "canonical_cycle scc g = None" "stable_kahn_order g = Some ?order" by blast
  note b = bind_descriptors [OF f d]
  have gok: "graph_ok g" using b d by (simp add: g graph_ok_def edge_rel_def)
  then have "acyclic (edge_rel g)" using canonical_cycle_None_iff assms(2) g(2) by blast
  note order = kahn_before [OF gok this g(3)]
  have ord: "before ?order a c" if "(a, c) \<in> pairs (bs_edges st)" for a c
    using order(3) that by (simp add: g edge_rel_def)
  have provs: "providers_ok scope inherited ds ?eff"
    using checked_providers [OF assms(3) r(3)] by (simp add: r(5) providers_ok_def set_ds)
  show ?thesis
    unfolding plan_ok_def
  proof (intro conjI ballI)
    show "set ?order = set (map pd_id ds)" using order(2) mset_eq_setD [OF ids] by (simp add: g)
  next
    fix x assume x: "x \<in> set ds"
    then have "validate_for_scope (normalize_descriptor x) (si_kind scope) = Ok ()" using r(2) set_ds by blast
    then show "descriptor_ok x (si_kind scope)" by (simp add: validate_for_scope_Ok)
    have "bound scope ?eff (pairs (bs_edges st)) (ap_bindings plan) (normalize_descriptor x)" using b x set_ds by simp
    then obtain bs where bs: "bt_get (ap_bindings plan) (pd_id x) = Some bs"
      "map (\<lambda>b. (rb_requirement b, rb_kind b)) bs = requirements_of (normalize_descriptor x)"
      "\<forall>b\<in>set bs. good_binding ?eff b" "binding_edges scope (pd_id x) bs \<subseteq> pairs (bs_edges st)"
      unfolding bound_def by auto
    have "binding_ok plan (pd_id x) b" if "b \<in> set bs" for b
      using bs(3,4) that ord unfolding binding_ok_def binding_edges_def r(4) by blast
    then show "\<exists>bs. bt_get (ap_bindings plan) (pd_id x) = Some bs \<and>
        set (map (\<lambda>b. (rb_requirement b, rb_kind b)) bs) =
          (\<lambda>r. (r, Required)) ` set (pd_requires x) \<union> (\<lambda>r. (r, Optional)) ` set (pd_optional x) \<and>
        (\<forall>b\<in>set bs. binding_ok plan (pd_id x) b)"
      using bs(1) arg_cong [OF bs(2), of set] by (auto simp: set_requirements_of)
  qed (use r(4) order(1) dist provs in auto)
qed

section \<open>Panics and cycles\<close>

text \<open>The plans of the enclosing scopes never mention the scope being resolved.\<close>

definition foreign :: "scope_identity \<Rightarrow> (capability_id, provider_identity) btree \<Rightarrow> bool" where
  "foreign scope inherited \<longleftrightarrow> bt_ok inherited \<and> (\<forall>cap p. bt_get inherited cap = Some p \<longrightarrow> pv_scope p \<noteq> scope)"

lemma effective_local:
  assumes "providers_ok scope inherited ds effective" "foreign scope inherited"
    and "bt_get effective cap = Some p" "pv_scope p = scope"
  shows "\<exists>d\<in>set ds. \<exists>c\<in>set (pd_provides d). cd_capability_id c = cap \<and> pv_plugin_id p = pd_id d"
proof -
  have "bt_get inherited cap \<noteq> Some p" using assms(2,4) by (auto simp: foreign_def)
  then show ?thesis using assms(1,3) unfolding providers_ok_def mk_provider_def by fastforce
qed

lemma bind_requirement_no_panic:
  assumes "\<And>cap p. bt_get effective cap = Some p \<Longrightarrow> pv_scope p = scope \<Longrightarrow> pv_plugin_id p \<in> set nodes"
    and "consumer \<in> set nodes"
  shows "bind_requirement scope effective nodes consumer st rk \<noteq> Err Panicked"
  using assms by (auto simp: bind_requirement_def Let_def split: option.splits)

lemma bind_descriptors_no_panic:
  assumes "\<And>cap p. bt_get effective cap = Some p \<Longrightarrow> pv_scope p = scope \<Longrightarrow> pv_plugin_id p \<in> set nodes"
    and "set (map pd_id ds) \<subseteq> set nodes"
  shows "fold_res (bind_descriptor scope effective nodes) acc ds \<noteq> Err Panicked"
proof
  assume "fold_res (bind_descriptor scope effective nodes) acc ds = Err Panicked"
  from fold_res_Err [OF this] obtain acc' d where d: "d \<in> set ds"
    "bind_descriptor scope effective nodes acc' d = Err Panicked" by blast
  then have "fold_res (bind_requirement scope effective nodes (pd_id d)) ((fst acc')\<lparr>bs_plugin_bindings := []\<rparr>)
      (requirements_of d) = Err Panicked"
    by (auto simp: bind_descriptor_def try_res_def split: sum.splits)
  from fold_res_Err [OF this] bind_requirement_no_panic [OF assms(1)] d(1) assms(2) show False by auto
qed

text \<open>The common part of a resolution: after the checks the graph of the scope is well formed.\<close>

lemma resolve_graph:
  assumes "foreign scope inherited" and "distinct (map pd_id ds)"
    and "for_each (check_provider inherited) (current_providers scope ds) = Ok ()"
    and "fold_res (bind_descriptor scope (merge_providers inherited (current_providers scope ds)) (map pd_id ds))
           (empty_bind_state, bt_empty) ds = Ok (st, m)"
  shows "graph_ok \<lparr>gr_nodes = map pd_id ds, gr_edges = bs_edges st\<rparr>"
    and "edge_rel \<lparr>gr_nodes = map pd_id ds, gr_edges = bs_edges st\<rparr> \<subseteq>
      need_rel scope (merge_providers inherited (current_providers scope ds)) ds"
  using bind_descriptors [OF assms(4,2)] assms(2) by (auto simp: graph_ok_def edge_rel_def)

lemma prepare_ids:
  "sorted (map pd_id (prepare ds))" "mset (map pd_id (prepare ds)) = mset (map pd_id ds)"
proof -
  have "sorted (map descriptor_key (prepare ds))" by (simp add: prepare_def)
  then show "sorted (map pd_id (prepare ds))" unfolding descriptor_key_def [abs_def] by (rule sorted_fst_of_key)
  have "mset (prepare ds) = mset (map normalize_descriptor ds)" by (simp add: prepare_def)
  from arg_cong [OF this, of "image_mset pd_id"]
  show "mset (map pd_id (prepare ds)) = mset (map pd_id ds)" by (simp add: o_def multiset.map_comp)
qed

lemma order_plan_no_panic:
  assumes "scc_spec scc" and ok: "graph_ok \<lparr>gr_nodes = nodes, gr_edges = bs_edges (fst acc)\<rparr>"
  shows "order_plan scc scope effective nodes acc \<noteq> Err Panicked"
proof (cases "canonical_cycle scc \<lparr>gr_nodes = nodes, gr_edges = bs_edges (fst acc)\<rparr>")
  case None
  then have ac: "acyclic (edge_rel \<lparr>gr_nodes = nodes, gr_edges = bs_edges (fst acc)\<rparr>)"
    using canonical_cycle_None_iff [OF ok assms(1)] by blast
  from stable_kahn_order_acyclic [OF ok ac] obtain order where
    o: "stable_kahn_order \<lparr>gr_nodes = nodes, gr_edges = bs_edges (fst acc)\<rparr> = Some order"
      "distinct order" "set order = set nodes" by auto
  have "distinct nodes" using ok by (simp add: graph_ok_def)
  with o(2,3) have "length order = length nodes" using distinct_card by metis
  with None o(1) show ?thesis by (simp add: order_plan_def)
qed (simp add: order_plan_def)

text \<open>How an error can arise once the providers are settled.\<close>

lemma resolve_prepared_late_error:
  assumes "resolve_prepared scc scope inherited (prepare ds) = Err e"
    and "e = Panicked \<or> (\<exists>path. e = Rejected (DependencyCycle path))"
  shows "distinct (map pd_id (prepare ds))"
    and "for_each (check_provider inherited) (current_providers scope (prepare ds)) = Ok ()"
    and "\<exists>effective. effective = merge_providers inherited (current_providers scope (prepare ds)) \<and>
      (fold_res (bind_descriptor scope effective (map pd_id (prepare ds))) (empty_bind_state, bt_empty) (prepare ds) = Err e \<or>
       (\<exists>acc. fold_res (bind_descriptor scope effective (map pd_id (prepare ds))) (empty_bind_state, bt_empty)
            (prepare ds) = Ok acc \<and> order_plan scc scope effective (map pd_id (prepare ds)) acc = Err e))"
proof -
  let ?ds = "prepare ds"
  let ?v = "for_each (\<lambda>d. validate_for_scope d (si_kind scope)) ?ds"
  let ?c = "for_each (check_provider inherited) (current_providers scope ?ds)"
  have w: "find_window (\<lambda>a b. pd_id a = pd_id b) ?ds = None"
    using assms by (auto simp: resolve_prepared_def split: option.splits)
  then show "distinct (map pd_id ?ds)" using find_window_key_None [OF prepare_ids(1)] by blast
  have v: "?v = Ok ()"
  proof (cases ?v)
    case (Inl e')
    from for_each_Err [OF Inl] obtain ys d zs
      where "?ds = ys @ d # zs" "validate_for_scope d (si_kind scope) = Err e'" by blast
    from this(2) have "\<nexists>path. e' = DependencyCycle path"
      by (auto simp: validate_for_scope_def err_when_def split: if_splits option.splits)
    with Inl w assms show ?thesis by (auto simp: resolve_prepared_def)
  qed simp
  show c: "?c = Ok ()"
  proof (cases ?c)
    case (Inl e')
    from for_each_Err [OF Inl] obtain x where "check_provider inherited x = Err e'" by blast
    then have "\<nexists>path. e' = DependencyCycle path"
      by (auto simp: check_provider_def Let_def split: if_splits option.splits)
    with Inl w v assms show ?thesis by (auto simp: resolve_prepared_def simp del: for_each_Ok_iff)
  qed simp
  show "\<exists>effective. effective = merge_providers inherited (current_providers scope ?ds) \<and>
      (fold_res (bind_descriptor scope effective (map pd_id ?ds)) (empty_bind_state, bt_empty) ?ds = Err e \<or>
       (\<exists>acc. fold_res (bind_descriptor scope effective (map pd_id ?ds)) (empty_bind_state, bt_empty) ?ds = Ok acc \<and>
          order_plan scc scope effective (map pd_id ?ds) acc = Err e))"
    using assms(1) w v c
    by (cases "fold_res (bind_descriptor scope (merge_providers inherited (current_providers scope ?ds)) (map pd_id ?ds))
        (empty_bind_state, bt_empty) ?ds") (auto simp: resolve_prepared_def Let_def simp del: for_each_Ok_iff)
qed

lemma resolve_prepared_no_panic:
  assumes "scc_spec scc" "foreign scope inherited"
  shows "resolve_prepared scc scope inherited (prepare ds) \<noteq> Err Panicked"
proof
  let ?ds = "prepare ds" and ?eff = "merge_providers inherited (current_providers scope (prepare ds))"
  assume p: "resolve_prepared scc scope inherited ?ds = Err Panicked"
  note l = resolve_prepared_late_error [OF p disjI1 [OF refl]]
  have ok: "bt_ok inherited" using assms(2) by (simp add: foreign_def)
  have "pv_plugin_id q \<in> set (map pd_id ?ds)" if "bt_get ?eff cap = Some q" "pv_scope q = scope" for cap q
    using effective_local [OF checked_providers [OF ok l(2)] assms(2) that] by auto
  then have "fold_res (bind_descriptor scope ?eff (map pd_id ?ds)) (empty_bind_state, bt_empty) ?ds \<noteq> Err Panicked"
    by (intro bind_descriptors_no_panic) blast+
  with l(3) obtain acc where
    acc: "fold_res (bind_descriptor scope ?eff (map pd_id ?ds)) (empty_bind_state, bt_empty) ?ds = Ok acc"
      "order_plan scc scope ?eff (map pd_id ?ds) acc = Err Panicked" by blast
  have "graph_ok \<lparr>gr_nodes = map pd_id ?ds, gr_edges = bs_edges (fst acc)\<rparr>"
    using resolve_graph(1) [OF assms(2) l(1,2), of "fst acc" "snd acc"] acc(1) by simp
  with order_plan_no_panic [OF assms(1)] acc(2) show False by blast
qed

text \<open>A plugin depends on another when it needs a capability the other one provides.\<close>

definition depends_on :: "'ver plugin_descriptor list \<Rightarrow> (plugin_id \<times> plugin_id) set" where
  "depends_on ds =
     {(pd_id a, pd_id b) | a b c r. a \<in> set ds \<and> b \<in> set ds \<and> c \<in> set (pd_provides a) \<and>
        r \<in> set (pd_requires b) \<union> set (pd_optional b) \<and> cr_capability_id r = cd_capability_id c}"

lemma depends_onI:
  "a \<in> set ds \<Longrightarrow> b \<in> set ds \<Longrightarrow> c \<in> set (pd_provides a) \<Longrightarrow> r \<in> set (pd_requires b) \<union> set (pd_optional b) \<Longrightarrow>
     cr_capability_id r = cd_capability_id c \<Longrightarrow> (pd_id a, pd_id b) \<in> depends_on ds"
  unfolding depends_on_def by blast

lemma chain_mono: "chain R a vs b \<Longrightarrow> R \<subseteq> S \<Longrightarrow> chain S a vs b"
  by (induction vs arbitrary: a) auto

lemma need_rel_depends_on:
  assumes "providers_ok scope inherited ds effective" "foreign scope inherited"
  shows "need_rel scope effective ds \<subseteq> depends_on ds"
proof
  fix e assume "e \<in> need_rel scope effective ds"
  then obtain p b r k where e: "e = (pv_plugin_id p, pd_id b)" "b \<in> set ds" "(r, k) \<in> set (requirements_of b)"
    "bt_get effective (cr_capability_id r) = Some p" "pv_scope p = scope"
    unfolding need_rel_def by blast
  from effective_local [OF assms e(4,5)] obtain a c where a: "a \<in> set ds" "c \<in> set (pd_provides a)"
    "cd_capability_id c = cr_capability_id r" "pv_plugin_id p = pd_id a" by blast
  have "r \<in> set (pd_requires b) \<union> set (pd_optional b)" using e(3) by (auto simp: set_requirements_of)
  with a e(1,2) show "e \<in> depends_on ds" unfolding depends_on_def by (simp only: mem_Collect_eq) metis
qed

lemma depends_on_prepare: "depends_on (prepare ds) = depends_on ds"
proof -
  have s: "set (prepare ds) = normalize_descriptor ` set ds" by (simp add: prepare_def)
  have "depends_on (prepare ds) = {(pd_id (normalize_descriptor a), pd_id (normalize_descriptor b)) | a b c r.
      a \<in> set ds \<and> b \<in> set ds \<and> c \<in> set (pd_provides (normalize_descriptor a)) \<and>
      r \<in> set (pd_requires (normalize_descriptor b)) \<union> set (pd_optional (normalize_descriptor b)) \<and>
      cr_capability_id r = cd_capability_id c}"
    unfolding depends_on_def s by blast
  then show ?thesis by (simp add: depends_on_def)
qed

lemma bind_requirement_not_cycle:
  "bind_requirement scope effective nodes consumer st rk \<noteq> Err (Rejected (DependencyCycle path))"
  by (auto simp: bind_requirement_def Let_def split: option.splits)

lemma bind_descriptors_not_cycle:
  "fold_res (bind_descriptor scope effective nodes) acc ds \<noteq> Err (Rejected (DependencyCycle path))"
proof
  assume "fold_res (bind_descriptor scope effective nodes) acc ds = Err (Rejected (DependencyCycle path))"
  from fold_res_Err [OF this] obtain acc' d where "d \<in> set ds"
    "bind_descriptor scope effective nodes acc' d = Err (Rejected (DependencyCycle path))" by blast
  then have "fold_res (bind_requirement scope effective nodes (pd_id d)) ((fst acc')\<lparr>bs_plugin_bindings := []\<rparr>)
      (requirements_of d) = Err (Rejected (DependencyCycle path))"
    by (auto simp: bind_descriptor_def try_res_def split: sum.splits)
  from fold_res_Err [OF this] bind_requirement_not_cycle show False by blast
qed

lemma resolve_prepared_cycle:
  assumes "resolve_prepared scc scope inherited (prepare ds) = Err (Rejected (DependencyCycle path))"
    and "foreign scope inherited"
  shows "\<exists>start vs. path = start # vs @ [start] \<and> chain (depends_on ds) start vs start"
proof -
  let ?ds = "prepare ds" and ?eff = "merge_providers inherited (current_providers scope (prepare ds))"
  note l = resolve_prepared_late_error [OF assms(1)]
  have ok: "bt_ok inherited" using assms(2) by (simp add: foreign_def)
  from l(3) bind_descriptors_not_cycle obtain acc where
    acc: "fold_res (bind_descriptor scope ?eff (map pd_id ?ds)) (empty_bind_state, bt_empty) ?ds = Ok acc"
      "order_plan scc scope ?eff (map pd_id ?ds) acc = Err (Rejected (DependencyCycle path))" by blast
  let ?g = "\<lparr>gr_nodes = map pd_id ?ds, gr_edges = bs_edges (fst acc)\<rparr>"
  have g: "graph_ok ?g" "edge_rel ?g \<subseteq> need_rel scope ?eff ?ds"
    using resolve_graph [OF assms(2) l(1,2), of "fst acc" "snd acc"] acc(1) by auto
  have "canonical_cycle scc ?g = Some path"
    using acc(2) by (auto simp: order_plan_def Let_def split: option.splits if_splits)
  from canonical_cycle_sound [OF g(1) this] obtain start vs
    where p: "path = start # vs @ [start]" "chain (edge_rel ?g) start vs start" by blast
  have "edge_rel ?g \<subseteq> depends_on ds"
    using g(2) need_rel_depends_on [OF checked_providers [OF ok l(2)] assms(2)] depends_on_prepare by blast
  from chain_mono [OF p(2) this] p(1) show ?thesis by blast
qed

end
