(* ===== verification/Resolver_Properties.thy ===== *)
theory Resolver_Properties
  imports Resolver
begin

text \<open>
  The properties of activation planning that its callers rely on, with a scope of two plugins, one
  needing what the other provides, as the running example.
\<close>

section \<open>Supporting lemmas\<close>

definition inherited_providers :: "activation_plan option \<Rightarrow> (capability_id, provider_identity) btree" where
  "inherited_providers parent = (case parent of None \<Rightarrow> bt_empty | Some plan \<Rightarrow> ap_effective_providers plan)"

lemma resolve_Ok_prepared:
  "resolve_activation_plan scc policy scope parent ds = Ok plan \<Longrightarrow>
     validate_identity policy scope (map_option ap_scope parent) = Ok () \<and>
     length ds \<le> MAX_PLUGINS_PER_SCOPE \<and>
     resolve_prepared scc scope (inherited_providers parent) (prepare ds) = Ok plan"
  by (auto simp: resolve_activation_plan_def inherited_providers_def try_res_Ok_iff split: if_splits)

lemma position_nth:
  assumes "distinct xs" "i < length xs"
  shows "length (takeWhile (\<lambda>y. y \<noteq> xs ! i) xs) = i"
proof -
  have "takeWhile (\<lambda>y. y \<noteq> xs ! i) xs = take i xs"
    using assms by (intro takeWhile_eq_take_P_nth) (auto simp: nth_eq_iff_index_eq)
  then show ?thesis using assms(2) by simp
qed

lemma before_position:
  assumes "distinct order" "before order a b"
  shows "length (takeWhile (\<lambda>y. y \<noteq> a) order) < length (takeWhile (\<lambda>y. y \<noteq> b) order)"
proof -
  obtain i where i: "i < length order" "order ! i = b" "a \<in> set (take i order)"
    using assms(2) by (auto simp: before_def)
  then obtain j where "j < i" "order ! j = a" by (auto simp: in_set_conv_nth)
  with i position_nth [OF assms(1), of i] position_nth [OF assms(1), of j] show ?thesis by auto
qed

lemma plan_orders_dependencies:
  assumes "plan_ok scope inherited ds plan" "(x, y) \<in> depends_on ds"
  shows "before (ap_activation_order plan) x y"
proof -
  from assms(2) obtain a b c r where d: "x = pd_id a" "y = pd_id b" "a \<in> set ds" "b \<in> set ds"
    "c \<in> set (pd_provides a)" "r \<in> set (pd_requires b) \<union> set (pd_optional b)"
    "cr_capability_id r = cd_capability_id c" unfolding depends_on_def by blast
  note p = assms(1) [unfolded plan_ok_def]
  have eff: "bt_get (ap_effective_providers plan) (cr_capability_id r) = Some (mk_provider scope (pd_id a, c))"
    using p d(3,5,7) unfolding providers_ok_def by simp
  from p d(4) obtain bs where bs: "set (map (\<lambda>b. (rb_requirement b, rb_kind b)) bs) =
      (\<lambda>r. (r, Required)) ` set (pd_requires b) \<union> (\<lambda>r. (r, Optional)) ` set (pd_optional b)"
    "\<forall>e\<in>set bs. binding_ok plan (pd_id b) e" by blast
  have "r \<in> fst ` set (map (\<lambda>b. (rb_requirement b, rb_kind b)) bs)" unfolding bs(1) using d(6) by force
  then obtain e where e: "e \<in> set bs" "rb_requirement e = r" by auto
  have ok: "binding_ok plan (pd_id b) e" using bs(2) e(1) by blast
  then have "rb_resolution e = Provider (mk_provider scope (pd_id a, c))"
    using eff e(2) by (auto simp: binding_ok_def good_binding_def split: binding_resolution.splits)
  then show ?thesis using ok p d(1,2) by (auto simp: binding_ok_def mk_provider_def)
qed

lemma plan_acyclic:
  assumes "plan_ok scope inherited ds plan"
  shows "acyclic (depends_on ds)"
proof -
  let ?f = "\<lambda>x. length (takeWhile (\<lambda>y. y \<noteq> x) (ap_activation_order plan))"
  have "depends_on ds \<subseteq> inv_image less_than ?f"
    using plan_orders_dependencies [OF assms] before_position assms by (auto simp: plan_ok_def)
  moreover have "acyclic (inv_image less_than ?f)" by (rule wf_acyclic) (rule wf_inv_image [OF wf_less_than])
  ultimately show ?thesis by (rule acyclic_subset [rotated])
qed

section \<open>The running example\<close>

definition demo_scope :: scope_identity where
  "demo_scope = \<lparr>si_kind = ''p'', si_id = ''s'', si_parent_id = None, si_generation = 1\<rparr>"

definition demo_policy :: scope_policy where
  "demo_policy = \<lparr>sp_rules = [(''p'', None)]\<rparr>"

definition demo_provider :: "nat plugin_descriptor" where
  "demo_provider = (PluginDescriptor_new ''z'' 1 [''p''])\<lparr>
     pd_provides := [\<lparr>cd_capability_id = ''c'', cd_contract_major = 1\<rparr>]\<rparr>"

definition demo_consumer :: "nat plugin_descriptor" where
  "demo_consumer = (PluginDescriptor_new ''a'' 1 [''p''])\<lparr>
     pd_requires := [\<lparr>cr_capability_id = ''c'', cr_contract_major = 1\<rparr>]\<rparr>"

abbreviation demo_graph :: dep_graph where
  "demo_graph \<equiv> \<lparr>gr_nodes = [''a'', ''z''], gr_edges = [(''z'', ''a'', ''c'')]\<rparr>"

lemma demo_graph_facts:
  "canonical_cycle scc_reference demo_graph = None" "stable_kahn_order demo_graph = Some [''z'', ''a'']"
proof -
  have "graph_ok demo_graph" by (auto simp: graph_ok_def edge_rel_def)
  moreover have "acyclic (edge_rel demo_graph)"
    by (rule acyclicI_order [where f = "\<lambda>k. if k = ''z'' then 1 else (0::nat)"]) (auto simp: edge_rel_def)
  ultimately show "canonical_cycle scc_reference demo_graph = None"
    using canonical_cycle_None_iff scc_reference_spec by blast
  show "stable_kahn_order demo_graph = Some [''z'', ''a'']" by code_simp
qed

definition demo_bindings :: "bind_state \<times> (plugin_id, requirement_binding list) btree" where
  "demo_bindings =
     (case fold_res (bind_descriptor demo_scope
          [(''c'', \<lparr>pv_plugin_id = ''z'', pv_scope = demo_scope, pv_contract_major = 1\<rparr>)] [''a'', ''z''])
          (empty_bind_state, bt_empty) [demo_consumer, demo_provider] of
        Inr r \<Rightarrow> r | Inl _ \<Rightarrow> (empty_bind_state, bt_empty))"

lemma demo_resolves:
  "\<exists>plan. resolve_activation_plan scc_reference demo_policy demo_scope None [demo_provider, demo_consumer] = Ok plan"
proof -
  have p: "prepare [demo_provider, demo_consumer] = [demo_consumer, demo_provider]" by code_simp
  have w: "find_window (\<lambda>a b. pd_id a = pd_id b) [demo_consumer, demo_provider] = None" by code_simp
  have v: "for_each (\<lambda>d. validate_for_scope d (si_kind demo_scope)) [demo_consumer, demo_provider] = Ok ()" by code_simp
  have c: "for_each (check_provider bt_empty) (current_providers demo_scope [demo_consumer, demo_provider]) = Ok ()"
    by code_simp
  have b: "fold_res (bind_descriptor demo_scope
        (merge_providers bt_empty (current_providers demo_scope [demo_consumer, demo_provider])) [''a'', ''z''])
      (empty_bind_state, bt_empty) [demo_consumer, demo_provider] = Ok demo_bindings" by code_simp
  have e: "bs_edges (fst demo_bindings) = [(''z'', ''a'', ''c'')]" by code_simp
  have n: "map pd_id [demo_consumer, demo_provider] = [''a'', ''z'']" by code_simp
  have i: "validate_identity demo_policy demo_scope None = Ok ()" by code_simp
  have "\<exists>plan. order_plan scc_reference demo_scope eff [''a'', ''z''] demo_bindings = Ok plan" for eff
    by (simp add: order_plan_def e demo_graph_facts)
  then show ?thesis
    unfolding resolve_activation_plan_def resolve_prepared_def Let_def p n w option.case
    by (simp add: v c b i MAX_PLUGINS_PER_SCOPE_def del: for_each.simps fold_res.simps)
qed

section \<open>Properties\<close>

text \<open>C10. A resolved plan is right: its order lists every plugin of the scope once, the descriptors were
  valid for the scope, every capability has exactly one provider (inherited or declared here), every
  requirement of every plugin is bound, required ones to a provider with the requested contract major,
  and a provider of the same scope is activated before its consumer.\<close>

theorem resolved_plan_correct:
  assumes "scc_spec scc" and "bt_ok (inherited_providers parent)"
    and "resolve_activation_plan scc policy scope parent ds = Ok plan"
  shows "plan_ok scope (inherited_providers parent) ds plan \<and>
     validate_identity policy scope (map_option ap_scope parent) = Ok () \<and> length ds \<le> MAX_PLUGINS_PER_SCOPE"
  using resolve_Ok_prepared [OF assms(3)] resolve_prepared_plan [OF _ assms(1,2)] by blast

theorem resolved_plan_correct_witness:
  "\<exists>plan. resolve_activation_plan scc_reference demo_policy demo_scope None [demo_provider, demo_consumer] = Ok plan \<and>
     plan_ok demo_scope bt_empty [demo_provider, demo_consumer] plan"
proof -
  obtain plan where r: "resolve_activation_plan scc_reference demo_policy demo_scope None
      [demo_provider, demo_consumer] = Ok plan" using demo_resolves by blast
  have "bt_ok (inherited_providers None)" by (simp add: inherited_providers_def)
  from resolved_plan_correct [OF scc_reference_spec this r] r show ?thesis
    by (auto simp: inherited_providers_def)
qed

text \<open>C11. Activation respects dependencies: in a resolved plan each plugin comes after every plugin of the
  scope that provides a capability it requires or optionally uses, so the dependencies have no cycle.\<close>

theorem resolved_order_topological:
  assumes "scc_spec scc" and "bt_ok (inherited_providers parent)"
    and "resolve_activation_plan scc policy scope parent ds = Ok plan"
  shows "(\<forall>x y. (x, y) \<in> depends_on ds \<longrightarrow> before (ap_activation_order plan) x y) \<and> acyclic (depends_on ds)"
proof -
  have "plan_ok scope (inherited_providers parent) ds plan"
    using resolve_Ok_prepared [OF assms(3)] resolve_prepared_plan [OF _ assms(1,2)] by blast
  then show ?thesis using plan_orders_dependencies plan_acyclic by blast
qed

theorem resolved_order_topological_witness:
  "\<exists>plan. resolve_activation_plan scc_reference demo_policy demo_scope None [demo_provider, demo_consumer] = Ok plan \<and>
     before (ap_activation_order plan) ''z'' ''a''"
proof -
  obtain plan where r: "resolve_activation_plan scc_reference demo_policy demo_scope None
      [demo_provider, demo_consumer] = Ok plan" using demo_resolves by blast
  have "bt_ok (inherited_providers None)" by (simp add: inherited_providers_def)
  note t = resolved_order_topological [OF scc_reference_spec this r]
  have "(pd_id demo_provider, pd_id demo_consumer) \<in> depends_on [demo_provider, demo_consumer]"
    by (rule depends_onI [of _ _ _ "\<lparr>cd_capability_id = ''c'', cd_contract_major = 1\<rparr>"
          "\<lparr>cr_capability_id = ''c'', cr_contract_major = 1\<rparr>"]) (simp_all add: demo_provider_def demo_consumer_def)
  moreover have "pd_id demo_provider = ''z''" "pd_id demo_consumer = ''a''"
    by (simp_all add: demo_provider_def demo_consumer_def PluginDescriptor_new_def)
  ultimately have "before (ap_activation_order plan) ''z'' ''a''" using t by metis
  with r show ?thesis by blast
qed

text \<open>C12. Resolution does not depend on the order in which descriptors, or the entries inside them, are
  supplied: inputs that agree up to reordering give the same plan or the same error.\<close>

theorem resolution_deterministic:
  assumes "mset (map normalize_descriptor ds) = mset (map normalize_descriptor ds')"
  shows "resolve_activation_plan scc policy scope parent ds = resolve_activation_plan scc policy scope parent ds'"
  using assms by (rule resolve_order_independent)

theorem resolution_deterministic_witness:
  "resolve_activation_plan scc_reference demo_policy demo_scope None [demo_provider, demo_consumer] =
   resolve_activation_plan scc_reference demo_policy demo_scope None [demo_consumer, demo_provider]"
  by (rule resolution_deterministic) simp



text \<open>C14. A reported dependency cycle is real: the path returns to its start, and each plugin on it provides
  a capability that the next one needs.\<close>

theorem reported_cycle_is_real:
  assumes "foreign scope (inherited_providers parent)"
    and "resolve_activation_plan scc policy scope parent ds = Err (Rejected (DependencyCycle path))"
  shows "\<exists>start vs. path = start # vs @ [start] \<and> chain (depends_on ds) start vs start"
proof -
  have "resolve_prepared scc scope (inherited_providers parent) (prepare ds) = Err (Rejected (DependencyCycle path))"
  proof (cases "validate_identity policy scope (map_option ap_scope parent)")
    case (Inl e)
    then have "\<nexists>path. e = DependencyCycle path"
      by (auto simp: validate_identity_def invalid_parent_def split: option.splits if_splits)
    with Inl assms(2) show ?thesis by (auto simp: resolve_activation_plan_def)
  qed (use assms(2) in \<open>auto simp: resolve_activation_plan_def inherited_providers_def split: if_splits\<close>)
  then show ?thesis using assms(1) by (rule resolve_prepared_cycle)
qed

definition demo_loop :: "nat plugin_descriptor" where
  "demo_loop = (PluginDescriptor_new ''a'' 1 [''p''])\<lparr>
     pd_provides := [\<lparr>cd_capability_id = ''c'', cd_contract_major = 1\<rparr>],
     pd_requires := [\<lparr>cr_capability_id = ''c'', cr_contract_major = 1\<rparr>]\<rparr>"

lemma demo_loop_rejected:
  "resolve_activation_plan scc_reference demo_policy demo_scope None [demo_loop] =
     Err (Rejected (DependencyCycle [''a'', ''a'']))"
proof -
  let ?g = "\<lparr>gr_nodes = [''a''], gr_edges = [(''a'', ''a'', ''c'')]\<rparr>"
  have s: "scc_reference ?g = [[''a'']]" by (simp add: scc_reference_def)
  have t: "find_closed_path ''a'' [''a''] (stable_adjacency ?g) [''a''] {''a''} (targets (stable_adjacency ?g) ''a'') =
      Some [''a'', ''a'']" by code_simp
  have y: "cyclic_component ?g [''a'']" by code_simp
  have cyc: "canonical_cycle scc_reference ?g = Some [''a'', ''a'']"
    unfolding canonical_cycle_def s Let_def using t y by simp
  have p: "prepare [demo_loop] = [demo_loop]" by code_simp
  have v: "for_each (\<lambda>d. validate_for_scope d (si_kind demo_scope)) [demo_loop] = Ok ()" by code_simp
  have c: "for_each (check_provider bt_empty) (current_providers demo_scope [demo_loop]) = Ok ()" by code_simp
  obtain acc where b: "fold_res (bind_descriptor demo_scope
        (merge_providers bt_empty (current_providers demo_scope [demo_loop])) [''a''])
      (empty_bind_state, bt_empty) [demo_loop] = Ok acc" "bs_edges (fst acc) = [(''a'', ''a'', ''c'')]"
  proof -
    let ?f = "fold_res (bind_descriptor demo_scope
        (merge_providers bt_empty (current_providers demo_scope [demo_loop])) [''a''])
      (empty_bind_state, bt_empty) [demo_loop]"
    have "(case ?f of Inr acc \<Rightarrow> bs_edges (fst acc) = [(''a'', ''a'', ''c'')] | Inl _ \<Rightarrow> False)" by code_simp
    then show ?thesis using that by (cases ?f) (auto simp del: fold_res.simps)
  qed
  have n: "map pd_id [demo_loop] = [''a'']" by code_simp
  have i: "validate_identity demo_policy demo_scope None = Ok ()" by code_simp
  show ?thesis
    unfolding resolve_activation_plan_def resolve_prepared_def Let_def p n find_window.simps option.case
    by (simp add: v c b i MAX_PLUGINS_PER_SCOPE_def order_plan_def cyc del: for_each.simps fold_res.simps)
qed

theorem reported_cycle_is_real_witness: "chain (depends_on [demo_loop]) ''a'' [] ''a''"
proof -
  have "foreign demo_scope (inherited_providers None)" by (simp add: foreign_def inherited_providers_def)
  from reported_cycle_is_real [OF this demo_loop_rejected] show ?thesis by auto
qed

text \<open>A scope policy is accepted exactly when its kinds are distinct, every parent kind is declared and
  the parent relation has no cycle; the accepted policy maps each kind to its declared parent.\<close>

theorem scope_policy_is_forest:
  "(\<exists>policy. from_host_rules rs = Ok policy \<and>
      (\<forall>k p. bt_get (sp_rules policy) k = Some p \<longleftrightarrow> (\<exists>r\<in>set rs. kr_kind r = k \<and> kr_parent_kind r = p))) \<longleftrightarrow>
     distinct (map kr_kind rs) \<and> rules_closed rs \<and> acyclic (rule_edges rs)"
  using from_host_rules_Ok_iff [of rs] from_host_rules_get [of rs] by blast

text \<open>A scope identity is valid exactly when its kind is known and it is attached as the policy says: a
  root kind without any parent, any other kind to a parent with the expected kind and the named id.\<close>

theorem scope_identity_valid_iff:
  "validate_identity policy scope parent = Ok () \<longleftrightarrow>
     (\<exists>expected. bt_get (sp_rules policy) (si_kind scope) = Some expected \<and>
        si_parent_id scope = map_option si_id parent \<and> map_option si_kind parent = expected)"
  by (rule validate_identity_Ok_iff)

end
