(* ===== verification/Plugin_Instance.thy ===== *)
theory Plugin_Instance
  imports Grants
begin

text \<open>
  The lifecycle of plugin instances, \<^verbatim>\<open>crates/rho-extension-runtime/src/instance.rs\<close>: the transition
  table, the bounded audit trail and the operations of \<open>PluginManager\<close>. \<open>HostInstanceId::generate\<close>
  is random: the operations that call it take the id it returns as an argument. An operation
  returns the manager it leaves behind and its result, because some errors are reported after a
  transition has already been made.
\<close>

section \<open>States and transitions\<close>

datatype plugin_lifecycle_state =
  Discovered | Blocked | Disabled | Resolving | Activating | Active | Quiescing | Disposing
| Stopped | Crashed | UpdatePending

definition is_routable :: "plugin_lifecycle_state \<Rightarrow> bool" where
  "is_routable s \<longleftrightarrow> s = Active"

definition has_live_effects :: "plugin_lifecycle_state \<Rightarrow> bool" where
  "has_live_effects s \<longleftrightarrow> s \<in> {Active, Quiescing, Disposing, Activating}"

definition allowed_transition :: "plugin_lifecycle_state \<Rightarrow> plugin_lifecycle_state \<Rightarrow> bool" where
  "allowed_transition from to \<longleftrightarrow> (from, to) \<in>
     {(Discovered, Blocked), (Discovered, Disabled), (Disabled, Resolving), (Disabled, Blocked),
      (Resolving, Activating), (Resolving, Blocked), (Activating, Active), (Activating, Blocked),
      (Active, Quiescing), (Active, Crashed), (Active, UpdatePending), (Quiescing, Disposing),
      (Disposing, Stopped), (UpdatePending, Blocked), (UpdatePending, Disabled), (Blocked, Disabled),
      (Stopped, Disabled), (Crashed, Disabled), (Crashed, Stopped)}"

section \<open>The audit trail\<close>

record audit_event =
  ae_plugin_id :: plugin_id
  ae_project_id :: scope_id
  ae_transition_from :: "plugin_lifecycle_state option"
  ae_transition_to :: plugin_lifecycle_state
  ae_reason :: string

definition MAX_AUDIT_EVENTS :: nat where "MAX_AUDIT_EVENTS = 256"
definition MAX_AUDIT_REASON_BYTES :: nat where "MAX_AUDIT_REASON_BYTES = 512"

text \<open>Every control character becomes U+FFFD; the C1 controls are two bytes in UTF-8.\<close>

definition replacement_char :: string where
  "replacement_char = utf8_char 0xFFFD"

fun redact_control :: "string \<Rightarrow> string" where
  "redact_control [] = []"
| "redact_control [c] = (if byte_of c < 32 \<or> byte_of c = 127 then replacement_char else [c])"
| "redact_control (c # d # s) =
     (if byte_of c < 32 \<or> byte_of c = 127 then replacement_char @ redact_control (d # s)
      else if byte_of c = 0xC2 \<and> 0x80 \<le> byte_of d \<and> byte_of d \<le> 0x9F
      then replacement_char @ redact_control s
      else c # redact_control (d # s))"

definition bounded_audit_reason :: "string \<Rightarrow> string" where
  "bounded_audit_reason reason =
     (let redacted = redact_control reason in
      if length redacted \<le> MAX_AUDIT_REASON_BYTES then redacted
      else take (floor_boundary redacted MAX_AUDIT_REASON_BYTES) redacted)"

definition audit_record :: "audit_event list \<Rightarrow> audit_event \<Rightarrow> audit_event list" where
  "audit_record events e =
     (if length events \<ge> MAX_AUDIT_EVENTS then tl events else events) @
     [e\<lparr>ae_reason := bounded_audit_reason (ae_reason e)\<rparr>]"

section \<open>Instances\<close>

record plugin_instance =
  pi_plugin_id :: plugin_id
  pi_project_id :: scope_id
  pi_package_digest :: package_digest
  pi_activation_generation :: "activation_generation option"
  pi_host_instance_id :: "host_instance_id option"
  pi_state :: plugin_lifecycle_state
  pi_audit :: "audit_event list"

definition PluginInstance_new :: "plugin_id \<Rightarrow> scope_id \<Rightarrow> package_digest \<Rightarrow> plugin_instance" where
  "PluginInstance_new plugin project d =
     \<lparr>pi_plugin_id = plugin, pi_project_id = project, pi_package_digest = d,
      pi_activation_generation = None, pi_host_instance_id = None, pi_state = Discovered,
      pi_audit = audit_record []
        \<lparr>ae_plugin_id = plugin, ae_project_id = project, ae_transition_from = None,
         ae_transition_to = Discovered, ae_reason = ''discovered''\<rparr>\<rparr>"

definition transition :: "plugin_instance \<Rightarrow> plugin_lifecycle_state \<Rightarrow> string \<Rightarrow> plugin_instance \<times> bool" where
  "transition i to reason =
     (if \<not> allowed_transition (pi_state i) to then (i, False)
      else (i\<lparr>pi_state := to,
             pi_audit := audit_record (pi_audit i)
               \<lparr>ae_plugin_id = pi_plugin_id i, ae_project_id = pi_project_id i,
                ae_transition_from = Some (pi_state i), ae_transition_to = to, ae_reason = reason\<rparr>\<rparr>, True))"

section \<open>The manager\<close>

type_synonym plugin_key = "scope_id \<times> plugin_id"

record plugin_manager =
  pm_instances :: "(plugin_key, plugin_instance) btree"
  pm_accepted :: "(plugin_key, package_digest) btree"
  pm_pending_updates :: "(plugin_key, package_digest) btree"

datatype plugin_manager_error =
  UnknownPlugin | ForbiddenTransition | StaleReplacement | CandidateNotPending
| DuplicateDiscovery | GenerationExhausted

datatype discovery_outcome = NewPlugin | Unchanged | DiscoveredUpdate

definition PluginManager_new :: plugin_manager where
  "PluginManager_new = \<lparr>pm_instances = bt_empty, pm_accepted = bt_empty, pm_pending_updates = bt_empty\<rparr>"

definition put_instance :: "plugin_key \<Rightarrow> plugin_instance \<Rightarrow> plugin_manager \<Rightarrow> plugin_manager" where
  "put_instance k i m = m\<lparr>pm_instances := bt_insert k i (pm_instances m)\<rparr>"

definition discover ::
  "plugin_manager \<Rightarrow> plugin_id \<Rightarrow> scope_id \<Rightarrow> package_digest \<Rightarrow>
   plugin_manager \<times> (plugin_manager_error, discovery_outcome) result" where
  "discover m plugin project d =
     (let k = (project, plugin) in
      case bt_get (pm_instances m) k of
        None \<Rightarrow> (put_instance k (PluginInstance_new plugin project d) m, Ok NewPlugin)
      | Some i \<Rightarrow>
          if pi_package_digest i = d then (m, Ok Unchanged)
          else if pi_state i = Active
          then (m\<lparr>pm_pending_updates := bt_insert k d (pm_pending_updates m)\<rparr>, Ok DiscoveredUpdate)
          else (m, Err DuplicateDiscovery))"

definition checked_succ :: "u64 \<Rightarrow> u64 option" where
  "checked_succ g = (if g = - 1 then None else Some (g + 1))"

definition enable_generation :: "plugin_instance \<Rightarrow> u64 option" where
  "enable_generation i =
     (case pi_activation_generation i of None \<Rightarrow> Some 1 | Some g \<Rightarrow> checked_succ g)"

text \<open>A transition inside an operation: stop with \<open>ForbiddenTransition\<close>, keeping what was done so far.\<close>

definition then_transition ::
  "plugin_instance \<times> bool \<Rightarrow> plugin_lifecycle_state \<Rightarrow> string \<Rightarrow> plugin_instance \<times> bool" where
  "then_transition st to reason = (if snd st then transition (fst st) to reason else st)"

definition enable ::
  "host_instance_id \<Rightarrow> plugin_manager \<Rightarrow> scope_id \<Rightarrow> plugin_id \<Rightarrow>
   plugin_manager \<times> (plugin_manager_error, unit) result" where
  "enable host m project plugin =
     (let k = (project, plugin) in
      case bt_get (pm_instances m) k of
        None \<Rightarrow> (m, Err UnknownPlugin)
      | Some i \<Rightarrow>
          (case enable_generation i of
             None \<Rightarrow> (m, Err GenerationExhausted)
           | Some next_generation \<Rightarrow>
               (let st0 = (if pi_state i \<in> {Discovered, Stopped}
                           then transition i Disabled ''awaiting enable'' else (i, True));
                    st1 = then_transition st0 Resolving ''enable requested'';
                    st2 = then_transition st1 Activating ''resolved'';
                    st3 = then_transition st2 Active ''activated''
                in if \<not> snd st3 then (put_instance k (fst st3) m, Err ForbiddenTransition)
                   else
                     (case ActivationGeneration_new next_generation of
                        Inl _ \<Rightarrow> (put_instance k (fst st3) m, Err GenerationExhausted)
                      | Inr g \<Rightarrow>
                          ((put_instance k
                             ((fst st3)\<lparr>pi_activation_generation := Some g, pi_host_instance_id := Some host\<rparr>) m)
                             \<lparr>pm_accepted := bt_insert k (pi_package_digest (fst st1)) (pm_accepted m)\<rparr>,
                           Ok ())))))"

definition disable ::
  "plugin_manager \<Rightarrow> scope_id \<Rightarrow> plugin_id \<Rightarrow> plugin_manager \<times> (plugin_manager_error, unit) result" where
  "disable m project plugin =
     (let k = (project, plugin) in
      case bt_get (pm_instances m) k of
        None \<Rightarrow> (m, Err UnknownPlugin)
      | Some i \<Rightarrow>
          (let st1 = transition i Quiescing ''disable requested'';
               st2 = then_transition st1 Disposing ''effects released'';
               st3 = then_transition st2 Stopped ''teardown complete''
           in if \<not> snd st3 then (put_instance k (fst st3) m, Err ForbiddenTransition)
              else (put_instance k ((fst st3)\<lparr>pi_host_instance_id := None\<rparr>) m, Ok ())))"

definition mark_crashed ::
  "plugin_manager \<Rightarrow> scope_id \<Rightarrow> plugin_id \<Rightarrow> string \<Rightarrow> plugin_manager \<times> (plugin_manager_error, unit) result" where
  "mark_crashed m project plugin reason =
     (let k = (project, plugin) in
      case bt_get (pm_instances m) k of
        None \<Rightarrow> (m, Err UnknownPlugin)
      | Some i \<Rightarrow>
          (let st = transition i Crashed reason in
           if \<not> snd st then (m, Err ForbiddenTransition)
           else (put_instance k ((fst st)\<lparr>pi_host_instance_id := None\<rparr>) m, Ok ())))"

definition replace ::
  "host_instance_id \<Rightarrow> plugin_manager \<Rightarrow> scope_id \<Rightarrow> plugin_id \<Rightarrow> package_digest \<Rightarrow> package_digest \<Rightarrow>
   plugin_manager \<times> (plugin_manager_error, unit) result" where
  "replace host m project plugin expected_old candidate =
     (let k = (project, plugin) in
      case bt_get (pm_accepted m) k of
        None \<Rightarrow> (m, Err UnknownPlugin)
      | Some current \<Rightarrow>
          if current \<noteq> expected_old then (m, Err StaleReplacement)
          else if bt_get (pm_pending_updates m) k \<noteq> Some candidate then (m, Err CandidateNotPending)
          else
            (case bt_get (pm_instances m) k of
               None \<Rightarrow> (m, Err UnknownPlugin)
             | Some i \<Rightarrow>
                 if pi_state i \<noteq> Active then (m, Err ForbiddenTransition)
                 else
                   (case Option.bind (pi_activation_generation i) checked_succ of
                      None \<Rightarrow> (m, Err GenerationExhausted)
                    | Some next_generation \<Rightarrow>
                        (case ActivationGeneration_new next_generation of
                           Inl _ \<Rightarrow> (put_instance k (i\<lparr>pi_package_digest := candidate\<rparr>) m, Err GenerationExhausted)
                         | Inr g \<Rightarrow>
                             ((put_instance k
                                (i\<lparr>pi_package_digest := candidate, pi_activation_generation := Some g,
                                   pi_host_instance_id := Some host,
                                   pi_audit := audit_record (pi_audit i)
                                     \<lparr>ae_plugin_id = plugin, ae_project_id = project,
                                      ae_transition_from = Some Active, ae_transition_to = Active,
                                      ae_reason = ''accepted local package replacement''\<rparr>\<rparr>) m)
                                \<lparr>pm_accepted := bt_insert k candidate (pm_accepted m),
                                 pm_pending_updates := bt_remove k (pm_pending_updates m)\<rparr>,
                              Ok ())))))"

definition reject_update :: "plugin_manager \<Rightarrow> scope_id \<Rightarrow> plugin_id \<Rightarrow> plugin_manager \<times> bool" where
  "reject_update m project plugin =
     (m\<lparr>pm_pending_updates := bt_remove (project, plugin) (pm_pending_updates m)\<rparr>,
      bt_contains_key (pm_pending_updates m) (project, plugin))"

section \<open>The audit trail is bounded\<close>

definition audit_ok :: "audit_event list \<Rightarrow> bool" where
  "audit_ok events \<longleftrightarrow> length events \<le> MAX_AUDIT_EVENTS \<and>
     (\<forall>e\<in>set events. length (ae_reason e) \<le> MAX_AUDIT_REASON_BYTES)"

lemma bounded_audit_reason_length: "length (bounded_audit_reason r) \<le> MAX_AUDIT_REASON_BYTES"
  by (auto simp: bounded_audit_reason_def Let_def floor_boundary_le intro: le_trans [OF min.cobounded2])

lemma audit_record_ok [rho_inv]: "audit_ok events \<Longrightarrow> audit_ok (audit_record events e)"
proof -
  assume "audit_ok events"
  moreover have "set (tl events) \<subseteq> set events" by (cases events) auto
  ultimately show ?thesis
    using bounded_audit_reason_length [of "ae_reason e"]
    by (auto simp: audit_ok_def audit_record_def MAX_AUDIT_EVENTS_def)
qed

end
