(* ===== verification/Plugin_Lifecycle.thy ===== *)
theory Plugin_Lifecycle
  imports Plugin_Instance
begin

text \<open>
  Correctness of the plugin manager: what each operation does to the instance it touches, the
  invariant of every reachable manager, the growth of activation generations, the compare-and-swap
  discipline of replacement and the finality of a crash.
\<close>

section \<open>Effects of the operations\<close>

definition activated :: "plugin_instance \<Rightarrow> u64 \<Rightarrow> host_instance_id \<Rightarrow> plugin_instance \<Rightarrow> bool" where
  "activated i g host i' \<longleftrightarrow>
     pi_plugin_id i' = pi_plugin_id i \<and> pi_project_id i' = pi_project_id i \<and>
     pi_package_digest i' = pi_package_digest i \<and> pi_activation_generation i' = Some g \<and>
     pi_host_instance_id i' = Some host \<and> pi_state i' = Active \<and>
     (audit_ok (pi_audit i) \<longrightarrow> audit_ok (pi_audit i'))"

definition halted :: "plugin_lifecycle_state \<Rightarrow> plugin_instance \<Rightarrow> plugin_instance \<Rightarrow> bool" where
  "halted s i i' \<longleftrightarrow>
     pi_plugin_id i' = pi_plugin_id i \<and> pi_project_id i' = pi_project_id i \<and>
     pi_package_digest i' = pi_package_digest i \<and>
     pi_activation_generation i' = pi_activation_generation i \<and>
     pi_host_instance_id i' = None \<and> pi_state i' = s \<and>
     (audit_ok (pi_audit i) \<longrightarrow> audit_ok (pi_audit i'))"

lemma put_instance_same:
  "bt_ok (pm_instances m) \<Longrightarrow> bt_get (pm_instances m) k = Some i \<Longrightarrow> put_instance k i m = m"
  by (simp add: put_instance_def bt.ins_same)

lemma get_put_instance [simp]:
  "bt_get (pm_instances (put_instance k i m)) k' = (if k = k' then Some i else bt_get (pm_instances m) k')"
  by (simp add: put_instance_def)

lemma put_instance_sel [simp]:
  "pm_accepted (put_instance k i m) = pm_accepted m"
  "pm_pending_updates (put_instance k i m) = pm_pending_updates m"
  "bt_ok (pm_instances m) \<Longrightarrow> bt_ok (pm_instances (put_instance k i m))"
  by (simp_all add: put_instance_def)

text \<open>A legal transition changes the state and appends to the audit trail, nothing else.\<close>

definition moved :: "plugin_lifecycle_state \<Rightarrow> plugin_instance \<Rightarrow> plugin_instance \<Rightarrow> bool" where
  "moved s i i' \<longleftrightarrow> (\<exists>trail. i' = i\<lparr>pi_state := s, pi_audit := trail\<rparr> \<and>
     (audit_ok (pi_audit i) \<longrightarrow> audit_ok trail))"

lemma moved_trans: "moved s i i1 \<Longrightarrow> moved t i1 i2 \<Longrightarrow> moved t i i2"
  unfolding moved_def by auto

lemma moved_state: "moved s i i' \<Longrightarrow> pi_state i' = s"
  unfolding moved_def by auto

lemma moved_digest: "moved s i i' \<Longrightarrow> pi_package_digest i' = pi_package_digest i"
  unfolding moved_def by auto

lemma transition_moves:
  assumes "allowed_transition (pi_state i) to"
  obtains i' where "transition i to reason = (i', True)" "moved to i i'"
proof -
  let ?i = "fst (transition i to reason)"
  have "transition i to reason = (?i, True)" using assms by (simp add: transition_def)
  moreover have "moved to i ?i" using assms by (auto simp: transition_def moved_def intro!: audit_record_ok exI)
  ultimately show ?thesis using that by blast
qed

lemma then_transition_moves:
  assumes "moved s i i'" "allowed_transition s to"
  obtains i'' where "then_transition (i', True) to reason = (i'', True)" "moved to i i''"
proof -
  have "allowed_transition (pi_state i') to" using assms moved_state by blast
  then obtain i'' where "transition i' to reason = (i'', True)" "moved to i' i''"
    by (rule transition_moves)
  then show ?thesis using that moved_trans [OF assms(1)] by (simp add: then_transition_def)
qed

lemma allowed_path:
  "allowed_transition Disabled Resolving" "allowed_transition Resolving Activating"
  "allowed_transition Activating Active" "allowed_transition Active Quiescing"
  "allowed_transition Quiescing Disposing" "allowed_transition Disposing Stopped"
  "allowed_transition Active Crashed" "allowed_transition Discovered Disabled" "allowed_transition Stopped Disabled"
  "\<not> allowed_transition Active Resolving" "\<not> allowed_transition Crashed Resolving"
  by (simp_all add: allowed_transition_def)

lemma enable_effect:
  assumes "bt_get (pm_instances m) (project, plugin) = Some i"
    and st: "pi_state i \<in> {Discovered, Stopped, Disabled}" and g: "enable_generation i = Some g" "g \<noteq> 0"
  shows "\<exists>i'. activated i g host i' \<and> enable host m project plugin =
     ((put_instance (project, plugin) i' m)
        \<lparr>pm_accepted := bt_insert (project, plugin) (pi_package_digest i) (pm_accepted m)\<rparr>, Ok ())"
proof -
  obtain i0 where i0: "(if pi_state i \<in> {Discovered, Stopped} then transition i Disabled ''awaiting enable''
      else (i, True)) = (i0, True)" "moved Disabled i i0"
  proof (cases "pi_state i \<in> {Discovered, Stopped}")
    case True
    then have "allowed_transition (pi_state i) Disabled" using allowed_path by auto
    then show ?thesis using True that by (elim transition_moves [where reason = "''awaiting enable''"]) simp
  next
    case False
    with st have "pi_state i = Disabled" by auto
    then have "moved Disabled i i" unfolding moved_def by (intro exI [of _ "pi_audit i"]) simp
    with \<open>pi_state i = Disabled\<close> show ?thesis using that by simp
  qed
  obtain i1 where i1: "then_transition (i0, True) Resolving ''enable requested'' = (i1, True)" "moved Resolving i i1"
    using then_transition_moves [OF i0(2) allowed_path(1)] .
  obtain i2 where i2: "then_transition (i1, True) Activating ''resolved'' = (i2, True)" "moved Activating i i2"
    using then_transition_moves [OF i1(2) allowed_path(2)] .
  obtain i3 where i3: "then_transition (i2, True) Active ''activated'' = (i3, True)" "moved Active i i3"
    using then_transition_moves [OF i2(2) allowed_path(3)] .
  let ?i = "i3\<lparr>pi_activation_generation := Some g, pi_host_instance_id := Some host\<rparr>"
  have "activated i g host ?i"
    using i3(2) unfolding activated_def moved_def by auto
  moreover have "enable host m project plugin =
     ((put_instance (project, plugin) ?i m)
        \<lparr>pm_accepted := bt_insert (project, plugin) (pi_package_digest i) (pm_accepted m)\<rparr>, Ok ())"
    using g(2) moved_digest [OF i1(2)]
    by (simp only: enable_def Let_def assms(1) g(1) option.case i0(1) i1(1) i2(1) i3(1) fst_conv snd_conv
        not_True_eq_False if_False ActivationGeneration_new_def sum.case)
  ultimately show ?thesis by blast
qed

lemma enable_refused:
  assumes "bt_ok (pm_instances m)" and "bt_get (pm_instances m) (project, plugin) = Some i"
    and "pi_state i \<in> {Active, Crashed}"
  shows "\<exists>e. enable host m project plugin = (m, Err e)"
proof (cases "enable_generation i")
  case (Some g)
  have "\<not> allowed_transition (pi_state i) Resolving" using assms(3) allowed_path(10,11) by auto
  then have t: "transition i Resolving ''enable requested'' = (i, False)" by (simp add: transition_def)
  have nd: "(pi_state i \<in> {Discovered, Stopped}) = False" using assms(3) by auto
  have "enable host m project plugin = (put_instance (project, plugin) i m, Err ForbiddenTransition)"
    by (simp only: enable_def Let_def assms(2) Some option.case nd if_False if_True then_transition_def
        snd_conv fst_conv t not_False_eq_True)
  then show ?thesis using put_instance_same [OF assms(1,2)] by simp
qed (use assms(2) in \<open>simp add: enable_def\<close>)

lemma disable_effect:
  assumes "bt_get (pm_instances m) (project, plugin) = Some i" "pi_state i = Active"
  shows "\<exists>i'. halted Stopped i i' \<and> disable m project plugin = (put_instance (project, plugin) i' m, Ok ())"
proof -
  have "allowed_transition (pi_state i) Quiescing" using assms(2) allowed_path(4) by simp
  then obtain i1 where i1: "transition i Quiescing ''disable requested'' = (i1, True)" "moved Quiescing i i1"
    by (rule transition_moves)
  obtain i2 where i2: "then_transition (i1, True) Disposing ''effects released'' = (i2, True)" "moved Disposing i i2"
    using then_transition_moves [OF i1(2) allowed_path(5)] .
  obtain i3 where i3: "then_transition (i2, True) Stopped ''teardown complete'' = (i3, True)" "moved Stopped i i3"
    using then_transition_moves [OF i2(2) allowed_path(6)] .
  have "halted Stopped i (i3\<lparr>pi_host_instance_id := None\<rparr>)"
    using i3(2) unfolding halted_def moved_def by auto
  moreover have "disable m project plugin = (put_instance (project, plugin) (i3\<lparr>pi_host_instance_id := None\<rparr>) m, Ok ())"
    unfolding disable_def Let_def assms(1) option.case i1(1) i2(1) i3(1) by simp
  ultimately show ?thesis by blast
qed

lemma disable_refused:
  assumes "bt_ok (pm_instances m)" "bt_get (pm_instances m) (project, plugin) = Some i" "pi_state i \<noteq> Active"
  shows "disable m project plugin = (m, Err ForbiddenTransition)"
proof -
  have "\<not> allowed_transition (pi_state i) Quiescing" using assms(3) by (auto simp: allowed_transition_def)
  then show ?thesis
    using assms(2) put_instance_same [OF assms(1,2)]
    by (simp add: disable_def Let_def then_transition_def transition_def)
qed

lemma crash_effect:
  assumes "bt_get (pm_instances m) (project, plugin) = Some i" "pi_state i = Active"
  shows "\<exists>i'. halted Crashed i i' \<and>
     mark_crashed m project plugin reason = (put_instance (project, plugin) i' m, Ok ())"
proof -
  have "allowed_transition (pi_state i) Crashed" using assms(2) allowed_path(7) by simp
  then obtain i1 where i1: "transition i Crashed reason = (i1, True)" "moved Crashed i i1"
    by (rule transition_moves)
  have "halted Crashed i (i1\<lparr>pi_host_instance_id := None\<rparr>)"
    using i1(2) unfolding halted_def moved_def by auto
  moreover have "mark_crashed m project plugin reason =
      (put_instance (project, plugin) (i1\<lparr>pi_host_instance_id := None\<rparr>) m, Ok ())"
    unfolding mark_crashed_def Let_def assms(1) option.case i1(1) by simp
  ultimately show ?thesis by blast
qed

lemma crash_refused:
  "bt_get (pm_instances m) (project, plugin) = Some i \<Longrightarrow> pi_state i \<noteq> Active \<Longrightarrow>
     mark_crashed m project plugin reason = (m, Err ForbiddenTransition)"
  by (simp add: mark_crashed_def Let_def transition_def allowed_transition_def)

lemma checked_succ_Some: "checked_succ g = Some n \<Longrightarrow> n \<noteq> 0 \<and> g < n \<and> unat n = Suc (unat g)"
proof -
  assume "checked_succ g = Some n"
  then have n: "n = g + 1" "g \<noteq> - 1" by (auto simp: checked_succ_def split: if_splits)
  then have "unat (g + 1) = Suc (unat g)"
    by (metis add.commute add_eq_0_iff2 unatSuc)
  with n show ?thesis by (metis less_irrefl_nat lessI unat_0 word_less_nat_alt zero_less_Suc)
qed

lemma enable_generation_nonzero: "enable_generation i = Some g \<Longrightarrow> g \<noteq> 0"
  using checked_succ_Some by (auto simp: enable_generation_def split: option.splits)

section \<open>The invariant\<close>

definition instance_ok :: "plugin_key \<Rightarrow> plugin_instance \<Rightarrow> bool" where
  "instance_ok k i \<longleftrightarrow>
     k = (pi_project_id i, pi_plugin_id i) \<and>
     pi_state i \<in> {Discovered, Active, Stopped, Crashed} \<and>
     (pi_host_instance_id i \<noteq> None \<longleftrightarrow> is_routable (pi_state i)) \<and>
     (pi_activation_generation i = None \<longleftrightarrow> pi_state i = Discovered) \<and>
     audit_ok (pi_audit i)"

text \<open>What holds of one key: its instance, its accepted digest and its pending update.\<close>

definition key_inv ::
  "plugin_key \<Rightarrow> plugin_instance option \<Rightarrow> package_digest option \<Rightarrow> package_digest option \<Rightarrow> bool" where
  "key_inv k inst acc pend \<longleftrightarrow>
     (case inst of
        None \<Rightarrow> acc = None \<and> pend = None
      | Some i \<Rightarrow> instance_ok k i \<and>
          acc = (if pi_state i = Discovered then None else Some (pi_package_digest i)) \<and>
          (pend \<noteq> None \<longrightarrow> acc \<noteq> None \<and> pend \<noteq> acc))"

definition manager_inv :: "plugin_manager \<Rightarrow> bool" where
  "manager_inv m \<longleftrightarrow>
     bt_ok (pm_instances m) \<and> bt_ok (pm_accepted m) \<and> bt_ok (pm_pending_updates m) \<and>
     (\<forall>k. key_inv k (bt_get (pm_instances m) k) (bt_get (pm_accepted m) k) (bt_get (pm_pending_updates m) k))"

lemma manager_invD:
  assumes "manager_inv m"
  shows "bt_ok (pm_instances m)" "bt_ok (pm_accepted m)" "bt_ok (pm_pending_updates m)"
    and "key_inv k (bt_get (pm_instances m) k) (bt_get (pm_accepted m) k) (bt_get (pm_pending_updates m) k)"
  using assms unfolding manager_inv_def by blast+

text \<open>An operation that touches one key has to re-establish the invariant there only.\<close>

lemma manager_inv_at:
  assumes "manager_inv m"
    and "bt_ok (pm_instances m')" "bt_ok (pm_accepted m')" "bt_ok (pm_pending_updates m')"
    and "\<And>k'. k' \<noteq> k \<Longrightarrow> bt_get (pm_instances m') k' = bt_get (pm_instances m) k' \<and>
       bt_get (pm_accepted m') k' = bt_get (pm_accepted m) k' \<and>
       bt_get (pm_pending_updates m') k' = bt_get (pm_pending_updates m) k'"
    and "key_inv k (bt_get (pm_instances m') k) (bt_get (pm_accepted m') k) (bt_get (pm_pending_updates m') k)"
  shows "manager_inv m'"
  unfolding manager_inv_def
proof (intro conjI allI)
  fix k' show "key_inv k' (bt_get (pm_instances m') k') (bt_get (pm_accepted m') k') (bt_get (pm_pending_updates m') k')"
    using assms(5,6) manager_invD(4) [OF assms(1), of k'] by (cases "k' = k") simp_all
qed (use assms(2-4) in auto)

datatype manager_op =
  OpDiscover plugin_id scope_id package_digest
| OpEnable host_instance_id scope_id plugin_id
| OpDisable scope_id plugin_id
| OpCrash scope_id plugin_id string
| OpReplace host_instance_id scope_id plugin_id package_digest package_digest
| OpRejectUpdate scope_id plugin_id

fun manager_step :: "plugin_manager \<Rightarrow> manager_op \<Rightarrow> plugin_manager" where
  "manager_step m (OpDiscover plugin project d) = fst (discover m plugin project d)"
| "manager_step m (OpEnable host project plugin) = fst (enable host m project plugin)"
| "manager_step m (OpDisable project plugin) = fst (disable m project plugin)"
| "manager_step m (OpCrash project plugin reason) = fst (mark_crashed m project plugin reason)"
| "manager_step m (OpReplace host project plugin e c) = fst (replace host m project plugin e c)"
| "manager_step m (OpRejectUpdate project plugin) = fst (reject_update m project plugin)"

lemma discover_inv [rho_inv]:
  assumes "manager_inv m"
  shows "manager_inv (fst (discover m plugin project d))"
proof (rule manager_inv_at [OF assms, of _ "(project, plugin)"])
  note inv = manager_invD(1-3) [OF assms] manager_invD(4) [OF assms, of "(project, plugin)"]
  show "bt_ok (pm_instances (fst (discover m plugin project d)))"
    "bt_ok (pm_accepted (fst (discover m plugin project d)))"
    "bt_ok (pm_pending_updates (fst (discover m plugin project d)))"
    using inv by (auto simp: discover_def Let_def split: option.split)
  show "key_inv (project, plugin) (bt_get (pm_instances (fst (discover m plugin project d))) (project, plugin))
     (bt_get (pm_accepted (fst (discover m plugin project d))) (project, plugin))
     (bt_get (pm_pending_updates (fst (discover m plugin project d))) (project, plugin))"
    using inv(4) by (auto simp: discover_def Let_def key_inv_def instance_ok_def PluginInstance_new_def
        is_routable_def audit_ok_def MAX_AUDIT_EVENTS_def audit_record_def bounded_audit_reason_length
        split: option.splits if_splits)
qed (auto simp: discover_def Let_def split: option.split)

lemma enable_inv [rho_inv]:
  assumes "manager_inv m"
  shows "manager_inv (fst (enable host m project plugin))"
proof (cases "bt_get (pm_instances m) (project, plugin)")
  case (Some i)
  note inv = manager_invD(1-3) [OF assms] manager_invD(4) [OF assms, of "(project, plugin)"]
  have st: "pi_state i \<in> {Discovered, Active, Stopped, Crashed}"
    using inv(4) Some by (simp add: key_inv_def instance_ok_def)
  show ?thesis
  proof (cases "pi_state i \<in> {Active, Crashed}")
    case True
    then show ?thesis using enable_refused [OF inv(1) Some] assms by (metis fst_conv)
  next
    case False
    with st have st: "pi_state i \<in> {Discovered, Stopped, Disabled}" by auto
    show ?thesis
    proof (cases "enable_generation i")
      case None
      then show ?thesis using Some assms by (simp add: enable_def)
    next
      case g: (Some g)
      from enable_effect [OF Some st g enable_generation_nonzero [OF g], of host] obtain i' where
        i': "activated i g host i'" "enable host m project plugin = ((put_instance (project, plugin) i' m)
          \<lparr>pm_accepted := bt_insert (project, plugin) (pi_package_digest i) (pm_accepted m)\<rparr>, Ok ())" by blast
      show ?thesis
        unfolding i'(2) fst_conv
        by (rule manager_inv_at [OF assms, of _ "(project, plugin)"])
          (use inv i'(1) Some False in \<open>auto simp: put_instance_def key_inv_def activated_def instance_ok_def is_routable_def split: if_splits\<close>)
    qed
  qed
qed (use assms in \<open>simp add: enable_def\<close>)

lemma halted_inv:
  assumes "manager_inv m" "bt_get (pm_instances m) k = Some i" "pi_state i = Active"
    and "halted s i i'" "s \<in> {Stopped, Crashed}"
  shows "manager_inv (put_instance k i' m)"
  by (rule manager_inv_at [OF assms(1), of _ k])
    (use assms manager_invD(1-3) [OF assms(1)] manager_invD(4) [OF assms(1), of k] in
      \<open>auto simp: put_instance_def key_inv_def halted_def instance_ok_def is_routable_def\<close>)

lemma disable_inv [rho_inv]: "manager_inv m \<Longrightarrow> manager_inv (fst (disable m project plugin))"
proof (cases "bt_get (pm_instances m) (project, plugin)")
  case (Some i)
  assume inv: "manager_inv m"
  show ?thesis
  proof (cases "pi_state i = Active")
    case True
    from disable_effect [OF Some True] halted_inv [OF inv Some True] show ?thesis by force
  qed (use disable_refused [OF manager_invD(1) [OF inv] Some] inv in simp)
qed (simp add: disable_def)

lemma crash_inv [rho_inv]: "manager_inv m \<Longrightarrow> manager_inv (fst (mark_crashed m project plugin reason))"
proof (cases "bt_get (pm_instances m) (project, plugin)")
  case (Some i)
  assume inv: "manager_inv m"
  show ?thesis
  proof (cases "pi_state i = Active")
    case True
    from crash_effect [OF Some True, of reason] halted_inv [OF inv Some True] show ?thesis by force
  qed (use crash_refused [OF Some] inv in simp)
qed (simp add: mark_crashed_def)

definition replaced ::
  "host_instance_id \<Rightarrow> scope_id \<Rightarrow> plugin_id \<Rightarrow> package_digest \<Rightarrow> u64 \<Rightarrow> plugin_instance \<Rightarrow> plugin_instance" where
  "replaced host project plugin c g i =
     i\<lparr>pi_package_digest := c, pi_activation_generation := Some g, pi_host_instance_id := Some host,
       pi_audit := audit_record (pi_audit i)
         \<lparr>ae_plugin_id = plugin, ae_project_id = project, ae_transition_from = Some Active,
          ae_transition_to = Active, ae_reason = ''accepted local package replacement''\<rparr>\<rparr>"

definition replace_result ::
  "host_instance_id \<Rightarrow> plugin_manager \<Rightarrow> plugin_key \<Rightarrow> package_digest \<Rightarrow> u64 \<Rightarrow> plugin_instance \<Rightarrow> plugin_manager" where
  "replace_result host m k c g i =
     (put_instance k (replaced host (fst k) (snd k) c g i) m)
       \<lparr>pm_accepted := bt_insert k c (pm_accepted m), pm_pending_updates := bt_remove k (pm_pending_updates m)\<rparr>"

lemma replaced_activated:
  "pi_state i = Active \<Longrightarrow> activated (i\<lparr>pi_package_digest := c\<rparr>) g host (replaced host project plugin c g i)"
  by (simp add: activated_def replaced_def audit_record_ok)

lemma replace_cases:
  assumes "replace host m project plugin e c = (m', r)"
  obtains (refused) err where "r = Err err" "m' = m"
  | (published) i g where "r = Ok ()" "bt_get (pm_accepted m) (project, plugin) = Some e"
      "bt_get (pm_pending_updates m) (project, plugin) = Some c"
      "bt_get (pm_instances m) (project, plugin) = Some i" "pi_state i = Active"
      "Option.bind (pi_activation_generation i) checked_succ = Some g"
      "m' = replace_result host m (project, plugin) c g i"
proof -
  have nz: "g \<noteq> 0" if "Option.bind (pi_activation_generation i) checked_succ = Some g" for i :: plugin_instance and g
    using that checked_succ_Some by (auto simp: Option.bind_eq_Some_conv)
  show ?thesis
    using assms nz refused published
    by (auto simp: replace_def Let_def ActivationGeneration_new_def replace_result_def replaced_def
        split: option.splits if_splits)
qed

lemma replace_inv [rho_inv]:
  assumes "manager_inv m"
  shows "manager_inv (fst (replace host m project plugin e c))"
proof -
  obtain m' r where r: "replace host m project plugin e c = (m', r)" by (cases "replace host m project plugin e c")
  note inv = manager_invD(1-3) [OF assms] manager_invD(4) [OF assms, of "(project, plugin)"]
  from r show ?thesis
  proof (cases rule: replace_cases)
    case (published i g)
    show ?thesis
      unfolding r fst_conv published(7)
      by (rule manager_inv_at [OF assms, of _ "(project, plugin)"])
        (use inv published(4,5) replaced_activated [OF published(5), of c g host project plugin] in
          \<open>auto simp: replace_result_def put_instance_def key_inv_def activated_def instance_ok_def is_routable_def\<close>)
  qed (use assms r in simp)
qed

lemma reject_update_inv [rho_inv]:
  assumes "manager_inv m"
  shows "manager_inv (fst (reject_update m project plugin))"
  by (rule manager_inv_at [OF assms, of _ "(project, plugin)"])
    (use manager_invD(1-3) [OF assms] manager_invD(4) [OF assms, of "(project, plugin)"] in
      \<open>auto simp: reject_update_def key_inv_def split: option.splits\<close>)

lemma manager_step_inv: "manager_inv m \<Longrightarrow> manager_inv (manager_step m a)"
  by (cases a) (simp_all add: rho_inv)

lemma PluginManager_new_inv: "manager_inv PluginManager_new"
  by (simp add: manager_inv_def PluginManager_new_def key_inv_def)

interpretation lifecycle: step_system PluginManager_new manager_step manager_inv
  by unfold_locales (simp_all add: PluginManager_new_inv manager_step_inv)

section \<open>Generations only grow\<close>

definition generation_of :: "plugin_manager \<Rightarrow> plugin_key \<Rightarrow> u64 option" where
  "generation_of m k = Option.bind (bt_get (pm_instances m) k) pi_activation_generation"

definition gen_at_least :: "plugin_key \<Rightarrow> u64 \<Rightarrow> plugin_manager \<Rightarrow> bool" where
  "gen_at_least k g m \<longleftrightarrow> (\<exists>g'. generation_of m k = Some g' \<and> g \<le> g')"

text \<open>
  Every step leaves an instance alone, creates it, halts it or activates it with the next
  generation; these are the only changes to an entry.
\<close>

definition next_generation :: "plugin_instance \<Rightarrow> u64 \<Rightarrow> bool" where
  "next_generation i g \<longleftrightarrow>
     (case pi_activation_generation i of None \<Rightarrow> g = 1 | Some g0 \<Rightarrow> checked_succ g0 = Some g)"

definition entry_step :: "plugin_instance \<Rightarrow> plugin_instance \<Rightarrow> bool" where
  "entry_step i i' \<longleftrightarrow> i' = i \<or>
     (pi_state i = Active \<and> (halted Stopped i i' \<or> halted Crashed i i')) \<or>
     (pi_state i \<in> {Discovered, Stopped, Disabled, Active} \<and>
        (\<exists>g host c. next_generation i g \<and> activated (i\<lparr>pi_package_digest := c\<rparr>) g host i'))"

lemma enable_entry:
  assumes inv: "manager_inv m" and i: "bt_get (pm_instances m) k = Some i"
  shows "\<exists>i'. bt_get (pm_instances (fst (enable host m project plugin))) k = Some i' \<and> entry_step i i'"
proof (cases "k = (project, plugin)")
  case True
  have st: "pi_state i \<in> {Discovered, Active, Stopped, Crashed}"
    using manager_invD(4) [OF inv, of k] i by (simp add: key_inv_def instance_ok_def)
  show ?thesis
  proof (cases "pi_state i \<in> {Active, Crashed}")
    case True
    with enable_refused [OF manager_invD(1) [OF inv] i [unfolded \<open>k = _\<close>], of host] i
    show ?thesis by (auto simp: entry_step_def)
  next
    case False
    with st have st: "pi_state i \<in> {Discovered, Stopped, Disabled}" by auto
    show ?thesis
    proof (cases "enable_generation i")
      case None
      then show ?thesis using i \<open>k = _\<close> by (simp add: enable_def entry_step_def)
    next
      case g: (Some g)
      from enable_effect [OF i [unfolded \<open>k = _\<close>] st g enable_generation_nonzero [OF g], of host]
      obtain i' where i': "activated i g host i'" "bt_get (pm_instances (fst (enable host m project plugin))) k = Some i'"
        using \<open>k = _\<close> by (auto simp: put_instance_def)
      have "next_generation i g" using g by (auto simp: enable_generation_def next_generation_def split: option.splits)
      moreover have "activated (i\<lparr>pi_package_digest := pi_package_digest i\<rparr>) g host i'" using i'(1) by simp
      ultimately have "entry_step i i'" using st unfolding entry_step_def by blast
      with i'(2) show ?thesis by blast
    qed
  qed
next
  case False
  then have "bt_get (pm_instances (fst (enable host m project plugin))) k = bt_get (pm_instances m) k"
    by (auto simp: enable_def Let_def put_instance_def split: option.split sum.split)
  with i show ?thesis by (simp add: entry_step_def)
qed

lemma halt_entry:
  assumes "manager_inv m" "bt_get (pm_instances m) k = Some i"
  shows "\<exists>i'. bt_get (pm_instances (fst (disable m project plugin))) k = Some i' \<and> entry_step i i'"
    and "\<exists>i'. bt_get (pm_instances (fst (mark_crashed m project plugin reason))) k = Some i' \<and> entry_step i i'"
proof -
  note i = assms(2)
  show "\<exists>i'. bt_get (pm_instances (fst (disable m project plugin))) k = Some i' \<and> entry_step i i'"
  proof (cases "k = (project, plugin) \<and> pi_state i = Active")
    case True
    with disable_effect [of m project plugin i] i show ?thesis by (auto simp: entry_step_def)
  next
    case False
    then have "bt_get (pm_instances (fst (disable m project plugin))) k = Some i"
      using i disable_refused [OF manager_invD(1) [OF assms(1)], of project plugin i]
      by (cases "k = (project, plugin)") (auto simp: disable_def Let_def put_instance_def split: option.split)
    then show ?thesis by (simp add: entry_step_def)
  qed
  show "\<exists>i'. bt_get (pm_instances (fst (mark_crashed m project plugin reason))) k = Some i' \<and> entry_step i i'"
  proof (cases "k = (project, plugin) \<and> pi_state i = Active")
    case True
    with crash_effect [of m project plugin i reason] i show ?thesis by (auto simp: entry_step_def)
  next
    case False
    then have "bt_get (pm_instances (fst (mark_crashed m project plugin reason))) k = Some i"
      using i crash_refused [of m project plugin i reason]
      by (cases "k = (project, plugin)") (auto simp: mark_crashed_def Let_def put_instance_def split: option.split)
    then show ?thesis by (simp add: entry_step_def)
  qed
qed

lemma replace_entry:
  assumes "bt_get (pm_instances m) k = Some i"
  shows "\<exists>i'. bt_get (pm_instances (fst (replace host m project plugin e c))) k = Some i' \<and> entry_step i i'"
proof -
  obtain m' r where r: "replace host m project plugin e c = (m', r)" by (cases "replace host m project plugin e c")
  then show ?thesis
  proof (cases rule: replace_cases)
    case refused
    then show ?thesis using assms r by (simp add: entry_step_def)
  next
    case (published j g)
    show ?thesis
    proof (cases "k = (project, plugin)")
      case True
      have "next_generation i g" using published(4,6) True assms by (auto simp: next_generation_def split: option.splits)
      then have "entry_step i (replaced host project plugin c g i)"
        using replaced_activated [of i c g host project plugin] published(4,5) True assms
        unfolding entry_step_def by auto
      with r published True assms show ?thesis by (auto simp: replace_result_def put_instance_def)
    next
      case False
      with r published assms show ?thesis by (auto simp: replace_result_def put_instance_def entry_step_def)
    qed
  qed
qed

lemma manager_step_entry:
  assumes "manager_inv m" "bt_get (pm_instances m) k = Some i"
  shows "\<exists>i'. bt_get (pm_instances (manager_step m a)) k = Some i' \<and> entry_step i i'"
proof (cases a)
  case (OpDiscover plugin project d)
  then show ?thesis using assms(2)
    by (auto simp: discover_def Let_def put_instance_def entry_step_def split: option.split)
qed (use enable_entry [OF assms] halt_entry [OF assms] replace_entry [OF assms(2)] assms(2) in
    \<open>simp_all add: reject_update_def entry_step_def\<close>)

lemma entry_step_generation:
  "entry_step i i' \<Longrightarrow> pi_activation_generation i = Some g \<Longrightarrow>
     \<exists>g'. pi_activation_generation i' = Some g' \<and> g \<le> g'"
  using checked_succ_Some [of g]
  by (auto simp: entry_step_def halted_def activated_def next_generation_def intro: less_imp_le)

interpretation generations: stable_property PluginManager_new manager_step manager_inv "gen_at_least k g"
proof
  fix s a assume inv: "manager_inv s" and p: "gen_at_least k g s"
  then obtain i g' where i: "bt_get (pm_instances s) k = Some i" "pi_activation_generation i = Some g'" "g \<le> g'"
    by (auto simp: gen_at_least_def generation_of_def Option.bind_eq_Some_conv)
  from manager_step_entry [OF inv i(1), of a] obtain i' where
    i': "bt_get (pm_instances (manager_step s a)) k = Some i'" "entry_step i i'" by blast
  from entry_step_generation [OF i'(2) i(2)] i(3) obtain g'' where "pi_activation_generation i' = Some g''" "g \<le> g''"
    by (meson order_trans)
  with i'(1) show "gen_at_least k g (manager_step s a)" by (simp add: gen_at_least_def generation_of_def)
qed

section \<open>A crash is final\<close>

definition crashed_at :: "plugin_key \<Rightarrow> plugin_manager \<Rightarrow> bool" where
  "crashed_at k m \<longleftrightarrow> (\<exists>i. bt_get (pm_instances m) k = Some i \<and> pi_state i = Crashed)"

interpretation crash: stable_property PluginManager_new manager_step manager_inv "crashed_at k"
proof
  fix s a assume inv: "manager_inv s" and "crashed_at k s"
  then obtain i where i: "bt_get (pm_instances s) k = Some i" "pi_state i = Crashed" by (auto simp: crashed_at_def)
  from manager_step_entry [OF inv i(1), of a] i(2) show "crashed_at k (manager_step s a)"
    by (auto simp: crashed_at_def entry_step_def)
qed

section \<open>Replacement is a compare-and-swap\<close>

definition try_replace ::
  "scope_id \<Rightarrow> plugin_id \<Rightarrow> plugin_manager \<Rightarrow> package_digest option \<Rightarrow> host_instance_id \<times> package_digest \<Rightarrow>
   plugin_manager option" where
  "try_replace project plugin m e c =
     (case e of
        None \<Rightarrow> None
      | Some d \<Rightarrow>
          (case replace (fst c) m project plugin d (snd c) of (m', Inr _) \<Rightarrow> Some m' | (_, Inl _) \<Rightarrow> None))"

lemma try_replace_Some:
  "try_replace project plugin m e c = Some m' \<longleftrightarrow>
     (\<exists>d. e = Some d \<and> replace (fst c) m project plugin d (snd c) = (m', Ok ()))"
  by (auto simp: try_replace_def split: option.splits prod.splits sum.splits)

interpretation replacement: moving_cas "\<lambda>m. bt_get (pm_accepted m) (project, plugin)" "\<lambda>c. Some (snd c)"
  "try_replace project plugin" manager_inv
proof
  fix s e and c :: "host_instance_id \<times> package_digest" and s'
  assume inv: "manager_inv s" and "try_replace project plugin s e c = Some s'"
  then obtain d where d: "e = Some d" "replace (fst c) s project plugin d (snd c) = (s', Ok ())"
    by (auto simp: try_replace_Some)
  show "manager_inv s'" using replace_inv [OF inv, of "fst c" project plugin d "snd c"] d(2) by simp
  from d(2) obtain i g where pub: "bt_get (pm_accepted s) (project, plugin) = Some d"
    "bt_get (pm_pending_updates s) (project, plugin) = Some (snd c)"
    "s' = replace_result (fst c) s (project, plugin) (snd c) g i"
    by (cases rule: replace_cases) auto
  show "bt_get (pm_accepted s) (project, plugin) = e" using pub(1) d(1) by simp
  show "bt_get (pm_accepted s') (project, plugin) = Some (snd c)" using pub(3) by (simp add: replace_result_def)
  show "Some (snd c) \<noteq> e"
    using manager_invD(4) [OF inv, of "(project, plugin)"] pub(1,2) d(1)
    by (auto simp: key_inv_def split: option.splits)
qed

end
