(* ===== verification/Audit_Text.thy ===== *)
theory Audit_Text
  imports Plugin_Instance
begin

text \<open>
  The text retained by the audit trail of \<^verbatim>\<open>instance.rs\<close>: redaction of control characters and the
  cut at a character boundary, followed through the UTF-8 encoding.
\<close>

definition control_scalar :: "nat \<Rightarrow> bool" where
  "control_scalar n \<longleftrightarrow> n < 32 \<or> n = 127 \<or> (0x80 \<le> n \<and> n \<le> 0x9F)"

lemma byte_small: "(k :: nat) < 256 \<Longrightarrow> byte_of (char_of k) = k"
  by (rule of_char_of_small)

section \<open>Redaction of one character\<close>

lemma redact_plain: "128 \<le> byte_of c \<Longrightarrow> byte_of c \<noteq> 0xC2 \<Longrightarrow> redact_control (c # s) = c # redact_control s"
  by (cases s) auto

lemma redact_C2: "byte_of c = 0xC2 \<Longrightarrow> 128 \<le> byte_of d \<Longrightarrow> byte_of d \<noteq> 0xC2 \<Longrightarrow> redact_control (c # d # s) =
    (if byte_of d \<le> 0x9F then replacement_char @ redact_control s else c # d # redact_control s)"
  by (cases s) auto

lemma redact_ascii: "byte_of c < 128 \<Longrightarrow> redact_control (c # s) =
    (if byte_of c < 32 \<or> byte_of c = 127 then replacement_char else [c]) @ redact_control s"
  by (cases s) auto

lemma redact_tail: "(k :: nat) < 64 \<Longrightarrow> redact_control (char_of (128 + k) # s) = char_of (128 + k) # redact_control s"
  by (rule redact_plain) (simp_all add: byte_small)

lemma utf8_length_cases:
  assumes "scalar_value n"
  obtains "n < 0x80" | "0x80 \<le> n" "n < 0x800" | "0x800 \<le> n" "n < 0x10000" | "0x10000 \<le> n" "n < 0x110000"
  using assms by (force simp: scalar_value_def)

lemma tail_small: "n mod 64 < 64" "n div 64 mod 64 < 64" "n div 4096 mod 64 < (64 :: nat)"
  by simp_all

lemma two_bytes:
  assumes "n < (0x800 :: nat)"
  shows "byte_of (char_of (0xC0 + n div 64)) = 0xC0 + n div 64"
    and "byte_of (char_of (0x80 + n mod 64)) = 0x80 + n mod 64"
  using assms by (intro byte_small; simp; fail)+

lemma redact_utf8_char:
  assumes "scalar_value n"
  shows "redact_control (utf8_char n @ s) =
     (if control_scalar n then replacement_char else utf8_char n) @ redact_control s"
  using assms
proof (cases rule: utf8_length_cases)
  case 1
  then show ?thesis by (auto simp: utf8_char_def redact_ascii control_scalar_def)
next
  case 2
  note b = two_bytes [OF 2(2)]
  show ?thesis
  proof (cases "n div 64 = 2")
    case True
    then have n: "n = 128 + n mod 64" using div_mult_mod_eq [of n 64] by simp
    then have "control_scalar n \<longleftrightarrow> n mod 64 \<le> 31" using 2 by (auto simp: control_scalar_def)
    then show ?thesis
      using 2 True b tail_small redact_C2 [of "char_of (0xC0 + n div 64)" "char_of (0x80 + n mod 64)" s]
      by (auto simp: utf8_char_def simp del: of_char_of)
  next
    case False
    then have "n div 64 \<noteq> 2" "160 \<le> n" using 2 by linarith+
    then show ?thesis using 2 False b tail_small
      by (auto simp: utf8_char_def redact_plain control_scalar_def simp del: of_char_of)
  qed
next
  case 3
  have "byte_of (char_of (0xE0 + n div 4096)) = 0xE0 + n div 4096" using 3 by (intro byte_small; simp; fail)+
  then show ?thesis using 3 tail_small
    by (simp add: utf8_char_def redact_plain redact_tail control_scalar_def del: of_char_of redact_control.simps)
next
  case 4
  have "byte_of (char_of (0xF0 + n div 262144)) = 0xF0 + n div 262144" using 4 by (intro byte_small; simp; fail)+
  then show ?thesis using 4 tail_small
    by (simp add: utf8_char_def redact_plain redact_tail control_scalar_def del: of_char_of redact_control.simps)
qed

lemma redact_utf8:
  "list_all scalar_value cs \<Longrightarrow>
     redact_control (utf8 cs) = utf8 (map (\<lambda>n. if control_scalar n then 0xFFFD else n) cs)"
proof (induction cs)
  case (Cons n cs)
  then show ?case using replacement_char_def redact_utf8_char [of n "utf8 cs"] by simp
qed simp

section \<open>Absence of control characters\<close>

lemma has_control_tail: "(k :: nat) < 64 \<Longrightarrow> has_control (char_of (128 + k) # s) \<longleftrightarrow> has_control s"
  by (simp add: byte_small del: of_char_of)

lemma has_control_plain:
  "128 \<le> byte_of c \<Longrightarrow> byte_of c \<noteq> 0xC2 \<Longrightarrow> has_control (c # s) \<longleftrightarrow> has_control s"
  by auto

lemma no_control_utf8_char:
  assumes "scalar_value n" "\<not> control_scalar n" "\<not> has_control s"
  shows "\<not> has_control (utf8_char n @ s)"
  using assms(1)
proof (cases rule: utf8_length_cases)
  case 1
  then show ?thesis using assms by (auto simp: utf8_char_def control_scalar_def)
next
  case 2
  have "160 \<le> n" using assms(2) 2 by (auto simp: control_scalar_def)
  then have "\<not> (n div 64 = 2 \<and> n mod 64 \<le> 31)"
    using div_mult_mod_eq [of n 64] by linarith
  then show ?thesis using 2 two_bytes [OF 2(2)] tail_small assms(3)
    by (auto simp: utf8_char_def has_control_tail simp del: of_char_of)
next
  case 3
  have "byte_of (char_of (0xE0 + n div 4096)) = 0xE0 + n div 4096" using 3 by (intro byte_small; simp; fail)+
  then show ?thesis using 3 tail_small assms(3)
    by (simp add: utf8_char_def has_control_plain has_control_tail del: of_char_of has_control.simps)
next
  case 4
  have "byte_of (char_of (0xF0 + n div 262144)) = 0xF0 + n div 262144" using 4 by (intro byte_small; simp; fail)+
  then show ?thesis using 4 tail_small assms(3)
    by (simp add: utf8_char_def has_control_plain has_control_tail del: of_char_of has_control.simps)
qed

lemma no_control_utf8:
  "list_all scalar_value cs \<Longrightarrow> \<forall>n\<in>set cs. \<not> control_scalar n \<Longrightarrow> \<not> has_control (utf8 cs)"
  by (induction cs) (use no_control_utf8_char in auto)

section \<open>The retained reason\<close>

lemma bounded_audit_reason_text:
  assumes "valid_utf8 reason"
  shows "valid_utf8 (bounded_audit_reason reason) \<and> \<not> has_control (bounded_audit_reason reason)"
proof -
  obtain cs where cs: "list_all scalar_value cs" "reason = utf8 cs" using assms by (auto simp: valid_utf8_def)
  let ?ds = "map (\<lambda>n. if control_scalar n then 0xFFFD else n) cs"
  have r: "redact_control reason = utf8 ?ds" using redact_utf8 [OF cs(1)] cs(2) by simp
  have ds: "list_all scalar_value ?ds" "\<forall>n\<in>set ?ds. \<not> control_scalar n"
    using cs(1) by (auto simp: list_all_iff scalar_value_def control_scalar_def)
  have "\<exists>k. bounded_audit_reason reason = utf8 (take k ?ds)"
  proof (cases "length (utf8 ?ds) \<le> MAX_AUDIT_REASON_BYTES")
    case True
    then have "bounded_audit_reason reason = utf8 (take (length ?ds) ?ds)"
      by (simp add: bounded_audit_reason_def r)
    then show ?thesis by blast
  next
    case False
    then have "floor_boundary (utf8 ?ds) MAX_AUDIT_REASON_BYTES \<le> length (utf8 ?ds)"
      using floor_boundary_le [of "utf8 ?ds" MAX_AUDIT_REASON_BYTES] by linarith
    from take_boundary_utf8 [OF this floor_boundary_boundary] False show ?thesis
      by (auto simp: bounded_audit_reason_def r)
  qed
  then obtain k where k: "bounded_audit_reason reason = utf8 (take k ?ds)" by blast
  have "set (take k ?ds) \<subseteq> set ?ds" by (rule set_take_subset)
  then have t: "list_all scalar_value (take k ?ds)" "\<forall>n\<in>set (take k ?ds). \<not> control_scalar n"
    using ds unfolding list_all_iff by blast+
  from t(1) have "valid_utf8 (utf8 (take k ?ds))" unfolding valid_utf8_def by (intro exI [of _ "take k ?ds"] conjI refl)
  then show ?thesis unfolding k using no_control_utf8 [OF t] by blast
qed

end
