(* ===== verification/Lifecycle_Spec.thy ===== *)
theory Lifecycle_Spec
  imports Plugin_Lifecycle Audit_Text
begin

text \<open>
  The contract of the plugin manager as a small abstract machine: per plugin a digest, a phase with its
  generation and at most one pending digest. \<open>PluginManager\<close> refines it, step by step.
\<close>

section \<open>The abstract machine\<close>

datatype phase = Fresh | Running u64 | Idle u64 | Dead u64

type_synonym spec_entry = "package_digest \<times> phase \<times> package_digest option"
type_synonym spec_state = "plugin_key \<Rightarrow> spec_entry option"

definition advance :: "package_digest \<Rightarrow> u64 \<Rightarrow> spec_entry option \<Rightarrow> (u64 \<Rightarrow> spec_entry) \<Rightarrow> spec_entry option" where
  "advance d g e f = (case checked_succ g of Some g' \<Rightarrow> Some (f g') | None \<Rightarrow> e)"

fun spec_key :: "manager_op \<Rightarrow> plugin_key" where
  "spec_key (OpDiscover plugin project d) = (project, plugin)"
| "spec_key (OpEnable host project plugin) = (project, plugin)"
| "spec_key (OpDisable project plugin) = (project, plugin)"
| "spec_key (OpCrash project plugin reason) = (project, plugin)"
| "spec_key (OpReplace host project plugin e c) = (project, plugin)"
| "spec_key (OpRejectUpdate project plugin) = (project, plugin)"

fun spec_entry_step :: "manager_op \<Rightarrow> spec_entry option \<Rightarrow> spec_entry option" where
  "spec_entry_step (OpDiscover plugin project d) e =
     (case e of
        None \<Rightarrow> Some (d, Fresh, None)
      | Some (d0, Running g, p) \<Rightarrow> if d0 = d then e else Some (d0, Running g, Some d)
      | _ \<Rightarrow> e)"
| "spec_entry_step (OpEnable host project plugin) e =
     (case e of
        Some (d, Fresh, p) \<Rightarrow> Some (d, Running 1, p)
      | Some (d, Idle g, p) \<Rightarrow> advance d g e (\<lambda>g'. (d, Running g', p))
      | _ \<Rightarrow> e)"
| "spec_entry_step (OpDisable project plugin) e =
     (case e of Some (d, Running g, p) \<Rightarrow> Some (d, Idle g, p) | _ \<Rightarrow> e)"
| "spec_entry_step (OpCrash project plugin reason) e =
     (case e of Some (d, Running g, p) \<Rightarrow> Some (d, Dead g, p) | _ \<Rightarrow> e)"
| "spec_entry_step (OpReplace host project plugin old c) e =
     (case e of
        Some (d, Running g, Some c') \<Rightarrow>
          if d = old \<and> c' = c then advance d g e (\<lambda>g'. (c, Running g', None)) else e
      | _ \<Rightarrow> e)"
| "spec_entry_step (OpRejectUpdate project plugin) e =
     (case e of Some (d, ph, p) \<Rightarrow> Some (d, ph, None) | None \<Rightarrow> None)"

definition spec_step :: "spec_state \<Rightarrow> manager_op \<Rightarrow> spec_state" where
  "spec_step A a = A(spec_key a := spec_entry_step a (A (spec_key a)))"

section \<open>Abstraction\<close>

definition phase_of :: "plugin_instance \<Rightarrow> phase" where
  "phase_of i =
     (case pi_activation_generation i of
        None \<Rightarrow> Fresh
      | Some g \<Rightarrow> if pi_state i = Active then Running g else if pi_state i = Crashed then Dead g else Idle g)"

definition abs_entry :: "plugin_instance option \<Rightarrow> package_digest option \<Rightarrow> spec_entry option" where
  "abs_entry i p = map_option (\<lambda>i. (pi_package_digest i, phase_of i, p)) i"

definition abs_manager :: "plugin_manager \<Rightarrow> spec_state" where
  "abs_manager m = (\<lambda>k. abs_entry (bt_get (pm_instances m) k) (bt_get (pm_pending_updates m) k))"

lemma phase_of_active: "instance_ok k i \<Longrightarrow> pi_state i = Active \<Longrightarrow>
    \<exists>g. pi_activation_generation i = Some g \<and> phase_of i = Running g"
  by (cases "pi_activation_generation i") (auto simp: instance_ok_def phase_of_def)

lemma phase_of_activated: "activated i g host i' \<Longrightarrow> phase_of i' = Running g"
  by (simp add: activated_def phase_of_def)

lemma phase_of_halted:
  "halted s i i' \<Longrightarrow> pi_activation_generation i = Some g \<Longrightarrow> s \<in> {Stopped, Crashed} \<Longrightarrow>
     phase_of i' = (if s = Crashed then Dead g else Idle g)"
  by (auto simp: halted_def phase_of_def)

text \<open>Away from its key an operation changes nothing.\<close>

lemma manager_step_frame:
  "k \<noteq> spec_key a \<Longrightarrow> bt_get (pm_instances (manager_step m a)) k = bt_get (pm_instances m) k \<and>
     bt_get (pm_pending_updates (manager_step m a)) k = bt_get (pm_pending_updates m) k"
  by (cases a)
    (auto simp: discover_def enable_def disable_def mark_crashed_def replace_def reject_update_def Let_def
      put_instance_def split: option.split sum.split)

abbreviation commutes_at :: "plugin_manager \<Rightarrow> manager_op \<Rightarrow> bool" where
  "commutes_at m a \<equiv>
     abs_entry (bt_get (pm_instances (manager_step m a)) (spec_key a))
       (bt_get (pm_pending_updates (manager_step m a)) (spec_key a)) =
     spec_entry_step a (abs_manager m (spec_key a))"

lemma abs_at:
  assumes "commutes_at m a"
  shows "abs_manager (manager_step m a) = spec_step (abs_manager m) a"
  using assms manager_step_frame [of _ a m] by (auto simp: abs_manager_def spec_step_def fun_eq_iff)

lemma instance_at:
  assumes "manager_inv m" "bt_get (pm_instances m) k = Some i"
  shows "instance_ok k i"
  using manager_invD(4) [OF assms(1), of k] assms(2) by (simp add: key_inv_def)

lemma abs_enable:
  assumes inv: "manager_inv m"
  shows "abs_manager (manager_step m (OpEnable host project plugin)) =
     spec_step (abs_manager m) (OpEnable host project plugin)"
proof (rule abs_at, cases "bt_get (pm_instances m) (project, plugin)")
  case None
  then show "commutes_at m (OpEnable host project plugin)"
    by (simp add: enable_def abs_manager_def abs_entry_def)
next
  case (Some i)
  note ok = instance_at [OF inv Some]
  have st: "pi_state i \<in> {Discovered, Active, Stopped, Crashed}" using ok by (simp add: instance_ok_def)
  show "commutes_at m (OpEnable host project plugin)"
  proof (cases "pi_state i \<in> {Active, Crashed}")
    case True
    then obtain g where "pi_activation_generation i = Some g" using ok by (auto simp: instance_ok_def)
    then have "phase_of i = Running g \<or> phase_of i = Dead g" using True by (auto simp: phase_of_def)
    with enable_refused [OF manager_invD(1) [OF inv] Some True, of host] Some show ?thesis
      by (auto simp: abs_manager_def abs_entry_def)
  next
    case False
    with st have st: "pi_state i \<in> {Discovered, Stopped, Disabled}" by auto
    show ?thesis
    proof (cases "enable_generation i")
      case None
      then obtain g where "pi_activation_generation i = Some g" "checked_succ g = None"
        by (auto simp: enable_generation_def split: option.splits)
      moreover from this have "phase_of i = Idle g" using False by (simp add: phase_of_def)
      ultimately show ?thesis
        using Some None by (simp add: enable_def abs_manager_def abs_entry_def advance_def)
    next
      case g: (Some g)
      from enable_effect [OF Some st g enable_generation_nonzero [OF g], of host] obtain i' where
        i': "activated i g host i'" "enable host m project plugin = ((put_instance (project, plugin) i' m)
          \<lparr>pm_accepted := bt_insert (project, plugin) (pi_package_digest i) (pm_accepted m)\<rparr>, Ok ())" by blast
      have "phase_of i' = Running g" "pi_package_digest i' = pi_package_digest i"
        using phase_of_activated [OF i'(1)] i'(1) by (simp_all add: activated_def)
      moreover have "phase_of i = (case pi_activation_generation i of None \<Rightarrow> Fresh | Some g \<Rightarrow> Idle g)"
        using False by (auto simp: phase_of_def split: option.split)
      ultimately show ?thesis using Some g
        by (auto simp: i'(2) abs_manager_def abs_entry_def advance_def enable_generation_def put_instance_def
            split: option.splits)
    qed
  qed
qed

lemma abs_halt:
  assumes inv: "manager_inv m"
  shows "abs_manager (manager_step m (OpDisable project plugin)) = spec_step (abs_manager m) (OpDisable project plugin)"
    and "abs_manager (manager_step m (OpCrash project plugin reason)) = spec_step (abs_manager m) (OpCrash project plugin reason)"
proof -
  show "abs_manager (manager_step m (OpDisable project plugin)) = spec_step (abs_manager m) (OpDisable project plugin)"
  proof (rule abs_at, cases "bt_get (pm_instances m) (project, plugin)")
    case (Some i)
    note ok = instance_at [OF inv Some]
    show "commutes_at m (OpDisable project plugin)"
    proof (cases "pi_state i = Active")
      case True
      then obtain g where g: "pi_activation_generation i = Some g" "phase_of i = Running g" using phase_of_active [OF ok] by blast
      from disable_effect [OF Some True] obtain i' where
        "halted Stopped i i'" "disable m project plugin = (put_instance (project, plugin) i' m, Ok ())" by blast
      with g phase_of_halted [of Stopped i i' g] Some show ?thesis
        by (simp add: abs_manager_def abs_entry_def halted_def)
    next
      case False
      then have "\<nexists>g. phase_of i = Running g" by (auto simp: phase_of_def split: option.splits)
      with disable_refused [OF manager_invD(1) [OF inv] Some False] Some show ?thesis
        by (cases "phase_of i") (simp_all add: abs_manager_def abs_entry_def)
    qed
  qed (simp add: disable_def abs_manager_def abs_entry_def)
  show "abs_manager (manager_step m (OpCrash project plugin reason)) = spec_step (abs_manager m) (OpCrash project plugin reason)"
  proof (rule abs_at, cases "bt_get (pm_instances m) (project, plugin)")
    case (Some i)
    note ok = instance_at [OF inv Some]
    show "commutes_at m (OpCrash project plugin reason)"
    proof (cases "pi_state i = Active")
      case True
      then obtain g where g: "pi_activation_generation i = Some g" "phase_of i = Running g" using phase_of_active [OF ok] by blast
      from crash_effect [OF Some True, of reason] obtain i' where
        "halted Crashed i i'" "mark_crashed m project plugin reason = (put_instance (project, plugin) i' m, Ok ())" by blast
      with g phase_of_halted [of Crashed i i' g] Some show ?thesis
        by (simp add: abs_manager_def abs_entry_def halted_def)
    next
      case False
      then have "\<nexists>g. phase_of i = Running g" by (auto simp: phase_of_def split: option.splits)
      with crash_refused [OF Some False, of reason] Some show ?thesis
        by (cases "phase_of i") (simp_all add: abs_manager_def abs_entry_def)
    qed
  qed (simp add: mark_crashed_def abs_manager_def abs_entry_def)
qed

lemma abs_discover:
  assumes inv: "manager_inv m"
  shows "abs_manager (manager_step m (OpDiscover plugin project d)) =
     spec_step (abs_manager m) (OpDiscover plugin project d)"
proof (rule abs_at, cases "bt_get (pm_instances m) (project, plugin)")
  case None
  then have "bt_get (pm_pending_updates m) (project, plugin) = None"
    using manager_invD(4) [OF inv, of "(project, plugin)"] by (simp add: key_inv_def)
  with None show "commutes_at m (OpDiscover plugin project d)"
    by (simp add: discover_def abs_manager_def abs_entry_def PluginInstance_new_def phase_of_def Let_def)
next
  case (Some i)
  show "commutes_at m (OpDiscover plugin project d)"
  proof (cases "pi_state i = Active")
    case True
    then obtain g where "phase_of i = Running g" using phase_of_active [OF instance_at [OF inv Some]] by blast
    then show ?thesis using Some True by (auto simp: discover_def abs_manager_def abs_entry_def Let_def)
  next
    case False
    then have "\<nexists>g. phase_of i = Running g" by (auto simp: phase_of_def split: option.splits)
    then show ?thesis using Some False
      by (cases "phase_of i") (auto simp: discover_def abs_manager_def abs_entry_def Let_def)
  qed
qed

lemma abs_replace:
  assumes inv: "manager_inv m"
  shows "abs_manager (manager_step m (OpReplace host project plugin e c)) =
     spec_step (abs_manager m) (OpReplace host project plugin e c)"
proof (rule abs_at, cases "bt_get (pm_instances m) (project, plugin)")
  case None
  then have "bt_get (pm_accepted m) (project, plugin) = None"
    using manager_invD(4) [OF inv, of "(project, plugin)"] by (simp add: key_inv_def)
  with None show "commutes_at m (OpReplace host project plugin e c)"
    by (simp add: replace_def abs_manager_def abs_entry_def Let_def)
next
  case (Some i)
  note kinv = manager_invD(4) [OF inv, of "(project, plugin)"]
  show "commutes_at m (OpReplace host project plugin e c)"
  proof (cases "pi_state i = Active")
    case True
    then obtain g where g: "pi_activation_generation i = Some g" "phase_of i = Running g"
      using phase_of_active [OF instance_at [OF inv Some]] by blast
    have acc: "bt_get (pm_accepted m) (project, plugin) = Some (pi_package_digest i)"
      using kinv Some True by (simp add: key_inv_def)
    show ?thesis
    proof (cases "pi_package_digest i = e \<and> bt_get (pm_pending_updates m) (project, plugin) = Some c")
      case yes: True
      show ?thesis
      proof (cases "checked_succ g")
        case None
        then show ?thesis using yes Some True g acc
          by (simp add: replace_def abs_manager_def abs_entry_def advance_def Let_def)
      next
        case (Some g')
        then have "g' \<noteq> 0" using checked_succ_Some by blast
        then show ?thesis using yes \<open>bt_get _ _ = Some i\<close> True g acc Some
          by (simp add: replace_def abs_manager_def abs_entry_def advance_def Let_def
              ActivationGeneration_new_def phase_of_def)
      qed
    next
      case no: False
      then have "manager_step m (OpReplace host project plugin e c) = m"
        using acc by (auto simp: replace_def Let_def)
      then show ?thesis using no Some g(2)
        by (auto simp: abs_manager_def abs_entry_def split: option.split)
    qed
  next
    case False
    then have nr: "\<nexists>g. phase_of i = Running g" by (auto simp: phase_of_def split: option.splits)
    have "manager_step m (OpReplace host project plugin e c) = m"
      using False Some by (auto simp: replace_def Let_def split: option.split)
    then show ?thesis using nr Some by (cases "phase_of i") (simp_all add: abs_manager_def abs_entry_def)
  qed
qed

lemma abs_reject:
  "abs_manager (manager_step m (OpRejectUpdate project plugin)) = spec_step (abs_manager m) (OpRejectUpdate project plugin)"
  by (rule abs_at) (simp add: reject_update_def abs_manager_def abs_entry_def split: option.split)

interpretation manager_refines: refinement PluginManager_new manager_step manager_inv "\<lambda>_. None" spec_step abs_manager
proof
  show "abs_manager PluginManager_new = (\<lambda>_. None)"
    by (simp add: abs_manager_def abs_entry_def PluginManager_new_def)
  fix s a assume "manager_inv s"
  then show "abs_manager (manager_step s a) = spec_step (abs_manager s) a"
    by (cases a) (simp_all only: abs_enable abs_halt abs_discover abs_replace abs_reject)
qed

end
