(* ===== verification/Lifecycle_Properties.thy ===== *)
theory Lifecycle_Properties
  imports Lifecycle_Spec
begin

text \<open>
  The properties of the plugin manager, for every sequence of operations, with one plugin taken
  through discovery, enabling, an update and a crash as the running example.
\<close>

section \<open>The running example\<close>

definition demo_ops :: "manager_op list" where
  "demo_ops = [OpDiscover ''a'' ''s'' ''d1'', OpEnable ''h1'' ''s'' ''a'', OpDiscover ''a'' ''s'' ''d2'']"

definition demo_manager :: plugin_manager where
  "demo_manager = run manager_step PluginManager_new demo_ops"

lemma demo_abs: "abs_manager demo_manager (''s'', ''a'') = Some (''d1'', Running 1, Some ''d2'')"
  unfolding demo_manager_def manager_refines.abs_run
  by (simp add: demo_ops_def spec_step_def)

lemma demo_inv: "manager_inv demo_manager"
  unfolding demo_manager_def by (rule lifecycle.inv_run)

lemma demo_entry:
  obtains i where "bt_get (pm_instances demo_manager) (''s'', ''a'') = Some i" "pi_state i = Active"
    "pi_activation_generation i = Some 1" "pi_package_digest i = ''d1''"
    "bt_get (pm_accepted demo_manager) (''s'', ''a'') = Some ''d1''"
    "bt_get (pm_pending_updates demo_manager) (''s'', ''a'') = Some ''d2''"
proof -
  from demo_abs obtain i where i: "bt_get (pm_instances demo_manager) (''s'', ''a'') = Some i"
    "pi_package_digest i = ''d1''" "phase_of i = Running 1"
    "bt_get (pm_pending_updates demo_manager) (''s'', ''a'') = Some ''d2''"
    by (auto simp: abs_manager_def abs_entry_def)
  then have s: "pi_state i = Active" "pi_activation_generation i = Some 1"
    by (auto simp: phase_of_def split: option.splits if_splits)
  with i manager_invD(4) [OF demo_inv, of "(''s'', ''a'')"]
  have "bt_get (pm_accepted demo_manager) (''s'', ''a'') = Some ''d1''" by (simp add: key_inv_def)
  with i s that show ?thesis by blast
qed

lemma demo_replaces: "\<exists>m. replace ''h2'' demo_manager ''s'' ''a'' ''d1'' ''d2'' = (m, Ok ())"
proof -
  obtain i where i: "bt_get (pm_instances demo_manager) (''s'', ''a'') = Some i" "pi_state i = Active"
    "pi_activation_generation i = Some 1" "bt_get (pm_accepted demo_manager) (''s'', ''a'') = Some ''d1''"
    "bt_get (pm_pending_updates demo_manager) (''s'', ''a'') = Some ''d2''"
    by (rule demo_entry)
  have "checked_succ 1 = Some 2" by (simp add: checked_succ_def)
  with i show ?thesis by (simp add: replace_def Let_def ActivationGeneration_new_def)
qed

section \<open>Properties\<close>

text \<open>C15. The plugin manager implements its contract: seen through the abstraction (per plugin a digest, a
  phase with its generation and a pending digest) every sequence of operations does exactly what the
  abstract machine does.\<close>

theorem manager_implements_contract:
  "abs_manager (run manager_step PluginManager_new acts) = run spec_step (\<lambda>_. None) acts"
  by (rule manager_refines.abs_run)

text \<open>C16. In every reachable manager an instance is stored under its own key, has a host instance exactly when
  it is routable, an activation generation exactly when it was enabled once, a bounded audit trail, and
  its package digest is the accepted one; a pending digest always differs from it.\<close>

theorem manager_invariant: "manager_inv (run manager_step PluginManager_new acts)"
  by (rule lifecycle.inv_run)

text \<open>C17. Enabling is all or nothing: it either activates the instance, with the next generation and the
  instance's digest recorded as accepted, or reports an error and leaves the manager as it was.\<close>

theorem enable_all_or_nothing:
  assumes "m = run manager_step PluginManager_new acts" and "enable host m project plugin = (m', r)"
  shows "(r = Ok () \<longrightarrow> (\<exists>i g i'. bt_get (pm_instances m) (project, plugin) = Some i \<and>
        enable_generation i = Some g \<and> activated i g host i' \<and>
        bt_get (pm_instances m') (project, plugin) = Some i' \<and>
        bt_get (pm_accepted m') (project, plugin) = Some (pi_package_digest i))) \<and>
     (r \<noteq> Ok () \<longrightarrow> m' = m)"
proof (cases "bt_get (pm_instances m) (project, plugin)")
  case (Some i)
  have inv: "manager_inv m" using lifecycle.inv_run assms(1) by blast
  have st: "pi_state i \<in> {Discovered, Active, Stopped, Crashed}"
    using instance_at [OF inv Some] by (simp add: instance_ok_def)
  show ?thesis
  proof (cases "pi_state i \<in> {Active, Crashed}")
    case True
    with enable_refused [OF manager_invD(1) [OF inv] Some, of host] assms(2) show ?thesis by auto
  next
    case False
    with st have st: "pi_state i \<in> {Discovered, Stopped, Disabled}" by auto
    show ?thesis
    proof (cases "enable_generation i")
      case None
      with Some assms(2) show ?thesis by (auto simp: enable_def)
    next
      case g: (Some g)
      from enable_effect [OF Some st g enable_generation_nonzero [OF g], of host] assms(2) Some g show ?thesis
        by (auto simp: put_instance_def)
    qed
  qed
qed (use assms(2) in \<open>auto simp: enable_def\<close>)

theorem enable_all_or_nothing_witness:
  "fst (enable ''h'' demo_manager ''s'' ''a'') = demo_manager"
proof -
  obtain i where i: "bt_get (pm_instances demo_manager) (''s'', ''a'') = Some i" "pi_state i = Active"
    by (rule demo_entry)
  obtain m' r where e: "enable ''h'' demo_manager ''s'' ''a'' = (m', r)"
    by (cases "enable ''h'' demo_manager ''s'' ''a''")
  have "r \<noteq> Ok ()"
    using enable_refused [OF manager_invD(1) [OF demo_inv] i(1), of "''h''"] i(2) e by auto
  with enable_all_or_nothing [OF demo_manager_def e] e show ?thesis by simp
qed

text \<open>Activation generations are never reused: after a successful replacement, every later generation of
  that plugin is at least the new one, which is the old one plus one without wrap-around.\<close>

theorem generations_strictly_grow:
  assumes "m = run manager_step PluginManager_new acts" and "generation_of m (project, plugin) = Some g"
    and "replace host m project plugin old new = (m', Ok ())"
  shows "\<exists>g'. generation_of (run manager_step m' future) (project, plugin) = Some g' \<and> unat g < unat g'"
proof -
  have inv: "manager_inv m" using lifecycle.inv_run assms(1) by blast
  then have inv': "manager_inv m'" using replace_inv [OF inv, of host project plugin old new] assms(3) by simp
  from assms(3) obtain i n where i: "bt_get (pm_instances m) (project, plugin) = Some i"
    "Option.bind (pi_activation_generation i) checked_succ = Some n"
    "m' = replace_result host m (project, plugin) new n i"
    by (cases rule: replace_cases) auto
  have "checked_succ g = Some n" using i(1,2) assms(2) by (auto simp: generation_of_def Option.bind_eq_Some_conv)
  then have lt: "unat g < unat n" using checked_succ_Some by fastforce
  have "gen_at_least (project, plugin) n m'"
    by (simp add: i(3) gen_at_least_def generation_of_def replace_result_def put_instance_def replaced_def)
  from generations.P_run [OF inv' this, of future] lt show ?thesis
    by (auto simp: gen_at_least_def word_le_nat_alt)
qed

theorem generations_strictly_grow_witness:
  "\<exists>m g'. replace ''h2'' demo_manager ''s'' ''a'' ''d1'' ''d2'' = (m, Ok ()) \<and>
     generation_of (run manager_step m [OpDisable ''s'' ''a'', OpEnable ''h3'' ''s'' ''a'']) (''s'', ''a'') = Some g' \<and>
     1 < unat g'"
proof -
  obtain m where m: "replace ''h2'' demo_manager ''s'' ''a'' ''d1'' ''d2'' = (m, Ok ())" using demo_replaces by blast
  obtain i where "bt_get (pm_instances demo_manager) (''s'', ''a'') = Some i" "pi_activation_generation i = Some 1"
    by (rule demo_entry)
  then have "generation_of demo_manager (''s'', ''a'') = Some 1" by (simp add: generation_of_def)
  from generations_strictly_grow [OF demo_manager_def this m,
      of "[OpDisable ''s'' ''a'', OpEnable ''h3'' ''s'' ''a'']"] m show ?thesis
    by (simp only: unat_1) blast
qed

text \<open>Of two rival replacements that expect the same accepted digest at most one is published: after the
  first succeeds, the second is refused and changes nothing.\<close>

theorem replacement_one_winner:
  assumes "m = run manager_step PluginManager_new acts"
    and "replace host m project plugin old new = (m', Ok ())"
  shows "\<exists>e. replace host' m' project plugin old new' = (m', Err e)"
proof -
  have inv: "manager_inv m" using lifecycle.inv_run assms(1) by blast
  have "try_replace project plugin m (Some old) (host, new) = Some m'" using assms(2) by (simp add: try_replace_Some)
  from replacement.one_winner [OF inv this] have n: "try_replace project plugin m' (Some old) (host', new') = None" .
  obtain m'' r where r: "replace host' m' project plugin old new' = (m'', r)"
    by (cases "replace host' m' project plugin old new'")
  then show ?thesis
  proof (cases rule: replace_cases)
    case (published i g)
    with r have "try_replace project plugin m' (Some old) (host', new') = Some m''" by (simp add: try_replace_Some)
    with n show ?thesis by simp
  qed (use r in simp)
qed

theorem replacement_one_winner_witness:
  "\<exists>m e. replace ''h2'' demo_manager ''s'' ''a'' ''d1'' ''d2'' = (m, Ok ()) \<and>
     replace ''h3'' m ''s'' ''a'' ''d1'' ''d3'' = (m, Err e)"
  using demo_replaces replacement_one_winner [OF demo_manager_def] by blast



text \<open>What the audit trail retains of a reason is at most 512 bytes of valid UTF-8 without any control
  character, for every valid text, however long.\<close>

theorem audit_reason_bounded:
  assumes "valid_utf8 reason"
  shows "length (bounded_audit_reason reason) \<le> MAX_AUDIT_REASON_BYTES \<and>
     valid_utf8 (bounded_audit_reason reason) \<and> \<not> has_control (bounded_audit_reason reason)"
  using bounded_audit_reason_text [OF assms] bounded_audit_reason_length by blast

theorem audit_reason_bounded_witness:
  "length (bounded_audit_reason (replicate 600 (CHR ''x''))) \<le> MAX_AUDIT_REASON_BYTES"
proof -
  have "valid_utf8 (replicate 600 (CHR ''x''))" by (rule valid_utf8_ascii) simp
  from audit_reason_bounded [OF this] show ?thesis by blast
qed

end
