(* ===== verification/Evaluation.thy ===== *)
theory Evaluation
  imports Identifiers
begin

text \<open>
  Protected evaluation and manual promotion:
  \<^verbatim>\<open>crates/rho-extension-runtime/src/evaluation.rs\<close>. A plan is sealed before its result is known,
  evidence is decided against the sealed plan by hard gates, and only accepted evidence gives a
  promotion. The JSON encoding of a plan (the \<open>serde_json\<close> crate) is the parameter \<open>encode\<close>, which
  may fail, and SHA-256 the parameter \<open>sha\<close>.
\<close>

section \<open>Plans, evidence and decisions\<close>

record evaluation_plan =
  ep_plan_id :: string
  ep_project_id :: scope_id
  ep_lineage_id :: string
  ep_plugin_id :: plugin_id
  ep_baseline_digest :: package_digest
  ep_candidate_digest :: package_digest
  ep_protected_fixture_set_digest :: package_digest
  ep_mandatory_cases :: "string list"
  ep_required_layers :: "string list"
  ep_minimum_improvement_rule :: "string option"
  ep_rejection_conditions :: "string list"

record sealed_evaluation_plan =
  sp_plan :: evaluation_plan
  sp_seal_digest :: package_digest

record layer_result =
  lr_layer :: string
  lr_passed :: bool
  lr_notes :: "string list"

record case_result =
  cr_case_id :: string
  cr_passed :: bool
  cr_observation :: string

record evaluation_evidence =
  ev_evidence_id :: string
  ev_plan_id :: string
  ev_plan_seal_digest :: package_digest
  ev_candidate_digest :: package_digest
  ev_layers :: "layer_result list"
  ev_cases :: "case_result list"
  ev_triggered_rejection_conditions :: "string list"
  ev_safety_invariants_held :: bool
  ev_claimed_improvement_met :: bool

datatype evaluation_decision = Accept | Reject | Inconclusive

datatype evaluation_error =
  TamperedFixture | MandatoryRegressionFailed | SafetyInvariantViolated | UnsealedPlan | PlanMismatch
| LayerFailed | RejectionConditionTriggered | DuplicateEvidence | PromotionNotAccepted

definition has_duplicates :: "string list \<Rightarrow> bool" where
  "has_duplicates values = dup_scan {} values"

definition has_duplicates_by :: "'a list \<Rightarrow> ('a \<Rightarrow> string) \<Rightarrow> bool" where
  "has_duplicates_by values key = dup_scan {} (map key values)"

definition plan_unsealable :: "evaluation_plan \<Rightarrow> bool" where
  "plan_unsealable p \<longleftrightarrow>
     ep_plan_id p = [] \<or> ep_baseline_digest p = ep_candidate_digest p \<or> ep_mandatory_cases p = [] \<or>
     ep_required_layers p = [] \<or> ep_rejection_conditions p = [] \<or>
     has_duplicates (ep_mandatory_cases p) \<or> has_duplicates (ep_required_layers p) \<or>
     has_duplicates (ep_rejection_conditions p)"

definition seal ::
  "(string \<Rightarrow> string) \<Rightarrow> (evaluation_plan \<Rightarrow> string option) \<Rightarrow> evaluation_plan \<Rightarrow>
   (evaluation_error, sealed_evaluation_plan) result" where
  "seal sha encode p =
     (if plan_unsealable p then Err UnsealedPlan
      else (case encode p of
              None \<Rightarrow> Err UnsealedPlan
            | Some encoded \<Rightarrow>
                Ok \<lparr>sp_plan = p, sp_seal_digest = from_inventory sha [(''rho-evaluation-plan-v1'', encoded)]\<rparr>))"

text \<open>The two loops over what the plan requires: present, then passed.\<close>

definition require_case :: "case_result list \<Rightarrow> string \<Rightarrow> (evaluation_error, unit) result" where
  "require_case cases case_id =
     (case find (\<lambda>c. cr_case_id c = case_id) cases of
        None \<Rightarrow> Err TamperedFixture
      | Some result \<Rightarrow> if \<not> cr_passed result then Err MandatoryRegressionFailed else Ok ())"

definition require_layer :: "layer_result list \<Rightarrow> string \<Rightarrow> (evaluation_error, unit) result" where
  "require_layer layers layer_id =
     (case find (\<lambda>l. lr_layer l = layer_id) layers of
        None \<Rightarrow> Err TamperedFixture
      | Some result \<Rightarrow> if \<not> lr_passed result then Err LayerFailed else Ok ())"

definition known_condition :: "string list \<Rightarrow> string \<Rightarrow> (evaluation_error, unit) result" where
  "known_condition conditions c = (if c \<notin> set conditions then Err TamperedFixture else Ok ())"

definition decide ::
  "evaluation_evidence \<Rightarrow> sealed_evaluation_plan \<Rightarrow> (evaluation_error, evaluation_decision) result" where
  "decide ev sealed_plan =
     (let plan = sp_plan sealed_plan in
      if ev_plan_id ev \<noteq> ep_plan_id plan \<or> ev_plan_seal_digest ev \<noteq> sp_seal_digest sealed_plan \<or>
         ev_candidate_digest ev \<noteq> ep_candidate_digest plan
      then Err PlanMismatch
      else if has_duplicates_by (ev_cases ev) cr_case_id \<or> has_duplicates_by (ev_layers ev) lr_layer \<or>
         has_duplicates (ev_triggered_rejection_conditions ev)
      then Err DuplicateEvidence
      else
        try_res (for_each (require_case (ev_cases ev)) (ep_mandatory_cases plan)) (\<lambda>_.
        try_res (for_each (require_layer (ev_layers ev)) (ep_required_layers plan)) (\<lambda>_.
        if list_ex (\<lambda>l. \<not> lr_passed l) (ev_layers ev) then Err LayerFailed
        else
          try_res (for_each (known_condition (ep_rejection_conditions plan))
                     (ev_triggered_rejection_conditions ev)) (\<lambda>_.
          if ev_triggered_rejection_conditions ev \<noteq> [] then Err RejectionConditionTriggered
          else if \<not> ev_safety_invariants_held ev then Err SafetyInvariantViolated
          else if ep_minimum_improvement_rule plan \<noteq> None \<and> \<not> ev_claimed_improvement_met ev
          then Ok Inconclusive
          else Ok Accept))))"

section \<open>Manual promotion\<close>

record manual_promotion =
  mp_candidate_digest :: package_digest
  mp_parent_digest :: package_digest
  mp_rollback_digest :: package_digest
  mp_evidence_id :: string
  mp_plan_seal_digest :: package_digest
  mp_project_id :: scope_id
  mp_lineage_id :: string
  mp_plugin_id :: plugin_id

definition authorize ::
  "evaluation_evidence \<Rightarrow> sealed_evaluation_plan \<Rightarrow> package_digest \<Rightarrow> package_digest \<Rightarrow>
   (evaluation_error, manual_promotion) result" where
  "authorize evidence sealed_plan parent_digest rollback_digest =
     try_res (decide evidence sealed_plan) (\<lambda>decision.
       let plan = sp_plan sealed_plan in
       if decision \<noteq> Accept \<or> parent_digest \<noteq> ep_baseline_digest plan \<or>
          rollback_digest \<noteq> ep_baseline_digest plan
       then Err PromotionNotAccepted
       else Ok \<lparr>mp_candidate_digest = ep_candidate_digest plan, mp_parent_digest = parent_digest,
              mp_rollback_digest = rollback_digest, mp_evidence_id = ev_evidence_id evidence,
              mp_plan_seal_digest = sp_seal_digest sealed_plan, mp_project_id = ep_project_id plan,
              mp_lineage_id = ep_lineage_id plan, mp_plugin_id = ep_plugin_id plan\<rparr>)"

section \<open>The hard gates\<close>

text \<open>Evidence bound to the sealed plan by its id, its seal and the candidate's digest.\<close>

definition bound_to :: "evaluation_evidence \<Rightarrow> sealed_evaluation_plan \<Rightarrow> bool" where
  "bound_to ev s \<longleftrightarrow> ev_plan_id ev = ep_plan_id (sp_plan s) \<and> ev_plan_seal_digest ev = sp_seal_digest s \<and>
     ev_candidate_digest ev = ep_candidate_digest (sp_plan s)"

definition unambiguous :: "evaluation_evidence \<Rightarrow> bool" where
  "unambiguous ev \<longleftrightarrow> distinct (map cr_case_id (ev_cases ev)) \<and> distinct (map lr_layer (ev_layers ev))"

definition gates_pass :: "evaluation_evidence \<Rightarrow> evaluation_plan \<Rightarrow> bool" where
  "gates_pass ev p \<longleftrightarrow>
     (\<forall>c\<in>set (ep_mandatory_cases p). \<exists>r\<in>set (ev_cases ev). cr_case_id r = c \<and> cr_passed r) \<and>
     (\<forall>l\<in>set (ep_required_layers p). \<exists>r\<in>set (ev_layers ev). lr_layer r = l \<and> lr_passed r) \<and>
     (\<forall>r\<in>set (ev_layers ev). lr_passed r) \<and>
     ev_triggered_rejection_conditions ev = [] \<and> ev_safety_invariants_held ev"

lemma find_by_key:
  assumes "distinct (map key xs)"
  shows "find (\<lambda>x. key x = k) xs = Some r \<longleftrightarrow> r \<in> set xs \<and> key r = k"
  using assms by (induction xs) auto

lemma require_case_Ok:
  assumes "distinct (map cr_case_id cs)"
  shows "require_case cs c = Ok () \<longleftrightarrow> (\<exists>r\<in>set cs. cr_case_id r = c \<and> cr_passed r)"
proof (cases "find (\<lambda>r. cr_case_id r = c) cs")
  case None
  then have "\<not> is_ok (require_case cs c)" by (simp add: require_case_def del: is_ok_unit)
  with None show ?thesis by (auto simp: find_None_iff)
next
  case (Some r)
  with find_by_key [OF assms, of c] show ?thesis
    by (simp add: require_case_def) (metis option.inject)
qed

lemma require_layer_Ok:
  assumes "distinct (map lr_layer ls)"
  shows "require_layer ls l = Ok () \<longleftrightarrow> (\<exists>r\<in>set ls. lr_layer r = l \<and> lr_passed r)"
proof (cases "find (\<lambda>r. lr_layer r = l) ls")
  case None
  then have "\<not> is_ok (require_layer ls l)" by (simp add: require_layer_def del: is_ok_unit)
  with None show ?thesis by (auto simp: find_None_iff)
next
  case (Some r)
  with find_by_key [OF assms, of l] show ?thesis
    by (simp add: require_layer_def) (metis option.inject)
qed

lemma decide_Ok_iff:
  "decide ev s = Ok d \<longleftrightarrow>
     bound_to ev s \<and> unambiguous ev \<and> gates_pass ev (sp_plan s) \<and>
     d = (if ep_minimum_improvement_rule (sp_plan s) \<noteq> None \<and> \<not> ev_claimed_improvement_met ev
          then Inconclusive else Accept)"
proof (cases "bound_to ev s \<and> unambiguous ev \<and> ev_triggered_rejection_conditions ev = []")
  case True
  then have d: "distinct (map cr_case_id (ev_cases ev))" "distinct (map lr_layer (ev_layers ev))"
    by (simp_all add: unambiguous_def)
  show ?thesis using True
    by (auto simp: decide_def Let_def bound_to_def unambiguous_def gates_pass_def has_duplicates_def
        has_duplicates_by_def try_res_Ok_iff require_case_Ok [OF d(1)] require_layer_Ok [OF d(2)] list_ex_iff
        split: if_splits)
next
  case False
  then show ?thesis
    by (auto simp: decide_def Let_def bound_to_def unambiguous_def gates_pass_def has_duplicates_def
        has_duplicates_by_def try_res_Ok_iff split: if_splits)
qed

lemma decide_never_rejects: "decide ev s \<noteq> Ok Reject"
  by (simp add: decide_Ok_iff)

lemma authorize_Ok_iff:
  "authorize ev s parent rollback = Ok p \<longleftrightarrow>
     decide ev s = Ok Accept \<and> parent = ep_baseline_digest (sp_plan s) \<and> rollback = parent \<and>
     p = \<lparr>mp_candidate_digest = ep_candidate_digest (sp_plan s), mp_parent_digest = parent,
          mp_rollback_digest = parent, mp_evidence_id = ev_evidence_id ev,
          mp_plan_seal_digest = sp_seal_digest s, mp_project_id = ep_project_id (sp_plan s),
          mp_lineage_id = ep_lineage_id (sp_plan s), mp_plugin_id = ep_plugin_id (sp_plan s)\<rparr>"
  by (auto simp: authorize_def try_res_Ok_iff Let_def)

lemma seal_Ok_iff:
  "seal sha encode p = Ok s \<longleftrightarrow>
     \<not> plan_unsealable p \<and> (\<exists>encoded. encode p = Some encoded \<and>
        s = \<lparr>sp_plan = p, sp_seal_digest = from_inventory sha [(''rho-evaluation-plan-v1'', encoded)]\<rparr>)"
  by (auto simp: seal_def split: option.splits)

end
