(* ===== verification/Evolution.thy ===== *)
theory Evolution
  imports Evaluation
begin

text \<open>
  Governed evolution: the policy vocabulary and the lineages of
  \<^verbatim>\<open>crates/rho-extension-runtime/src/evolution.rs\<close> and the decision rules of
  \<^verbatim>\<open>gardener.rs\<close>. A lineage's accepted digest is a compare-and-swap pointer that only a promotion
  obtained from accepted evidence moves.
\<close>

section \<open>Autonomy, envelopes and policies\<close>

datatype autonomy_level =
  A0Off | A1Observe | A2Distill | A3Draft | A4ReviewToActivate | A5EnvelopeAutonomous

primrec autonomy_rank :: "autonomy_level \<Rightarrow> nat" where
  "autonomy_rank A0Off = 0"
| "autonomy_rank A1Observe = 1"
| "autonomy_rank A2Distill = 2"
| "autonomy_rank A3Draft = 3"
| "autonomy_rank A4ReviewToActivate = 4"
| "autonomy_rank A5EnvelopeAutonomous = 5"

lemma autonomy_rank_inj: "autonomy_rank a = autonomy_rank b \<Longrightarrow> a = b"
  by (cases a; cases b) simp_all

text \<open>The derived \<open>Ord\<close>: the order of the declarations.\<close>

instantiation autonomy_level :: linorder
begin

definition less_eq_autonomy_level :: "autonomy_level \<Rightarrow> autonomy_level \<Rightarrow> bool" where
  "a \<le> b \<longleftrightarrow> autonomy_rank a \<le> autonomy_rank b"

definition less_autonomy_level :: "autonomy_level \<Rightarrow> autonomy_level \<Rightarrow> bool" where
  "a < b \<longleftrightarrow> autonomy_rank a < autonomy_rank b"

instance
  by standard (auto simp: less_eq_autonomy_level_def less_autonomy_level_def autonomy_rank_inj)

end

definition DEFAULT_LINEAGE_AUTONOMY :: autonomy_level where "DEFAULT_LINEAGE_AUTONOMY = A3Draft"

record evolution_envelopes =
  ee_capability_namespaces :: "string list"
  ee_permission_classes :: "string list"
  ee_runtime_kinds :: "string list"
  ee_data_classes :: "string list"

definition subset_of :: "string list \<Rightarrow> string list \<Rightarrow> bool" where
  "subset_of candidate allowed \<longleftrightarrow> list_all (\<lambda>item. list_ex (\<lambda>a. a = item) allowed) candidate"

definition envelopes_contains :: "evolution_envelopes \<Rightarrow> evolution_envelopes \<Rightarrow> bool" where
  "envelopes_contains self candidate \<longleftrightarrow>
     subset_of (ee_capability_namespaces candidate) (ee_capability_namespaces self) \<and>
     subset_of (ee_permission_classes candidate) (ee_permission_classes self) \<and>
     subset_of (ee_runtime_kinds candidate) (ee_runtime_kinds self) \<and>
     subset_of (ee_data_classes candidate) (ee_data_classes self)"

lemma subset_of_iff [simp]: "subset_of xs ys \<longleftrightarrow> set xs \<subseteq> set ys"
  by (auto simp: subset_of_def list_all_iff list_ex_iff)

lemma envelopes_refl: "envelopes_contains e e"
  by (simp add: envelopes_contains_def)

lemma envelopes_trans: "envelopes_contains a b \<Longrightarrow> envelopes_contains b c \<Longrightarrow> envelopes_contains a c"
  by (auto simp: envelopes_contains_def)

datatype failure_class =
  InputPreconditionMismatch | PluginDefect | EnvironmentDependencyDrift | HostRuntimeDefect
| PermissionPolicyDenial | UpstreamCapabilityChange | UserCancellationOrStaleState | SecurityViolation
| UnknownFailure

definition is_autonomous_repair_eligible :: "failure_class \<Rightarrow> bool" where
  "is_autonomous_repair_eligible f \<longleftrightarrow> f = PluginDefect"

datatype lineage_state = LObserving | LDistilled | LExecutable | LDeprecated | LArchived

datatype version_state =
  VDraft | VValidating | VEvaluating | VReady | VActivating | VAccepted | VRejected | VFailed | VRollbackReady

datatype policy_match = WithinEnvelope | RequiresTrustedReview | PolicyRejected

record standing_policy =
  sy_policy_id :: string
  sy_revision :: u64
  sy_project_id :: scope_id
  sy_lineage_id :: string
  sy_autonomy :: autonomy_level
  sy_envelopes :: evolution_envelopes
  sy_revoked :: bool

definition StandingPolicy_new ::
  "string \<Rightarrow> u64 \<Rightarrow> scope_id \<Rightarrow> string \<Rightarrow> autonomy_level \<Rightarrow> evolution_envelopes \<Rightarrow> standing_policy" where
  "StandingPolicy_new policy_id revision project_id lineage_id autonomy envelopes =
     \<lparr>sy_policy_id = policy_id, sy_revision = revision, sy_project_id = project_id,
      sy_lineage_id = lineage_id, sy_autonomy = autonomy, sy_envelopes = envelopes, sy_revoked = False\<rparr>"

definition policy_is_active :: "standing_policy \<Rightarrow> bool" where
  "policy_is_active p \<longleftrightarrow> \<not> sy_revoked p"

definition autonomy_can_transition_to :: "standing_policy \<Rightarrow> autonomy_level \<Rightarrow> bool" where
  "autonomy_can_transition_to p next_level \<longleftrightarrow> next_level \<le> sy_autonomy p"

definition validate_candidate_against_policy ::
  "standing_policy \<Rightarrow> scope_id \<Rightarrow> string \<Rightarrow> evolution_envelopes \<Rightarrow> package_digest \<Rightarrow> package_digest \<Rightarrow>
   policy_match" where
  "validate_candidate_against_policy policy project_id lineage_id candidate_envelopes candidate_digest
       expected_parent_digest =
     (if candidate_digest = expected_parent_digest \<or> sy_project_id policy \<noteq> project_id \<or>
         sy_lineage_id policy \<noteq> lineage_id
      then PolicyRejected
      else if \<not> policy_is_active policy then PolicyRejected
      else if envelopes_contains (sy_envelopes policy) candidate_envelopes then WithinEnvelope
      else RequiresTrustedReview)"

section \<open>Lineages\<close>

record lineage_version =
  lv_package_digest :: package_digest
  lv_parent_digest :: package_digest
  lv_state :: version_state

record plugin_lineage =
  pl_lineage_id :: string
  pl_project_id :: scope_id
  pl_plugin_id :: plugin_id
  pl_accepted_digest :: "package_digest option"
  pl_rollback_digest :: "package_digest option"
  pl_state :: lineage_state
  pl_versions :: "lineage_version list"
  pl_parent_lineage_ids :: "string list"

definition PluginLineage_new :: "string \<Rightarrow> scope_id \<Rightarrow> plugin_id \<Rightarrow> package_digest option \<Rightarrow> plugin_lineage" where
  "PluginLineage_new lineage_id project_id plugin_id accepted =
     \<lparr>pl_lineage_id = lineage_id, pl_project_id = project_id, pl_plugin_id = plugin_id,
      pl_accepted_digest = accepted, pl_rollback_digest = None, pl_state = LDistilled,
      pl_versions = [], pl_parent_lineage_ids = []\<rparr>"

definition try_publish :: "plugin_lineage \<Rightarrow> package_digest \<Rightarrow> manual_promotion \<Rightarrow> plugin_lineage \<times> bool" where
  "try_publish l expected_old promotion =
     (if pl_accepted_digest l \<noteq> Some expected_old \<or> mp_parent_digest promotion \<noteq> expected_old \<or>
         mp_rollback_digest promotion \<noteq> expected_old \<or> mp_project_id promotion \<noteq> pl_project_id l \<or>
         mp_lineage_id promotion \<noteq> pl_lineage_id l \<or> mp_plugin_id promotion \<noteq> pl_plugin_id l \<or>
         mp_candidate_digest promotion = expected_old
      then (l, False)
      else (l\<lparr>pl_rollback_digest := pl_accepted_digest l,
              pl_accepted_digest := Some (mp_candidate_digest promotion)\<rparr>, True))"

datatype garden_action =
  Merge "string list" | Generalize | Split | Deprecate | Archive | Retire | PromoteForFirstParty

section \<open>Repair, autonomous activation and gardening\<close>

record regression_proposal =
  rp_proposal_id :: string
  rp_project_id :: scope_id
  rp_failure_class :: failure_class
  rp_case_id :: string
  rp_minimized_observation :: string

record repair_candidate =
  rc_candidate_id :: string
  rc_lineage_id :: string
  rc_parent_digest :: package_digest
  rc_candidate_digest :: package_digest

definition repair_eligibility :: "failure_class \<Rightarrow> bool" where
  "repair_eligibility failure = is_autonomous_repair_eligible failure"

definition repair_parent_must_match :: "plugin_lineage \<Rightarrow> repair_candidate \<Rightarrow> bool" where
  "repair_parent_must_match lineage candidate \<longleftrightarrow>
     pl_lineage_id lineage = rc_lineage_id candidate \<and>
     pl_accepted_digest lineage = Some (rc_parent_digest candidate) \<and>
     rc_candidate_digest candidate \<noteq> rc_parent_digest candidate"

definition autonomous_activation_allowed ::
  "standing_policy \<Rightarrow> plugin_lineage \<Rightarrow> evolution_envelopes \<Rightarrow> package_digest \<Rightarrow> package_digest \<Rightarrow>
   evaluation_decision \<Rightarrow> bool" where
  "autonomous_activation_allowed policy lineage candidate_envelopes candidate_digest parent_digest
       evaluation_decision =
     (if \<not> policy_is_active policy then False
      else if sy_autonomy policy < A5EnvelopeAutonomous then False
      else if evaluation_decision \<noteq> Accept \<or> sy_project_id policy \<noteq> pl_project_id lineage \<or>
              sy_lineage_id policy \<noteq> pl_lineage_id lineage \<or>
              pl_accepted_digest lineage \<noteq> Some parent_digest
      then False
      else validate_candidate_against_policy policy (pl_project_id lineage) (pl_lineage_id lineage)
             candidate_envelopes candidate_digest parent_digest = WithinEnvelope)"

record gardener_proposal =
  gp_proposal_id :: string
  gp_project_id :: scope_id
  gp_action :: garden_action
  gp_parent_lineage_ids :: "string list"
  gp_evidence :: "string list"

definition merge_must_not_widen_permissions :: "evolution_envelopes \<Rightarrow> evolution_envelopes list \<Rightarrow> bool" where
  "merge_must_not_widen_permissions merged parents \<longleftrightarrow>
     parents \<noteq> [] \<and>
     list_all (\<lambda>class. list_all (\<lambda>parent. class \<in> set (ee_permission_classes parent)) parents)
       (ee_permission_classes merged)"

record improvement_entry =
  im_lineage_id :: string
  im_candidate_digest :: package_digest
  im_summary :: string
  im_permissions_unchanged :: bool
  im_rollback_available :: bool

definition accepted_digest_is_preserved :: "plugin_lineage \<Rightarrow> package_digest \<Rightarrow> version_state \<Rightarrow> bool" where
  "accepted_digest_is_preserved lineage previous_accepted version_state \<longleftrightarrow>
     pl_accepted_digest lineage = Some previous_accepted \<or>
     (version_state = VAccepted \<and> pl_rollback_digest lineage = Some previous_accepted)"

end
