(* ===== verification/Staging.thy ===== *)
theory Staging
  imports Evolution Path_Patterns
begin

text \<open>
  The staged candidate builder: \<^verbatim>\<open>crates/rho-extension-runtime/src/builder.rs\<close>. The ledger of
  staged candidates, keyed by project and candidate, with the checks a candidate passes before it
  is stored; the invariant every reachable ledger has, and that staging can always be undone.
\<close>

section \<open>Candidates\<close>

record candidate_profile =
  cp_candidate_id :: string
  cp_project_id :: scope_id
  cp_lineage_id :: string
  cp_plugin_id :: plugin_id
  cp_package_digest :: package_digest
  cp_parent_digest :: package_digest
  cp_autonomy :: autonomy_level

record build_provenance =
  bp_source_digest :: package_digest
  bp_manifest_digest :: package_digest
  bp_dependency_lock_digest :: package_digest
  bp_build_input_digest :: package_digest
  bp_builder_identity_class :: string
  bp_tool_versions :: "string list"
  bp_generated_file_inventory :: "string list"

datatype static_validation = StaticPass | StaticFail "string list"

record staged_candidate =
  sc_profile :: candidate_profile
  sc_provenance :: build_provenance
  sc_static_validation :: static_validation

datatype builder_error =
  EnvelopeWidened | AuthorityEscape | AutonomyTooHigh | NoopCandidate | InvalidProvenance

definition MAX_PACKAGE_FILES :: nat where "MAX_PACKAGE_FILES = 4096"
definition MAX_RELATIVE_PATH_BYTES :: nat where "MAX_RELATIVE_PATH_BYTES = 1024"

definition valid_staged_path :: "string \<Rightarrow> bool" where
  "valid_staged_path path \<longleftrightarrow>
     path \<noteq> [] \<and> length path \<le> MAX_RELATIVE_PATH_BYTES \<and>
     \<not> starts_with ''/'' path \<and> \<not> starts_with [CHR 0x5C] path \<and> CHR '':'' \<notin> set path \<and>
     \<not> list_ex (\<lambda>component. component = [] \<or> component \<in> {''.'', ''..''}) (split_on is_separator path)"

definition candidate_within_envelope ::
  "standing_policy \<Rightarrow> scope_id \<Rightarrow> string \<Rightarrow> evolution_envelopes \<Rightarrow> bool" where
  "candidate_within_envelope policy project_id lineage_id candidate_envelopes \<longleftrightarrow>
     policy_is_active policy \<and> sy_project_id policy = project_id \<and> sy_lineage_id policy = lineage_id \<and>
     envelopes_contains (sy_envelopes policy) candidate_envelopes"

section \<open>The ledger\<close>

type_synonym staging_ledger = "(scope_id \<times> string, staged_candidate) btree"

definition StagingLedger_new :: staging_ledger where
  "StagingLedger_new = bt_empty"

definition provenance_invalid :: "staged_candidate \<Rightarrow> bool" where
  "provenance_invalid c \<longleftrightarrow>
     cp_candidate_id (sc_profile c) = [] \<or> cp_lineage_id (sc_profile c) = [] \<or>
     bp_builder_identity_class (sc_provenance c) = [] \<or> bp_tool_versions (sc_provenance c) = [] \<or>
     bp_generated_file_inventory (sc_provenance c) = [] \<or>
     length (bp_generated_file_inventory (sc_provenance c)) > MAX_PACKAGE_FILES \<or>
     list_ex (\<lambda>path. \<not> valid_staged_path path) (bp_generated_file_inventory (sc_provenance c))"

definition stage ::
  "staging_ledger \<Rightarrow> standing_policy \<Rightarrow> evolution_envelopes \<Rightarrow> staged_candidate \<Rightarrow>
   staging_ledger \<times> (builder_error, unit) result" where
  "stage ledger policy candidate_envelopes candidate =
     (let profile = sc_profile candidate; key = (cp_project_id profile, cp_candidate_id profile) in
      if \<not> policy_is_active policy \<or> sy_project_id policy \<noteq> cp_project_id profile \<or>
         sy_lineage_id policy \<noteq> cp_lineage_id profile
      then (ledger, Err AuthorityEscape)
      else if \<not> envelopes_contains (sy_envelopes policy) candidate_envelopes
      then (ledger, Err EnvelopeWidened)
      else if cp_autonomy profile > A3Draft \<or> cp_autonomy profile > sy_autonomy policy
      then (ledger, Err AutonomyTooHigh)
      else if cp_package_digest profile = cp_parent_digest profile then (ledger, Err NoopCandidate)
      else if provenance_invalid candidate then (ledger, Err InvalidProvenance)
      else if bt_contains_key ledger key then (ledger, Err InvalidProvenance)
      else (bt_insert key candidate ledger, Ok ()))"

definition discard :: "staging_ledger \<Rightarrow> scope_id \<Rightarrow> string \<Rightarrow> staging_ledger \<times> bool" where
  "discard ledger project_id candidate_id =
     (bt_remove (project_id, candidate_id) ledger, bt_get ledger (project_id, candidate_id) \<noteq> None)"

definition get_staged :: "staging_ledger \<Rightarrow> scope_id \<Rightarrow> string \<Rightarrow> staged_candidate option" where
  "get_staged ledger project_id candidate_id = bt_get ledger (project_id, candidate_id)"

definition candidates :: "staging_ledger \<Rightarrow> scope_id \<Rightarrow> staged_candidate list" where
  "candidates ledger project_id = map snd (filter (\<lambda>((project, _), _). project = project_id) ledger)"

section \<open>What a staged candidate satisfies\<close>

definition candidate_ok :: "staged_candidate \<Rightarrow> bool" where
  "candidate_ok c \<longleftrightarrow>
     cp_autonomy (sc_profile c) \<le> A3Draft \<and> cp_package_digest (sc_profile c) \<noteq> cp_parent_digest (sc_profile c) \<and>
     \<not> provenance_invalid c"

definition ledger_inv :: "staging_ledger \<Rightarrow> bool" where
  "ledger_inv ledger \<longleftrightarrow> bt_ok ledger \<and>
     (\<forall>k c. bt_get ledger k = Some c \<longrightarrow>
        k = (cp_project_id (sc_profile c), cp_candidate_id (sc_profile c)) \<and> candidate_ok c)"

datatype staging_op =
  OpStage standing_policy evolution_envelopes staged_candidate
| OpDiscard scope_id string

fun staging_step :: "staging_ledger \<Rightarrow> staging_op \<Rightarrow> staging_ledger" where
  "staging_step ledger (OpStage policy envelopes candidate) = fst (stage ledger policy envelopes candidate)"
| "staging_step ledger (OpDiscard project candidate) = fst (discard ledger project candidate)"

lemma stage_Ok_iff:
  "snd (stage ledger policy envelopes c) = Ok () \<longleftrightarrow>
     candidate_within_envelope policy (cp_project_id (sc_profile c)) (cp_lineage_id (sc_profile c)) envelopes \<and>
     cp_autonomy (sc_profile c) \<le> sy_autonomy policy \<and> candidate_ok c \<and>
     bt_get ledger (cp_project_id (sc_profile c), cp_candidate_id (sc_profile c)) = None"
  by (auto simp: stage_def Let_def candidate_within_envelope_def candidate_ok_def bt_contains_key_def not_less)

lemma fst_stage:
  "fst (stage ledger policy envelopes c) =
     (if snd (stage ledger policy envelopes c) = Ok ()
      then bt_insert (cp_project_id (sc_profile c), cp_candidate_id (sc_profile c)) c ledger else ledger)"
  by (simp add: stage_def Let_def)

lemma ledger_invD:
  "ledger_inv l \<Longrightarrow> bt_get l k = Some c \<Longrightarrow>
     k = (cp_project_id (sc_profile c), cp_candidate_id (sc_profile c)) \<and> candidate_ok c"
  unfolding ledger_inv_def by blast

interpretation staging: step_system StagingLedger_new staging_step ledger_inv
proof
  show "ledger_inv StagingLedger_new" by (simp add: ledger_inv_def StagingLedger_new_def)
next
  fix l and a :: staging_op
  assume inv: "ledger_inv l"
  then have ok: "bt_ok l" by (simp add: ledger_inv_def)
  show "ledger_inv (staging_step l a)"
  proof (cases a)
    case (OpStage policy envelopes c)
    let ?k = "(cp_project_id (sc_profile c), cp_candidate_id (sc_profile c))"
    show ?thesis
    proof (cases "snd (stage l policy envelopes c) = Ok ()")
      case True
      then have "candidate_ok c" by (simp add: stage_Ok_iff)
      then have "ledger_inv (bt_insert ?k c l)"
        unfolding ledger_inv_def using bt_ok_insert [OF ok] ledger_invD [OF inv]
        by (metis bt_get_insert option.inject)
      with True show ?thesis by (simp add: OpStage fst_stage)
    next
      case False
      then show ?thesis using inv by (simp add: OpStage fst_stage)
    qed
  next
    case (OpDiscard project candidate)
    have "ledger_inv (bt_remove (project, candidate) l)"
      unfolding ledger_inv_def using bt_ok_remove [OF ok] ledger_invD [OF inv]
      by (metis bt_get_remove option.distinct(1))
    then show ?thesis by (simp add: OpDiscard discard_def)
  qed
qed

lemma stage_discard:
  assumes "ledger_inv l" "stage l policy envelopes c = (l', Ok ())"
  shows "discard l' (cp_project_id (sc_profile c)) (cp_candidate_id (sc_profile c)) = (l, True)"
proof -
  let ?k = "(cp_project_id (sc_profile c), cp_candidate_id (sc_profile c))"
  have l': "l' = bt_insert ?k c l" "bt_get l ?k = None"
    using assms(2) fst_stage [of l policy envelopes c] stage_Ok_iff [of l policy envelopes c] by auto
  moreover have "bt_ok l" using assms(1) by (simp add: ledger_inv_def)
  ultimately show ?thesis by (simp add: discard_def bt.ins_del)
qed

text \<open>A staged path has no component that leaves the directory it is resolved in.\<close>

lemma valid_staged_path_components:
  "valid_staged_path p \<Longrightarrow> c \<in> set (split_on is_separator p) \<Longrightarrow> c \<notin> {[], ''.'', ''..''}"
  by (auto simp: valid_staged_path_def list_ex_iff)

end
