(* ===== verification/Evolution_Properties.thy ===== *)
theory Evolution_Properties
  imports Staging
begin

text \<open>
  The guarantees of governed evolution: what an accepted evaluation means, the chain of evaluated
  promotions behind every digest a lineage accepts, the compare-and-swap of publications, and the
  confinement of staged candidates.
\<close>

section \<open>A lineage driven by promotions\<close>

text \<open>
  A promotion can only be obtained from \<open>authorize\<close> and a sealed plan only from \<open>seal\<close> (their fields
  are private), so a lineage is moved by this composition and by nothing else.
\<close>

record promotion_request =
  pr_plan :: evaluation_plan
  pr_evidence :: evaluation_evidence
  pr_parent :: package_digest
  pr_rollback :: package_digest
  pr_expected :: package_digest

definition promote ::
  "(string \<Rightarrow> string) \<Rightarrow> (evaluation_plan \<Rightarrow> string option) \<Rightarrow> plugin_lineage \<Rightarrow> promotion_request \<Rightarrow> plugin_lineage" where
  "promote sha encode l r =
     (case try_res (seal sha encode (pr_plan r)) (\<lambda>s. authorize (pr_evidence r) s (pr_parent r) (pr_rollback r)) of
        Inl _ \<Rightarrow> l
      | Inr promotion \<Rightarrow> fst (try_publish l (pr_expected r) promotion))"

text \<open>The digest \<open>new\<close> may replace \<open>old\<close>: a plan sealed for exactly this step of this lineage was
  decided \<open>Accept\<close>.\<close>

definition evaluated ::
  "(string \<Rightarrow> string) \<Rightarrow> (evaluation_plan \<Rightarrow> string option) \<Rightarrow> string \<Rightarrow> scope_id \<Rightarrow> plugin_id \<Rightarrow>
   package_digest \<Rightarrow> package_digest \<Rightarrow> bool" where
  "evaluated sha encode lineage project plugin old new \<longleftrightarrow>
     (\<exists>plan s ev. seal sha encode plan = Ok s \<and> decide ev s = Ok Accept \<and>
        ep_lineage_id plan = lineage \<and> ep_project_id plan = project \<and> ep_plugin_id plan = plugin \<and>
        ep_baseline_digest plan = old \<and> ep_candidate_digest plan = new)"

definition evolves ::
  "(string \<Rightarrow> string) \<Rightarrow> (evaluation_plan \<Rightarrow> string option) \<Rightarrow> string \<Rightarrow> scope_id \<Rightarrow> plugin_id \<Rightarrow>
   (package_digest \<times> package_digest) set" where
  "evolves sha encode lineage project plugin = {(old, new). evaluated sha encode lineage project plugin old new}"

lemma try_publish_iff:
  "try_publish l expected p = (l', True) \<longleftrightarrow>
     pl_accepted_digest l = Some expected \<and> mp_parent_digest p = expected \<and> mp_rollback_digest p = expected \<and>
     mp_project_id p = pl_project_id l \<and> mp_lineage_id p = pl_lineage_id l \<and> mp_plugin_id p = pl_plugin_id l \<and>
     mp_candidate_digest p \<noteq> expected \<and>
     l' = l\<lparr>pl_rollback_digest := Some expected, pl_accepted_digest := Some (mp_candidate_digest p)\<rparr>"
  by (auto simp: try_publish_def)

lemma try_publish_refused: "try_publish l expected p = (l', False) \<Longrightarrow> l' = l"
  by (auto simp: try_publish_def split: if_splits)

lemma promote_cases:
  obtains (kept) "promote sha encode l r = l"
  | (moved) "pl_accepted_digest l = Some (pr_expected r)"
      "evaluated sha encode (pl_lineage_id l) (pl_project_id l) (pl_plugin_id l) (pr_expected r)
         (ep_candidate_digest (pr_plan r))"
      "promote sha encode l r =
         l\<lparr>pl_rollback_digest := Some (pr_expected r), pl_accepted_digest := Some (ep_candidate_digest (pr_plan r))\<rparr>"
proof (cases "try_res (seal sha encode (pr_plan r)) (\<lambda>s. authorize (pr_evidence r) s (pr_parent r) (pr_rollback r))")
  case (Inl e)
  then show thesis by (intro kept) (simp add: promote_def)
next
  case (Inr p)
  then obtain s where s: "seal sha encode (pr_plan r) = Ok s"
    and a: "authorize (pr_evidence r) s (pr_parent r) (pr_rollback r) = Ok p"
    by (auto simp: try_res_Ok_iff)
  have pl: "sp_plan s = pr_plan r" using s by (auto simp: seal_Ok_iff)
  show thesis
  proof (cases "try_publish l (pr_expected r) p")
    case (Pair l' b)
    then have l': "promote sha encode l r = l'" by (simp add: promote_def Inr)
    show thesis
    proof (cases b)
      case True
      with Pair have t: "try_publish l (pr_expected r) p = (l', True)" by simp
      have "evaluated sha encode (pl_lineage_id l) (pl_project_id l) (pl_plugin_id l) (pr_expected r)
          (ep_candidate_digest (pr_plan r))"
        unfolding evaluated_def using s a t pl
        by (intro exI [of _ "pr_plan r"] exI [of _ s] exI [of _ "pr_evidence r"])
          (auto simp: authorize_Ok_iff try_publish_iff)
      with t a pl l' show thesis by (intro moved) (auto simp: authorize_Ok_iff try_publish_iff)
    next
      case False
      with Pair l' show thesis using try_publish_refused by (intro kept) auto
    qed
  qed
qed

text \<open>What every lineage that started with the digest \<open>a\<close> satisfies.\<close>

definition lineage_inv ::
  "(string \<Rightarrow> string) \<Rightarrow> (evaluation_plan \<Rightarrow> string option) \<Rightarrow> plugin_lineage \<Rightarrow> plugin_lineage \<Rightarrow> bool" where
  "lineage_inv sha encode l0 l \<longleftrightarrow>
     pl_lineage_id l = pl_lineage_id l0 \<and> pl_project_id l = pl_project_id l0 \<and> pl_plugin_id l = pl_plugin_id l0 \<and>
     (let R = evolves sha encode (pl_lineage_id l0) (pl_project_id l0) (pl_plugin_id l0) in
      pl_accepted_digest l = pl_accepted_digest l0 \<and> pl_rollback_digest l = pl_rollback_digest l0 \<or>
      (\<exists>first old new. pl_accepted_digest l0 = Some first \<and> (first, old) \<in> R\<^sup>* \<and> (old, new) \<in> R \<and>
         pl_accepted_digest l = Some new \<and> pl_rollback_digest l = Some old))"

lemma lineage_inv_promote:
  assumes "lineage_inv sha encode l0 l"
  shows "lineage_inv sha encode l0 (promote sha encode l r)"
proof (cases rule: promote_cases [of sha encode l r])
  case kept
  with assms show ?thesis by simp
next
  case moved
  let ?R = "evolves sha encode (pl_lineage_id l0) (pl_project_id l0) (pl_plugin_id l0)"
  let ?new = "ep_candidate_digest (pr_plan r)"
  have ids: "pl_lineage_id l = pl_lineage_id l0" "pl_project_id l = pl_project_id l0" "pl_plugin_id l = pl_plugin_id l0"
    using assms by (simp_all add: lineage_inv_def)
  have e: "(pr_expected r, ?new) \<in> ?R" using moved(2) by (simp add: evolves_def ids)
  obtain first where f: "pl_accepted_digest l0 = Some first" "(first, pr_expected r) \<in> ?R\<^sup>*"
  proof -
    from assms moved(1) consider "pl_accepted_digest l0 = Some (pr_expected r)"
      | first old where "pl_accepted_digest l0 = Some first" "(first, old) \<in> ?R\<^sup>*" "(old, pr_expected r) \<in> ?R"
      unfolding lineage_inv_def Let_def by force
    then show ?thesis by cases (auto intro: that rtrancl_into_rtrancl)
  qed
  with e ids show ?thesis unfolding lineage_inv_def moved(3) Let_def by auto
qed

interpretation lineage: step_system l0 "promote sha encode" "lineage_inv sha encode l0" for l0 sha encode
proof
  show "lineage_inv sha encode l0 l0" by (simp add: lineage_inv_def Let_def)
qed (rule lineage_inv_promote)

text \<open>The accepted digest is a compare-and-swap pointer that every publication moves.\<close>

definition publish_as :: "plugin_lineage \<Rightarrow> package_digest option \<Rightarrow> manual_promotion \<Rightarrow> plugin_lineage option" where
  "publish_as l e p = (case e of None \<Rightarrow> None
     | Some old \<Rightarrow> (case try_publish l old p of (l', True) \<Rightarrow> Some l' | _ \<Rightarrow> None))"

lemma publish_as_Some: "publish_as l e p = Some l' \<longleftrightarrow> (\<exists>old. e = Some old \<and> try_publish l old p = (l', True))"
  by (auto simp: publish_as_def split: option.splits prod.splits bool.splits)

interpretation publication: moving_cas pl_accepted_digest "\<lambda>p. Some (mp_candidate_digest p)" publish_as "\<lambda>_. True"
  by standard (auto simp: publish_as_Some try_publish_iff)

section \<open>Properties\<close>


text \<open>C32. However promotions are requested, a lineage either still has the digest it started with or has a
  digest at the end of a chain of evaluated promotions from it, every one with a plan sealed for this
  lineage, project and plugin and decided \<open>Accept\<close>; its rollback digest is then the digest just replaced.\<close>

theorem accepted_digest_is_evaluated:
  assumes "l = run (promote sha encode) (PluginLineage_new lineage_id project plugin start) requests"
    and "pl_accepted_digest l \<noteq> start"
  shows "\<exists>first old new. start = Some first \<and>
     (first, old) \<in> (evolves sha encode lineage_id project plugin)\<^sup>* \<and>
     evaluated sha encode lineage_id project plugin old new \<and> old \<noteq> new \<and>
     pl_accepted_digest l = Some new \<and> pl_rollback_digest l = Some old"
proof -
  let ?l0 = "PluginLineage_new lineage_id project plugin start"
  have ids: "pl_lineage_id ?l0 = lineage_id" "pl_project_id ?l0 = project" "pl_plugin_id ?l0 = plugin"
    "pl_accepted_digest ?l0 = start" by (simp_all add: PluginLineage_new_def)
  have "lineage_inv sha encode ?l0 l" unfolding assms(1) by (rule lineage.inv_run)
  with assms(2) obtain first old new where r: "start = Some first"
    "(first, old) \<in> (evolves sha encode lineage_id project plugin)\<^sup>*"
    "(old, new) \<in> evolves sha encode lineage_id project plugin"
    "pl_accepted_digest l = Some new" "pl_rollback_digest l = Some old"
    unfolding lineage_inv_def ids Let_def by blast
  moreover have e: "evaluated sha encode lineage_id project plugin old new" using r(3) by (simp add: evolves_def)
  moreover have "old \<noteq> new" using e by (auto simp: evaluated_def seal_Ok_iff plan_unsealable_def)
  ultimately show ?thesis by blast
qed

definition demo_plan :: evaluation_plan where
  "demo_plan = \<lparr>ep_plan_id = ''p'', ep_project_id = ''s'', ep_lineage_id = ''l'', ep_plugin_id = ''a'',
     ep_baseline_digest = ''d1'', ep_candidate_digest = ''d2'', ep_protected_fixture_set_digest = ''f'',
     ep_mandatory_cases = [''c1''], ep_required_layers = [''unit''], ep_minimum_improvement_rule = None,
     ep_rejection_conditions = [''leak'']\<rparr>"

definition demo_evidence :: evaluation_evidence where
  "demo_evidence = \<lparr>ev_evidence_id = ''e'', ev_plan_id = ''p'',
     ev_plan_seal_digest = from_inventory id [(''rho-evaluation-plan-v1'', ''plan'')],
     ev_candidate_digest = ''d2'',
     ev_layers = [\<lparr>lr_layer = ''unit'', lr_passed = True, lr_notes = []\<rparr>],
     ev_cases = [\<lparr>cr_case_id = ''c1'', cr_passed = True, cr_observation = []\<rparr>],
     ev_triggered_rejection_conditions = [], ev_safety_invariants_held = True, ev_claimed_improvement_met = False\<rparr>"

definition demo_request :: promotion_request where
  "demo_request = \<lparr>pr_plan = demo_plan, pr_evidence = demo_evidence, pr_parent = ''d1'', pr_rollback = ''d1'',
     pr_expected = ''d1''\<rparr>"

lemma demo_promotes:
  "pl_accepted_digest (run (promote id (\<lambda>_. Some ''plan''))
     (PluginLineage_new ''l'' ''s'' ''a'' (Some ''d1'')) [demo_request]) = Some ''d2''"
proof -
  have s: "seal id (\<lambda>_. Some ''plan'') demo_plan = Ok \<lparr>sp_plan = demo_plan,
      sp_seal_digest = from_inventory id [(''rho-evaluation-plan-v1'', ''plan'')]\<rparr>"
    by (simp add: seal_Ok_iff plan_unsealable_def demo_plan_def has_duplicates_def)
  have "decide demo_evidence \<lparr>sp_plan = demo_plan,
      sp_seal_digest = from_inventory id [(''rho-evaluation-plan-v1'', ''plan'')]\<rparr> = Ok Accept"
    by (simp add: decide_Ok_iff bound_to_def unambiguous_def gates_pass_def demo_evidence_def demo_plan_def)
  then show ?thesis
    by (simp add: promote_def s demo_request_def authorize_def)
      (simp add: demo_plan_def try_publish_def PluginLineage_new_def)
qed

theorem accepted_digest_is_evaluated_witness:
  "\<exists>old. evaluated id (\<lambda>_. Some ''plan'') ''l'' ''s'' ''a'' old ''d2''"
proof -
  have "pl_accepted_digest (run (promote id (\<lambda>_. Some ''plan''))
     (PluginLineage_new ''l'' ''s'' ''a'' (Some ''d1'')) [demo_request]) \<noteq> Some ''d1''"
    unfolding demo_promotes by simp
  from accepted_digest_is_evaluated [OF refl this] demo_promotes show ?thesis by (metis option.inject)
qed

text \<open>Publication is a compare-and-swap with a rollback target: after a successful publication the replaced
  digest is preserved for rollback, every rival that expected the same digest is refused without effect,
  and a repair derived from the replaced digest is stale.\<close>

theorem publication_one_winner:
  assumes "try_publish l old promotion = (l', True)"
  shows "accepted_digest_is_preserved l' old VAccepted \<and>
     pl_accepted_digest l' = Some (mp_candidate_digest promotion) \<and>
     try_publish l' old rival = (l', False) \<and>
     (rc_parent_digest repair = old \<longrightarrow> \<not> repair_parent_must_match l' repair)"
proof -
  have "publish_as l (Some old) promotion = Some l'" using assms by (simp add: publish_as_Some)
  from publication.one_winner [OF _ this] have n: "publish_as l' (Some old) rival = None" by simp
  obtain l'' b where t: "try_publish l' old rival = (l'', b)" by (cases "try_publish l' old rival")
  with n have "\<not> b" using publish_as_Some [of l' "Some old" rival l''] by auto
  with t have "try_publish l' old rival = (l', False)" using try_publish_refused by fastforce
  with assms show ?thesis
    by (auto simp: accepted_digest_is_preserved_def try_publish_iff repair_parent_must_match_def)
qed

definition demo_promotion :: manual_promotion where
  "demo_promotion = \<lparr>mp_candidate_digest = ''d2'', mp_parent_digest = ''d1'', mp_rollback_digest = ''d1'',
     mp_evidence_id = ''e'', mp_plan_seal_digest = ''q'', mp_project_id = ''s'', mp_lineage_id = ''l'',
     mp_plugin_id = ''a''\<rparr>"

theorem publication_one_winner_witness:
  "let (l', ok) = try_publish (PluginLineage_new ''l'' ''s'' ''a'' (Some ''d1'')) ''d1'' demo_promotion in
     ok \<and> try_publish l' ''d1'' (demo_promotion\<lparr>mp_candidate_digest := ''d3''\<rparr>) = (l', False)"
proof -
  obtain l' where t: "try_publish (PluginLineage_new ''l'' ''s'' ''a'' (Some ''d1'')) ''d1'' demo_promotion = (l', True)"
    by (simp add: try_publish_iff PluginLineage_new_def demo_promotion_def)
  from publication_one_winner [OF this] t show ?thesis by simp
qed

text \<open>C33. A staged candidate is confined: whatever was staged and discarded before, a candidate listed for a
  project belongs to it, is found under its own id, never has more autonomy than drafting, differs from its
  parent, and every generated file resolves to a place strictly below the staging root.\<close>

theorem staged_candidate_confined:
  assumes "c \<in> set (candidates (run staging_step StagingLedger_new acts) project)"
  shows "cp_project_id (sc_profile c) = project \<and>
     get_staged (run staging_step StagingLedger_new acts) project (cp_candidate_id (sc_profile c)) = Some c \<and>
     cp_autonomy (sc_profile c) \<le> A3Draft \<and> cp_package_digest (sc_profile c) \<noteq> cp_parent_digest (sc_profile c) \<and>
     length (bp_generated_file_inventory (sc_provenance c)) \<le> MAX_PACKAGE_FILES \<and>
     (\<forall>path\<in>set (bp_generated_file_inventory (sc_provenance c)).
        foldl path_step root (split_on is_separator path) = root @ split_on is_separator path)"
proof -
  let ?l = "run staging_step StagingLedger_new acts"
  have inv: "ledger_inv ?l" by (rule staging.inv_run)
  then have ok: "bt_ok ?l" by (simp add: ledger_inv_def)
  from assms obtain i where "((project, i), c) \<in> set ?l" by (auto simp: candidates_def)
  then have g: "bt_get ?l (project, i) = Some c" by (simp add: bt_get_Some_iff [OF ok])
  from ledger_invD [OF inv g] have k: "project = cp_project_id (sc_profile c)" "i = cp_candidate_id (sc_profile c)"
    and c: "candidate_ok c" by simp_all
  have "foldl path_step root (split_on is_separator path) = root @ split_on is_separator path"
    if "path \<in> set (bp_generated_file_inventory (sc_provenance c))" for path
  proof (rule foldl_path_step_plain)
    from that c have "valid_staged_path path" by (auto simp: candidate_ok_def provenance_invalid_def list_ex_iff)
    from valid_staged_path_components [OF this]
    show "\<forall>x\<in>set (split_on is_separator path). x \<noteq> [] \<and> x \<noteq> ''.'' \<and> x \<noteq> ''..''" by blast
  qed
  with g k c show ?thesis
    by (auto simp: candidate_ok_def provenance_invalid_def get_staged_def)
qed

definition demo_candidate :: staged_candidate where
  "demo_candidate = \<lparr>sc_profile = \<lparr>cp_candidate_id = ''c'', cp_project_id = ''s'', cp_lineage_id = ''l'',
       cp_plugin_id = ''a'', cp_package_digest = ''d2'', cp_parent_digest = ''d1'', cp_autonomy = A3Draft\<rparr>,
     sc_provenance = \<lparr>bp_source_digest = ''x'', bp_manifest_digest = ''x'', bp_dependency_lock_digest = ''x'',
       bp_build_input_digest = ''x'', bp_builder_identity_class = ''agent'', bp_tool_versions = [''v1''],
       bp_generated_file_inventory = [''src/m.R'']\<rparr>,
     sc_static_validation = StaticPass\<rparr>"

definition demo_policy :: standing_policy where
  "demo_policy = StandingPolicy_new ''p'' 1 ''s'' ''l'' A3Draft
     \<lparr>ee_capability_namespaces = [], ee_permission_classes = [], ee_runtime_kinds = [], ee_data_classes = []\<rparr>"

lemma demo_stages:
  "stage StagingLedger_new demo_policy (sy_envelopes demo_policy) demo_candidate =
     ([((''s'', ''c''), demo_candidate)], Ok ())"
proof -
  have "\<not> provenance_invalid demo_candidate"
    by (simp add: provenance_invalid_def demo_candidate_def valid_staged_path_def is_separator_def
        MAX_PACKAGE_FILES_def MAX_RELATIVE_PATH_BYTES_def)
  then show ?thesis
    by (simp add: stage_def Let_def envelopes_refl bt_contains_key_def StagingLedger_new_def bt_empty_def)
      (simp add: demo_candidate_def demo_policy_def StandingPolicy_new_def policy_is_active_def)
qed

theorem staged_candidate_confined_witness:
  "get_staged (run staging_step StagingLedger_new [OpStage demo_policy (sy_envelopes demo_policy) demo_candidate])
     ''s'' ''c'' = Some demo_candidate"
proof -
  let ?l = "run staging_step StagingLedger_new [OpStage demo_policy (sy_envelopes demo_policy) demo_candidate]"
  have "demo_candidate \<in> set (candidates ?l ''s'')" by (simp add: demo_stages candidates_def)
  from staged_candidate_confined [OF this] show ?thesis by (simp add: demo_candidate_def)
qed

text \<open>Staging is reversible and never overwrites: a staged candidate can be read back, a second candidate
  under its key is refused without effect, and discarding it restores the ledger exactly.\<close>

theorem stage_discard_roundtrip:
  assumes "ledger = run staging_step StagingLedger_new acts"
    and "stage ledger policy envelopes c = (ledger', Ok ())"
    and "cp_project_id (sc_profile c') = cp_project_id (sc_profile c)"
    and "cp_candidate_id (sc_profile c') = cp_candidate_id (sc_profile c)"
  shows "get_staged ledger' (cp_project_id (sc_profile c)) (cp_candidate_id (sc_profile c)) = Some c \<and>
     fst (stage ledger' policy' envelopes' c') = ledger' \<and>
     discard ledger' (cp_project_id (sc_profile c)) (cp_candidate_id (sc_profile c)) = (ledger, True)"
proof -
  have inv: "ledger_inv ledger" unfolding assms(1) by (rule staging.inv_run)
  have g: "bt_get ledger' (cp_project_id (sc_profile c), cp_candidate_id (sc_profile c)) = Some c"
    using assms(2) fst_stage [of ledger policy envelopes c] by simp
  then have "snd (stage ledger' policy' envelopes' c') \<noteq> Ok ()" by (simp add: stage_Ok_iff assms(3,4))
  with g stage_discard [OF inv assms(2)] show ?thesis by (simp add: get_staged_def fst_stage)
qed

theorem stage_discard_roundtrip_witness:
  "discard (fst (stage StagingLedger_new demo_policy (sy_envelopes demo_policy) demo_candidate)) ''s'' ''c'' =
     (StagingLedger_new, True)"
  using stage_discard_roundtrip [of StagingLedger_new "[]", OF _ demo_stages refl refl] demo_stages
  by (simp add: demo_candidate_def)

end
