(* ===== verification/Json.thy ===== *)
theory Json
  imports Complex_Main Ordered_Map Text
begin

text \<open>
  JSON values as \<open>serde_json::Value\<close> has them. An object is the list of its entries in the order the
  map iterates them (key order, or insertion order when the crate's \<open>preserve_order\<close> feature is on); the
  definitions that use it do not depend on which. A number is a \<open>u64\<close>, a negative \<open>i64\<close> or a finite
  \<open>f64\<close>; the finite doubles are the rationals they denote, and the conversion of an integer to a
  double rounds to 53 significant bits, ties to even, as the hardware does.
\<close>

datatype json_number = PosInt u64 | NegInt "64 word" | Float rat

datatype json =
  JNull | JBool bool | JNumber json_number | JString string | JArray "json list"
| JObject "(string \<times> json) list"

section \<open>Accessors\<close>

fun as_object :: "json \<Rightarrow> (string \<times> json) list option" where
  "as_object (JObject m) = Some m"
| "as_object _ = None"

fun as_array :: "json \<Rightarrow> json list option" where
  "as_array (JArray xs) = Some xs"
| "as_array _ = None"

fun as_str :: "json \<Rightarrow> string option" where
  "as_str (JString s) = Some s"
| "as_str _ = None"

fun as_bool :: "json \<Rightarrow> bool option" where
  "as_bool (JBool b) = Some b"
| "as_bool _ = None"

fun as_u64 :: "json \<Rightarrow> u64 option" where
  "as_u64 (JNumber (PosInt n)) = Some n"
| "as_u64 _ = None"

fun as_i64 :: "json \<Rightarrow> 64 word option" where
  "as_i64 (JNumber (PosInt n)) = (if n \<le> 0x7FFFFFFFFFFFFFFF then Some n else None)"
| "as_i64 (JNumber (NegInt n)) = Some n"
| "as_i64 _ = None"

fun is_number :: "json \<Rightarrow> bool" where
  "is_number (JNumber _) = True"
| "is_number _ = False"

lemma as_object_Some [simp]: "as_object v = Some m \<longleftrightarrow> v = JObject m"
  by (cases v) auto

lemma as_array_Some [simp]: "as_array v = Some xs \<longleftrightarrow> v = JArray xs"
  by (cases v) auto

lemma as_str_Some [simp]: "as_str v = Some s \<longleftrightarrow> v = JString s"
  by (cases v) auto

section \<open>Doubles\<close>

fun bit_length :: "nat \<Rightarrow> nat" where
  "bit_length n = (if n = 0 then 0 else Suc (bit_length (n div 2)))"

declare bit_length.simps [simp del]

definition round_to_double :: "nat \<Rightarrow> nat" where
  "round_to_double m =
     (let e = bit_length m - 53; q = m div 2 ^ e; r = 2 * (m mod 2 ^ e) in
      (if r > 2 ^ e \<or> (r = 2 ^ e \<and> odd q) then Suc q else q) * 2 ^ e)"

definition f64_of_int :: "int \<Rightarrow> rat" where
  "f64_of_int n = of_int (sgn n) * of_nat (round_to_double (nat \<bar>n\<bar>))"

fun as_f64 :: "json \<Rightarrow> rat option" where
  "as_f64 (JNumber (PosInt n)) = Some (f64_of_int (uint n))"
| "as_f64 (JNumber (NegInt n)) = Some (f64_of_int (sint n))"
| "as_f64 (JNumber (Float f)) = Some f"
| "as_f64 _ = None"

lemma as_f64_number: "is_number v \<longleftrightarrow> (\<exists>f. as_f64 v = Some f)"
  by (cases v rule: as_f64.cases) auto

lemma bit_length_le: "n < 2 ^ k \<Longrightarrow> bit_length n \<le> k"
proof (induction n arbitrary: k rule: bit_length.induct)
  case (1 n)
  show ?case
  proof (cases "n = 0")
    case False
    with 1(2) obtain j where k: "k = Suc j" by (cases k) auto
    with 1(2) have "n div 2 < 2 ^ j" by simp
    with 1(1) False have "bit_length (n div 2) \<le> j" by blast
    with False k show ?thesis by (subst bit_length.simps) simp
  qed (simp add: bit_length.simps)
qed

text \<open>Integers of at most 53 bits are exact.\<close>

lemma f64_of_int_exact: "\<bar>n\<bar> < 2 ^ 53 \<Longrightarrow> f64_of_int n = of_int n"
proof -
  assume "\<bar>n\<bar> < 2 ^ 53"
  then have "nat \<bar>n\<bar> < 2 ^ 53" by simp
  then have "round_to_double (nat \<bar>n\<bar>) = nat \<bar>n\<bar>"
    using bit_length_le [of "nat \<bar>n\<bar>" 53] by (simp add: round_to_double_def)
  then show ?thesis by (simp add: f64_of_int_def sgn_if)
qed

section \<open>Equality\<close>

text \<open>\<open>Value: PartialEq\<close>: objects are equal as maps, whatever their order of iteration.\<close>

fun json_eq :: "json \<Rightarrow> json \<Rightarrow> bool"
  and json_eqs :: "json list \<Rightarrow> json list \<Rightarrow> bool"
  and fields_eq :: "(string \<times> json) list \<Rightarrow> (string \<times> json) list \<Rightarrow> bool" where
  "json_eq JNull JNull = True"
| "json_eq (JBool a) (JBool b) = (a = b)"
| "json_eq (JNumber a) (JNumber b) = (a = b)"
| "json_eq (JString a) (JString b) = (a = b)"
| "json_eq (JArray a) (JArray b) = json_eqs a b"
| "json_eq (JObject a) (JObject b) = (length a = length b \<and> fields_eq a b)"
| "json_eq _ _ = False"
| "json_eqs [] [] = True"
| "json_eqs (x # xs) (y # ys) = (json_eq x y \<and> json_eqs xs ys)"
| "json_eqs _ _ = False"
| "fields_eq [] b = True"
| "fields_eq ((k, v) # a) b =
     ((case bt_get b k of None \<Rightarrow> False | Some w \<Rightarrow> json_eq v w) \<and> fields_eq a b)"

section \<open>Text of numbers\<close>

text \<open>\<open>Display\<close> for unsigned integers.\<close>

fun show_nat :: "nat \<Rightarrow> string" where
  "show_nat n = (if n < 10 then [char_of (48 + n)] else show_nat (n div 10) @ [char_of (48 + n mod 10)])"

declare show_nat.simps [simp del]

text \<open>\<open>chars().count()\<close> of a valid UTF-8 string.\<close>

definition char_count :: "string \<Rightarrow> nat" where
  "char_count s = length (filter (\<lambda>c. \<not> is_continuation c) s)"

end
