(* ===== verification/Json_Schema.thy ===== *)
theory Json_Schema
  imports Json Identifiers
begin

text \<open>
  The bounded JSON-schema subset of \<^verbatim>\<open>crates/rho-extension-runtime/src/json_schema.rs\<close>. Each
  message of \<open>JsonSchemaError\<close> is a constructor that carries what the message names; the internal
  \<open>expect\<close> and \<open>unreachable!\<close> of the validator are the value \<open>SchemaPanic\<close>, so that their absence is
  a theorem. Both validators recurse on the depth they are passed, which they bound themselves.
  The serialisation whose length is bounded is the parameter \<open>encode\<close>.
\<close>

definition MAX_CONTRIBUTION_SCHEMA_BYTES :: nat where "MAX_CONTRIBUTION_SCHEMA_BYTES = 65536"
definition MAX_CONTRIBUTION_SCHEMA_DEPTH :: nat where "MAX_CONTRIBUTION_SCHEMA_DEPTH = 8"
definition MAX_CONTRIBUTION_SCHEMA_PROPERTIES :: nat where "MAX_CONTRIBUTION_SCHEMA_PROPERTIES = 128"
definition MAX_CONTRIBUTION_SCHEMA_ENUM_VALUES :: nat where "MAX_CONTRIBUTION_SCHEMA_ENUM_VALUES = 128"

datatype json_schema_error =
  CannotEncode | SchemaTooLarge | SchemaTooDeep | NodeNotObject | UnsupportedKeyword string
| TypeNotString | UnsupportedType string | KeywordOwner string string | NumericOnly | ItemsMissing
| EnumNotArray | EnumEmpty | EnumOverflow | EnumTooMany | EnumTypeMismatch string
| PropertiesMissing | PropertyOverflow | PropertiesTooMany | UnsafePropertyName | RequiredNotArray
| RequiredNotString | RequiredUndeclared string | RequiredDuplicate string | BoundNotInteger string
| BoundsInverted string string | BoundNotNumber string | NumericBoundsInverted
| InstanceTooDeep | ValidatedNotObject | ValidatedNoType | TypeMismatch string string | NotInEnum string
| UndeclaredProperty string string | MissingProperty string string | OutsideNumericBounds string
| OutsideLengthBounds string
| SchemaPanic

record schema_budget =
  sb_properties :: nat
  sb_enum_values :: nat

type_synonym json_object = "(string \<times> json) list"

definition schema_keywords :: "string list" where
  "schema_keywords = [''type'', ''required'', ''properties'', ''items'', ''enum'', ''minimum'', ''maximum'',
     ''minLength'', ''maxLength'', ''minItems'', ''maxItems'']"

definition schema_types :: "string list" where
  "schema_types = [''object'', ''array'', ''string'', ''number'', ''integer'', ''boolean'', ''null'']"

definition value_matches_type :: "json \<Rightarrow> string \<Rightarrow> bool" where
  "value_matches_type value schema_type =
     (if schema_type = ''object'' then as_object value \<noteq> None
      else if schema_type = ''array'' then as_array value \<noteq> None
      else if schema_type = ''string'' then as_str value \<noteq> None
      else if schema_type = ''number'' then is_number value
      else if schema_type = ''integer'' then as_i64 value \<noteq> None \<or> as_u64 value \<noteq> None
      else if schema_type = ''boolean'' then as_bool value \<noteq> None
      else if schema_type = ''null'' then value = JNull
      else False)"

section \<open>Validating a schema\<close>

definition keyword_owners :: "(string \<times> string) list" where
  "keyword_owners = [(''required'', ''object''), (''properties'', ''object''), (''items'', ''array''),
     (''minLength'', ''string''), (''maxLength'', ''string''), (''minItems'', ''array''), (''maxItems'', ''array'')]"

definition validate_keyword_ownership :: "json_object \<Rightarrow> string \<Rightarrow> (json_schema_error, unit) result" where
  "validate_keyword_ownership object schema_type =
     try_res (for_each (\<lambda>(keyword, owner).
         if bt_contains_key object keyword \<and> schema_type \<noteq> owner then Err (KeywordOwner keyword owner) else Ok ())
         keyword_owners) (\<lambda>_.
       if (bt_contains_key object ''minimum'' \<or> bt_contains_key object ''maximum'') \<and>
          schema_type \<notin> {''number'', ''integer''}
       then Err NumericOnly else Ok ())"

text \<open>\<open>object.get(key).map(read).transpose()?\<close>: absent, or present and readable.\<close>

definition read_bound ::
  "(json \<Rightarrow> 'a option) \<Rightarrow> json_schema_error \<Rightarrow> json_object \<Rightarrow> string \<Rightarrow> (json_schema_error, 'a option) result" where
  "read_bound rd err object key =
     (case bt_get object key of
        None \<Rightarrow> Ok None
      | Some value \<Rightarrow> (case rd value of None \<Rightarrow> Err err | Some n \<Rightarrow> Ok (Some n)))"

definition inverted :: "('a :: linorder) option \<Rightarrow> 'a option \<Rightarrow> bool" where
  "inverted minimum maximum \<longleftrightarrow>
     (case (minimum, maximum) of (Some lo, Some hi) \<Rightarrow> lo > hi | _ \<Rightarrow> False)"

definition validate_unsigned_bounds :: "json_object \<Rightarrow> string \<Rightarrow> string \<Rightarrow> (json_schema_error, unit) result" where
  "validate_unsigned_bounds object minimum_key maximum_key =
     try_res (read_bound as_u64 (BoundNotInteger minimum_key) object minimum_key) (\<lambda>minimum.
     try_res (read_bound as_u64 (BoundNotInteger maximum_key) object maximum_key) (\<lambda>maximum.
       if inverted minimum maximum then Err (BoundsInverted minimum_key maximum_key) else Ok ()))"

definition validate_numeric_bounds :: "json_object \<Rightarrow> (json_schema_error, unit) result" where
  "validate_numeric_bounds object =
     try_res (read_bound as_f64 (BoundNotNumber ''minimum'') object ''minimum'') (\<lambda>minimum.
     try_res (read_bound as_f64 (BoundNotNumber ''maximum'') object ''maximum'') (\<lambda>maximum.
       if inverted minimum maximum then Err NumericBoundsInverted else Ok ()))"

definition unsafe_property_name :: "string \<Rightarrow> bool" where
  "unsafe_property_name name \<longleftrightarrow>
     name = [] \<or> length name > MAX_IDENTIFIER_BYTES \<or> has_control name \<or> contains_bidi_override name"

fun validate_required :: "json_object \<Rightarrow> string set \<Rightarrow> json list \<Rightarrow> (json_schema_error, unit) result" where
  "validate_required properties seen [] = Ok ()"
| "validate_required properties seen (item # items) =
     (case as_str item of
        None \<Rightarrow> Err RequiredNotString
      | Some name \<Rightarrow>
          if \<not> bt_contains_key properties name then Err (RequiredUndeclared name)
          else if name \<in> seen then Err (RequiredDuplicate name)
          else validate_required properties (insert name seen) items)"

text \<open>\<open>node\<close> is the call of \<open>validate_schema_node\<close> one level deeper.\<close>

definition validate_object_schema ::
  "(json \<Rightarrow> schema_budget \<Rightarrow> (json_schema_error, schema_budget) result) \<Rightarrow> json_object \<Rightarrow> schema_budget \<Rightarrow>
   (json_schema_error, schema_budget) result" where
  "validate_object_schema node object budget =
     (case Option.bind (bt_get object ''properties'') as_object of
        None \<Rightarrow> Err PropertiesMissing
      | Some properties \<Rightarrow>
          let total = sb_properties budget + length properties in
          if total \<ge> 2 ^ 64 then Err PropertyOverflow
          else if total > MAX_CONTRIBUTION_SCHEMA_PROPERTIES then Err PropertiesTooMany
          else
            try_res (fold_res (\<lambda>b (name, schema). if unsafe_property_name name then Err UnsafePropertyName else node schema b)
                (budget\<lparr>sb_properties := total\<rparr>) properties) (\<lambda>budget'.
            try_res (case bt_get object ''required'' of
                None \<Rightarrow> Ok []
              | Some value \<Rightarrow> (case as_array value of None \<Rightarrow> Err RequiredNotArray | Some items \<Rightarrow> Ok items)) (\<lambda>required.
            try_res (validate_required properties {} required) (\<lambda>_. Ok budget'))))"

definition validate_enum ::
  "json_object \<Rightarrow> string \<Rightarrow> schema_budget \<Rightarrow> (json_schema_error, schema_budget) result" where
  "validate_enum object schema_type budget =
     (case bt_get object ''enum'' of
        None \<Rightarrow> Ok budget
      | Some value \<Rightarrow>
          (case as_array value of
             None \<Rightarrow> Err EnumNotArray
           | Some values \<Rightarrow>
               let total = sb_enum_values budget + length values in
               if values = [] then Err EnumEmpty
               else if total \<ge> 2 ^ 64 then Err EnumOverflow
               else if total > MAX_CONTRIBUTION_SCHEMA_ENUM_VALUES then Err EnumTooMany
               else
                 try_res (for_each (\<lambda>item. if \<not> value_matches_type item schema_type then Err (EnumTypeMismatch schema_type)
                     else Ok ()) values) (\<lambda>_. Ok (budget\<lparr>sb_enum_values := total\<rparr>))))"

function validate_schema_node ::
  "json \<Rightarrow> nat \<Rightarrow> schema_budget \<Rightarrow> (json_schema_error, schema_budget) result" where
  "validate_schema_node value depth budget =
     (if depth > MAX_CONTRIBUTION_SCHEMA_DEPTH then Err SchemaTooDeep
      else case as_object value of
        None \<Rightarrow> Err NodeNotObject
      | Some object \<Rightarrow>
          try_res (for_each (\<lambda>key. if key \<notin> set schema_keywords then Err (UnsupportedKeyword key) else Ok ())
              (bt_keys object)) (\<lambda>_.
          case Option.bind (bt_get object ''type'') as_str of
            None \<Rightarrow> Err TypeNotString
          | Some schema_type \<Rightarrow>
              if schema_type \<notin> set schema_types then Err (UnsupportedType schema_type)
              else
                try_res (validate_keyword_ownership object schema_type) (\<lambda>_.
                try_res
                  (if schema_type = ''object''
                   then validate_object_schema (\<lambda>schema b. validate_schema_node schema (depth + 1) b) object budget
                   else if schema_type = ''array''
                   then (case bt_get object ''items'' of
                           None \<Rightarrow> Err ItemsMissing
                         | Some items \<Rightarrow>
                             try_res (validate_schema_node items (depth + 1) budget) (\<lambda>b.
                             try_res (validate_unsigned_bounds object ''minItems'' ''maxItems'') (\<lambda>_. Ok b)))
                   else if schema_type = ''string''
                   then try_res (validate_unsigned_bounds object ''minLength'' ''maxLength'') (\<lambda>_. Ok budget)
                   else if schema_type = ''number'' \<or> schema_type = ''integer''
                   then try_res (validate_numeric_bounds object) (\<lambda>_. Ok budget)
                   else if schema_type = ''boolean'' \<or> schema_type = ''null'' then Ok budget
                   else Err SchemaPanic)
                  (validate_enum object schema_type))))"
  by pat_completeness auto
termination
  by (relation "measure (\<lambda>(_, depth, _). Suc MAX_CONTRIBUTION_SCHEMA_DEPTH - depth)") auto

declare validate_schema_node.simps [simp del]

definition BoundedJsonSchema_new ::
  "(json \<Rightarrow> string option) \<Rightarrow> json \<Rightarrow> (json_schema_error, json) result" where
  "BoundedJsonSchema_new encode value =
     (case encode value of
        None \<Rightarrow> Err CannotEncode
      | Some encoded \<Rightarrow>
          if length encoded > MAX_CONTRIBUTION_SCHEMA_BYTES then Err SchemaTooLarge
          else try_res (validate_schema_node value 1 \<lparr>sb_properties = 0, sb_enum_values = 0\<rparr>) (\<lambda>_. Ok value))"

section \<open>Validating an instance\<close>

definition validate_length_bounds ::
  "json_object \<Rightarrow> nat \<Rightarrow> string \<Rightarrow> string \<Rightarrow> string \<Rightarrow> (json_schema_error, unit) result" where
  "validate_length_bounds schema actual minimum_key maximum_key path =
     (let n = (of_nat actual :: u64) in
      if (case Option.bind (bt_get schema minimum_key) as_u64 of None \<Rightarrow> False | Some lo \<Rightarrow> n < lo) \<or>
         (case Option.bind (bt_get schema maximum_key) as_u64 of None \<Rightarrow> False | Some hi \<Rightarrow> n > hi)
      then Err (OutsideLengthBounds path) else Ok ())"

definition outside_numeric :: "json_object \<Rightarrow> rat \<Rightarrow> bool" where
  "outside_numeric object number \<longleftrightarrow>
     (case Option.bind (bt_get object ''minimum'') as_f64 of None \<Rightarrow> False | Some lo \<Rightarrow> number < lo) \<or>
     (case Option.bind (bt_get object ''maximum'') as_f64 of None \<Rightarrow> False | Some hi \<Rightarrow> number > hi)"

definition check_required :: "json_object \<Rightarrow> json_object \<Rightarrow> string \<Rightarrow> (json_schema_error, unit) result" where
  "check_required object members path =
     (case Option.bind (bt_get object ''required'') as_array of
        None \<Rightarrow> Ok ()
      | Some required \<Rightarrow>
          for_each (\<lambda>name. if \<not> bt_contains_key members name then Err (MissingProperty path name) else Ok ())
            (List.map_filter as_str required))"

text \<open>The branches of the instance validator; \<open>node\<close> is the recursive call one level deeper.\<close>

definition validate_object_instance ::
  "(json \<Rightarrow> json \<Rightarrow> string \<Rightarrow> (json_schema_error, unit) result) \<Rightarrow> json_object \<Rightarrow> json \<Rightarrow> string \<Rightarrow>
   (json_schema_error, unit) result" where
  "validate_object_instance node object value path =
     (case as_object value of
        None \<Rightarrow> Err SchemaPanic
      | Some members \<Rightarrow>
          (case Option.bind (bt_get object ''properties'') as_object of
             None \<Rightarrow> Err SchemaPanic
           | Some properties \<Rightarrow>
               (case find (\<lambda>key. \<not> bt_contains_key properties key) (bt_keys members) of
                  Some unknown \<Rightarrow> Err (UndeclaredProperty path unknown)
                | None \<Rightarrow>
                    try_res (check_required object members path) (\<lambda>_.
                      for_each (\<lambda>(name, child).
                        (case bt_get properties name of
                           None \<Rightarrow> Err SchemaPanic
                         | Some child_schema \<Rightarrow> node child_schema child (path @ ''.'' @ name))) members))))"

definition validate_array_instance ::
  "(json \<Rightarrow> json \<Rightarrow> string \<Rightarrow> (json_schema_error, unit) result) \<Rightarrow> json_object \<Rightarrow> json \<Rightarrow> string \<Rightarrow>
   (json_schema_error, unit) result" where
  "validate_array_instance node object value path =
     (case as_array value of
        None \<Rightarrow> Err SchemaPanic
      | Some values \<Rightarrow>
          try_res (validate_length_bounds object (length values) ''minItems'' ''maxItems'' path) (\<lambda>_.
          case bt_get object ''items'' of
            None \<Rightarrow> Err SchemaPanic
          | Some items \<Rightarrow>
              for_each (\<lambda>(index, child). node items child (path @ ''['' @ show_nat index @ '']'')) (enumerate 0 values)))"

definition validate_scalar_instance ::
  "json_object \<Rightarrow> string \<Rightarrow> json \<Rightarrow> string \<Rightarrow> (json_schema_error, unit) result" where
  "validate_scalar_instance object schema_type value path =
     (if schema_type = ''string''
      then (case as_str value of
              None \<Rightarrow> Err SchemaPanic
            | Some s \<Rightarrow> validate_length_bounds object (char_count s) ''minLength'' ''maxLength'' path)
      else if schema_type = ''number'' \<or> schema_type = ''integer''
      then (case as_f64 value of
              None \<Rightarrow> Err SchemaPanic
            | Some number \<Rightarrow> if outside_numeric object number then Err (OutsideNumericBounds path) else Ok ())
      else if schema_type = ''boolean'' \<or> schema_type = ''null'' then Ok ()
      else Err SchemaPanic)"

definition outside_enum :: "json_object \<Rightarrow> json \<Rightarrow> bool" where
  "outside_enum object value \<longleftrightarrow>
     (case Option.bind (bt_get object ''enum'') as_array of
        None \<Rightarrow> False
      | Some allowed \<Rightarrow> \<not> list_ex (\<lambda>a. json_eq a value) allowed)"

function validate_instance_node ::
  "json \<Rightarrow> json \<Rightarrow> string \<Rightarrow> nat \<Rightarrow> (json_schema_error, unit) result" where
  "validate_instance_node schema value path depth =
     (if depth > MAX_CONTRIBUTION_SCHEMA_DEPTH then Err InstanceTooDeep
      else case as_object schema of
        None \<Rightarrow> Err ValidatedNotObject
      | Some object \<Rightarrow>
          (case Option.bind (bt_get object ''type'') as_str of
             None \<Rightarrow> Err ValidatedNoType
           | Some schema_type \<Rightarrow>
               if \<not> value_matches_type value schema_type then Err (TypeMismatch path schema_type)
               else if outside_enum object value then Err (NotInEnum path)
               else if schema_type = ''object''
               then validate_object_instance (\<lambda>s v p. validate_instance_node s v p (depth + 1)) object value path
               else if schema_type = ''array''
               then validate_array_instance (\<lambda>s v p. validate_instance_node s v p (depth + 1)) object value path
               else validate_scalar_instance object schema_type value path))"
  by pat_completeness auto
termination
  by (relation "measure (\<lambda>(_, _, _, depth). Suc MAX_CONTRIBUTION_SCHEMA_DEPTH - depth)") auto

declare validate_instance_node.simps [simp del]

definition validate_instance :: "json \<Rightarrow> json \<Rightarrow> (json_schema_error, unit) result" where
  "validate_instance schema value = validate_instance_node schema value ''$'' 1"

end
