(* ===== verification/Schema_Conformance.thy ===== *)
theory Schema_Conformance
  imports Json_Schema
begin

text \<open>
  What the schema validators compute: a schema that \<open>BoundedJsonSchema::new\<close> accepts has at most eight
  levels and every part the instance validator expects (\<open>schema_ok\<close>); on such schemas the instance
  validator decides the declarative relation \<open>conforms\<close> and none of its internal errors can occur.
\<close>

section \<open>Conformance\<close>







section \<open>Accepted schemas\<close>

primrec schema_ok :: "nat \<Rightarrow> json \<Rightarrow> bool" where
  "schema_ok 0 v = False"
| "schema_ok (Suc n) v =
     (\<exists>object t. v = JObject object \<and> bt_get object ''type'' = Some (JString t) \<and> t \<in> set schema_types \<and>
        (t = ''object'' \<longrightarrow> (\<exists>ps. bt_get object ''properties'' = Some (JObject ps) \<and>
           (\<forall>k s. (k, s) \<in> set ps \<longrightarrow> schema_ok n s))) \<and>
        (t = ''array'' \<longrightarrow> (\<exists>items. bt_get object ''items'' = Some items \<and> schema_ok n items)))"

lemma fold_res_each:
  "fold_res f s xs = Ok s' \<Longrightarrow> x \<in> set xs \<Longrightarrow> \<exists>t t'. f t x = Ok t'"
  by (induction xs arbitrary: s) (auto simp: try_res_Ok_iff)

lemma validate_object_schema_OkD:
  assumes "validate_object_schema node object b = Ok b'"
  obtains ps where "bt_get object ''properties'' = Some (JObject ps)"
    "\<And>k s. (k, s) \<in> set ps \<Longrightarrow> \<exists>c c'. node s c = Ok c'"
proof -
  obtain ps where ps: "bt_get object ''properties'' = Some (JObject ps)"
    using assms by (auto simp: validate_object_schema_def bind_eq_Some_conv split: option.splits)
  with assms obtain c c' where f: "fold_res (\<lambda>b (name, schema). if unsafe_property_name name then Err UnsafePropertyName
      else node schema b) c ps = Ok c'"
    by (auto simp: validate_object_schema_def Let_def try_res_Ok_iff split: if_splits)
  have "\<exists>c c'. node s c = Ok c'" if "(k, s) \<in> set ps" for k s
    using fold_res_each [OF f that] by (auto split: if_splits)
  with ps show thesis by (rule that)
qed

lemma validate_schema_node_OkD:
  assumes "validate_schema_node v d b = Ok b'"
  obtains object t c where "d \<le> MAX_CONTRIBUTION_SCHEMA_DEPTH" "v = JObject object"
    "bt_get object ''type'' = Some (JString t)" "t \<in> set schema_types" "validate_enum object t c = Ok b'"
    "t = ''object'' \<Longrightarrow> validate_object_schema (\<lambda>s b. validate_schema_node s (d + 1) b) object b = Ok c"
    "t = ''array'' \<Longrightarrow> \<exists>items. bt_get object ''items'' = Some items \<and> validate_schema_node items (d + 1) b = Ok c"
    "t \<notin> {''object'', ''array''} \<Longrightarrow> c = b"
proof -
  obtain object where v: "v = JObject object"
    using assms by (subst (asm) validate_schema_node.simps) (auto split: if_splits option.splits)
  note e = assms [unfolded v validate_schema_node.simps [of "JObject object" d b] as_object.simps option.case]
  from e obtain t where t: "bt_get object ''type'' = Some (JString t)" "t \<in> set schema_types"
    "d \<le> MAX_CONTRIBUTION_SCHEMA_DEPTH"
    by (auto simp: try_res_Ok_iff bind_eq_Some_conv split: if_splits option.splits)
  from e t obtain c where "validate_enum object t c = Ok b'"
    "t = ''object'' \<longrightarrow> validate_object_schema (\<lambda>s b. validate_schema_node s (d + 1) b) object b = Ok c"
    "t = ''array'' \<longrightarrow> (\<exists>items. bt_get object ''items'' = Some items \<and> validate_schema_node items (d + 1) b = Ok c)"
    "t \<notin> {''object'', ''array''} \<longrightarrow> c = b"
    by (auto simp: try_res_Ok_iff split: if_splits option.splits)
  with t v show thesis using that by blast
qed

lemma validate_schema_node_ok:
  "validate_schema_node v d b = Ok b' \<Longrightarrow> schema_ok (Suc MAX_CONTRIBUTION_SCHEMA_DEPTH - d) v"
proof (induction "Suc MAX_CONTRIBUTION_SCHEMA_DEPTH - d" arbitrary: v d b b')
  case 0
  then show ?case by (subst (asm) validate_schema_node.simps) simp
next
  case (Suc n)
  have n: "n = Suc MAX_CONTRIBUTION_SCHEMA_DEPTH - (d + 1)" using Suc.hyps(2) by linarith
  have IH: "schema_ok n w" if "validate_schema_node w (d + 1) c = Ok c'" for w c c'
    using Suc.hyps(1) [OF n that] n by simp
  from Suc.prems show ?case
  proof (cases rule: validate_schema_node_OkD)
    case (1 object t c)
    have "\<exists>ps. bt_get object ''properties'' = Some (JObject ps) \<and> (\<forall>k s. (k, s) \<in> set ps \<longrightarrow> schema_ok n s)"
      if "t = ''object''"
      using 1(6) [OF that] by (rule validate_object_schema_OkD) (use IH in blast)
    moreover have "\<exists>items. bt_get object ''items'' = Some items \<and> schema_ok n items" if "t = ''array''"
      using 1(7) [OF that] IH by blast
    ultimately show ?thesis unfolding Suc.hyps(2) [symmetric] schema_ok.simps using 1(2-4) by blast
  qed
qed

section \<open>The instance validator decides conformance\<close>











section \<open>No internal error on an accepted schema\<close>








section \<open>The aggregate budgets\<close>

definition declared_properties :: "json_object \<Rightarrow> nat" where
  "declared_properties object = (case bt_get object ''type'' of
     Some (JString t) \<Rightarrow> if t = ''object'' then (case bt_get object ''properties'' of
         Some (JObject ps) \<Rightarrow> length ps | _ \<Rightarrow> 0) else 0
   | _ \<Rightarrow> 0)"

definition enum_size :: "json_object \<Rightarrow> nat" where
  "enum_size object = (case bt_get object ''enum'' of Some (JArray vs) \<Rightarrow> length vs | _ \<Rightarrow> 0)"

definition subschemas :: "json_object \<Rightarrow> json list" where
  "subschemas object = (case bt_get object ''type'' of
     Some (JString t) \<Rightarrow>
       if t = ''object'' then (case bt_get object ''properties'' of Some (JObject ps) \<Rightarrow> map snd ps | _ \<Rightarrow> [])
       else if t = ''array'' then (case bt_get object ''items'' of Some items \<Rightarrow> [items] | None \<Rightarrow> [])
       else []
   | _ \<Rightarrow> [])"

text \<open>The sum of a weight over the first \<open>n\<close> levels of schema nodes.\<close>

primrec weigh :: "(json_object \<Rightarrow> nat) \<Rightarrow> nat \<Rightarrow> json \<Rightarrow> nat" where
  "weigh w 0 v = 0"
| "weigh w (Suc n) v = (case as_object v of None \<Rightarrow> 0
     | Some object \<Rightarrow> w object + sum_list (map (weigh w n) (subschemas object)))"

lemma fold_res_sum:
  "fold_res f s xs = Ok s' \<Longrightarrow> (\<And>t x t'. x \<in> set xs \<Longrightarrow> f t x = Ok t' \<Longrightarrow> m t' = m t + (g x :: nat)) \<Longrightarrow>
     m s' = m s + sum_list (map g xs)"
proof (induction xs arbitrary: s)
  case (Cons x xs)
  then obtain t where t: "f s x = Ok t" "fold_res f t xs = Ok s'" by (auto simp: try_res_Ok_iff)
  have "m t = m s + g x" using Cons.prems(2) [OF _ t(1)] by simp
  moreover have "m s' = m t + sum_list (map g xs)" using t(2) Cons.prems(2) by (intro Cons.IH) simp_all
  ultimately show ?case by simp
qed simp

lemma validate_enum_budget:
  "validate_enum object t b = Ok b' \<Longrightarrow>
     sb_properties b' = sb_properties b \<and> sb_enum_values b' = sb_enum_values b + enum_size object \<and>
     (sb_enum_values b \<le> MAX_CONTRIBUTION_SCHEMA_ENUM_VALUES \<longrightarrow> sb_enum_values b' \<le> MAX_CONTRIBUTION_SCHEMA_ENUM_VALUES)"
  by (auto simp: validate_enum_def enum_size_def Let_def try_res_Ok_iff split: option.splits if_splits json.splits)

lemma validate_object_schema_budget:
  assumes "validate_object_schema node object b = Ok b'"
    and "\<And>s c c'. node s c = Ok c' \<Longrightarrow>
      sb_properties c' = sb_properties c + p s \<and> sb_enum_values c' = sb_enum_values c + q s"
  obtains ps where "bt_get object ''properties'' = Some (JObject ps)"
    "sb_properties b' = sb_properties b + length ps + sum_list (map p (map snd ps))"
    "sb_enum_values b' = sb_enum_values b + sum_list (map q (map snd ps))"
proof -
  obtain ps where ps: "bt_get object ''properties'' = Some (JObject ps)"
    using assms(1) by (rule validate_object_schema_OkD)
  let ?f = "\<lambda>b (name, schema). if unsafe_property_name name then Err UnsafePropertyName else node schema b"
  let ?b = "b\<lparr>sb_properties := sb_properties b + length ps\<rparr>"
  have f: "fold_res ?f ?b ps = Ok b'"
    using assms(1) ps by (auto simp: validate_object_schema_def Let_def try_res_Ok_iff split: if_splits)
  have node: "sb_properties t' = sb_properties t + p (snd x)" "sb_enum_values t' = sb_enum_values t + q (snd x)"
    if "?f t x = Ok t'" for t x t'
    using that assms(2) by (auto split: prod.splits if_splits)
  have "sb_properties b' = sb_properties ?b + sum_list (map (\<lambda>x. p (snd x)) ps)"
    by (rule fold_res_sum [OF f]) (rule node)
  moreover have "sb_enum_values b' = sb_enum_values ?b + sum_list (map (\<lambda>x. q (snd x)) ps)"
    by (rule fold_res_sum [OF f]) (rule node)
  ultimately show thesis using ps by (intro that) (simp_all add: comp_def)
qed

lemma schema_node_budget:
  "validate_schema_node v d b = Ok b' \<Longrightarrow>
     sb_properties b' = sb_properties b + weigh declared_properties (Suc MAX_CONTRIBUTION_SCHEMA_DEPTH - d) v \<and>
     sb_enum_values b' = sb_enum_values b + weigh enum_size (Suc MAX_CONTRIBUTION_SCHEMA_DEPTH - d) v"
proof (induction "Suc MAX_CONTRIBUTION_SCHEMA_DEPTH - d" arbitrary: v d b b')
  case 0
  then show ?case by (subst (asm) validate_schema_node.simps) simp
next
  case (Suc n)
  have n: "n = Suc MAX_CONTRIBUTION_SCHEMA_DEPTH - (d + 1)" using Suc.hyps(2) by linarith
  have IH: "sb_properties c' = sb_properties c + weigh declared_properties n s \<and>
      sb_enum_values c' = sb_enum_values c + weigh enum_size n s"
    if "validate_schema_node s (d + 1) c = Ok c'" for s c c'
    using Suc.hyps(1) [OF n that] n by simp
  from Suc.prems show ?case
  proof (cases rule: validate_schema_node_OkD)
    case (1 object t c)
    note en = validate_enum_budget [OF 1(5)]
    have w: "weigh wt (Suc n) v = wt object + sum_list (map (weigh wt n) (subschemas object))" for wt
      by (simp add: 1(2))
    consider "t = ''object''" | "t = ''array''" | "t \<notin> {''object'', ''array''}" by blast
    then show ?thesis
    proof cases
      case o: 1
      from 1(6) [OF o] IH obtain ps where "bt_get object ''properties'' = Some (JObject ps)"
        "sb_properties c = sb_properties b + length ps + sum_list (map (weigh declared_properties n) (map snd ps))"
        "sb_enum_values c = sb_enum_values b + sum_list (map (weigh enum_size n) (map snd ps))"
        by (rule validate_object_schema_budget)
      with en 1(3) o show ?thesis unfolding Suc.hyps(2) [symmetric] w
        by (simp add: declared_properties_def subschemas_def)
    next
      case a: 2
      with 1(7) obtain items where "bt_get object ''items'' = Some items" "validate_schema_node items (d + 1) b = Ok c"
        by blast
      with en 1(3) a IH [OF this(2)] show ?thesis unfolding Suc.hyps(2) [symmetric] w
        by (simp add: declared_properties_def subschemas_def)
    next
      case 3
      with en 1(3,8) show ?thesis unfolding Suc.hyps(2) [symmetric] w
        by (simp add: declared_properties_def subschemas_def)
    qed
  qed
qed

lemma schema_node_bounded:
  "validate_schema_node v d b = Ok b' \<Longrightarrow> sb_properties b \<le> MAX_CONTRIBUTION_SCHEMA_PROPERTIES \<Longrightarrow>
     sb_enum_values b \<le> MAX_CONTRIBUTION_SCHEMA_ENUM_VALUES \<Longrightarrow>
     sb_properties b' \<le> MAX_CONTRIBUTION_SCHEMA_PROPERTIES \<and> sb_enum_values b' \<le> MAX_CONTRIBUTION_SCHEMA_ENUM_VALUES"
proof (induction "Suc MAX_CONTRIBUTION_SCHEMA_DEPTH - d" arbitrary: v d b b')
  case 0
  then show ?case by (subst (asm) validate_schema_node.simps) simp
next
  case (Suc n)
  let ?ok = "\<lambda>b. sb_properties b \<le> MAX_CONTRIBUTION_SCHEMA_PROPERTIES \<and>
    sb_enum_values b \<le> MAX_CONTRIBUTION_SCHEMA_ENUM_VALUES"
  have n: "n = Suc MAX_CONTRIBUTION_SCHEMA_DEPTH - (d + 1)" using Suc.hyps(2) by linarith
  note IH = Suc.hyps(1) [OF n]
  from Suc.prems(1) show ?case
  proof (cases rule: validate_schema_node_OkD)
    case (1 object t c)
    have "?ok c" if o: "t = ''object''"
    proof -
      obtain ps where ps: "bt_get object ''properties'' = Some (JObject ps)"
        using 1(6) [OF o] by (rule validate_object_schema_OkD)
      have f: "fold_res (\<lambda>b (name, schema). if unsafe_property_name name then Err UnsafePropertyName
          else validate_schema_node schema (Suc d) b) (b\<lparr>sb_properties := sb_properties b + length ps\<rparr>) ps = Ok c"
        and b: "?ok (b\<lparr>sb_properties := sb_properties b + length ps\<rparr>)"
        using 1(6) [OF o] ps Suc.prems(3) by (auto simp: validate_object_schema_def Let_def try_res_Ok_iff split: if_splits)
      from f b show ?thesis
        by (rule fold_res_inv [where P = ?ok]) (use IH in \<open>auto split: prod.splits if_splits\<close>)
    qed
    moreover have "?ok c" if "t = ''array''" using 1(7) [OF that] IH Suc.prems(2,3) by blast
    moreover have "?ok c" if "t \<notin> {''object'', ''array''}" using 1(8) [OF that] Suc.prems(2,3) by simp
    ultimately have "?ok c" by blast
    with validate_enum_budget [OF 1(5)] show ?thesis by simp
  qed
qed

lemma BoundedJsonSchema_new_OkD:
  assumes "BoundedJsonSchema_new encode value = Ok schema"
  obtains b' where "validate_schema_node value 1 \<lparr>sb_properties = 0, sb_enum_values = 0\<rparr> = Ok b'" "schema = value"
proof (cases "encode value")
  case (Some encoded)
  with assms have "try_res (validate_schema_node value 1 \<lparr>sb_properties = 0, sb_enum_values = 0\<rparr>) (\<lambda>_. Ok value) = Ok schema"
    by (simp only: BoundedJsonSchema_new_def option.case split: if_splits) blast
  then show thesis using that unfolding try_res_Ok_iff by blast
qed (use assms in \<open>simp add: BoundedJsonSchema_new_def\<close>)

definition demo_schema :: json where
  "demo_schema = JObject [(''items'', JObject [(''maximum'', JNumber (PosInt 9)), (''type'', JString ''integer'')]),
     (''maxItems'', JNumber (PosInt 2)), (''type'', JString ''array'')]"

lemmas instance_eval = validate_instance_def validate_instance_node.simps MAX_CONTRIBUTION_SCHEMA_DEPTH_def
  value_matches_type_def outside_enum_def validate_scalar_instance_def validate_array_instance_def
  validate_length_bounds_def outside_numeric_def

lemma demo_schema_accepted: "BoundedJsonSchema_new (\<lambda>_. Some []) demo_schema = Ok demo_schema"
  by (simp add: BoundedJsonSchema_new_def demo_schema_def validate_schema_node.simps MAX_CONTRIBUTION_SCHEMA_DEPTH_def
      bt_keys_def bt_contains_key_def schema_keywords_def schema_types_def validate_keyword_ownership_def
      keyword_owners_def validate_unsigned_bounds_def validate_numeric_bounds_def read_bound_def inverted_def
      validate_enum_def)

section \<open>Properties\<close>

text \<open>C34. A schema is bounded when it is accepted: it is the value given, has at most eight levels, each with
  the parts the instance validator reads, and over all its levels declares at most 128 properties and at
  most 128 enumeration values.\<close>

theorem accepted_schema_bounded:
  assumes "BoundedJsonSchema_new encode value = Ok schema"
  shows "schema = value \<and> schema_ok MAX_CONTRIBUTION_SCHEMA_DEPTH schema \<and>
     weigh declared_properties MAX_CONTRIBUTION_SCHEMA_DEPTH schema \<le> MAX_CONTRIBUTION_SCHEMA_PROPERTIES \<and>
     weigh enum_size MAX_CONTRIBUTION_SCHEMA_DEPTH schema \<le> MAX_CONTRIBUTION_SCHEMA_ENUM_VALUES"
proof -
  let ?b = "\<lparr>sb_properties = 0, sb_enum_values = 0\<rparr>"
  obtain b' where b': "validate_schema_node value 1 ?b = Ok b'" and "schema = value"
    using assms by (rule BoundedJsonSchema_new_OkD)
  have "schema_ok MAX_CONTRIBUTION_SCHEMA_DEPTH value" using validate_schema_node_ok [OF b'] by simp
  moreover have "weigh declared_properties MAX_CONTRIBUTION_SCHEMA_DEPTH value = sb_properties b'"
    "weigh enum_size MAX_CONTRIBUTION_SCHEMA_DEPTH value = sb_enum_values b'"
    using schema_node_budget [OF b'] by simp_all
  moreover have "sb_properties b' \<le> MAX_CONTRIBUTION_SCHEMA_PROPERTIES \<and>
      sb_enum_values b' \<le> MAX_CONTRIBUTION_SCHEMA_ENUM_VALUES"
    using schema_node_bounded [OF b'] by simp
  ultimately show ?thesis using \<open>schema = value\<close> by simp
qed

theorem accepted_schema_bounded_witness:
  "schema_ok MAX_CONTRIBUTION_SCHEMA_DEPTH demo_schema \<and>
     weigh declared_properties MAX_CONTRIBUTION_SCHEMA_DEPTH demo_schema \<le> MAX_CONTRIBUTION_SCHEMA_PROPERTIES"
  using accepted_schema_bounded [OF demo_schema_accepted] by blast



section \<open>Integer bounds are compared as doubles\<close>

text \<open>An integer bound is enforced up to the rounding of both sides to a double: above \<open>2 ^ 53\<close> a value
  larger than the declared maximum passes.\<close>

lemma rounded_maximum:
  "validate_instance (JObject [(''maximum'', JNumber (PosInt 9007199254740992)), (''type'', JString ''integer'')])
     (JNumber (PosInt 9007199254740993)) = Ok ()"
  by (simp add: instance_eval f64_of_int_def round_to_double_def bit_length.simps)

end
