(* ===== verification/Contribution.thy ===== *)
theory Contribution
  imports Json_Schema Plugin_Instance
begin

text \<open>
  Declarative contributions: \<^verbatim>\<open>crates/rho-extension-runtime/src/contribution.rs\<close>. The validation
  of a declaration, and the project-scoped store with its atomic, compare-and-swap publication. The
  messages of \<open>validate_shape\<close> are constructors of \<open>shape_error\<close>; a panic of \<open>Contribution::new\<close>'s
  \<open>expect\<close> is \<open>None\<close>.
\<close>

definition MAX_CONTRIBUTIONS_PER_PROJECT :: nat where "MAX_CONTRIBUTIONS_PER_PROJECT = 256"
definition MAX_CONTRIBUTIONS_PER_PACKAGE :: nat where "MAX_CONTRIBUTIONS_PER_PACKAGE = 32"
definition MAX_CONTRIBUTION_LABEL_BYTES :: nat where "MAX_CONTRIBUTION_LABEL_BYTES = 128"
definition MAX_CONTRIBUTION_PURPOSE_BYTES :: nat where "MAX_CONTRIBUTION_PURPOSE_BYTES = 1024"
definition MAX_CONTRIBUTION_MEDIA_TYPES :: nat where "MAX_CONTRIBUTION_MEDIA_TYPES = 16"
definition MAX_CONTRIBUTION_MEDIA_TYPE_BYTES :: nat where "MAX_CONTRIBUTION_MEDIA_TYPE_BYTES = 128"
definition PLUGIN_DETAILS_PANEL_SLOT :: string where "PLUGIN_DETAILS_PANEL_SLOT = ''plugin_details''"

section \<open>Kinds and declarations\<close>

datatype contribution_kind = Command | Viewer | Source | Tool | Skill | Panel

definition kind_prefixes :: "(string \<times> contribution_kind) list" where
  "kind_prefixes = [(''ui.command.'', Command), (''ui.viewer.'', Viewer), (''source.'', Source),
     (''tool.'', Tool), (''skill.'', Skill), (''ui.panel.'', Panel)]"

text \<open>The first prefix that matches decides; an empty rest is refused.\<close>

fun parse_prefixes :: "(string \<times> contribution_kind) list \<Rightarrow> string \<Rightarrow> contribution_kind option" where
  "parse_prefixes [] value = None"
| "parse_prefixes ((p, k) # ps) value =
     (case strip_prefix p value of
        Some rest \<Rightarrow> if rest \<noteq> [] then Some k else None
      | None \<Rightarrow> parse_prefixes ps value)"

definition ContributionKind_parse :: "string \<Rightarrow> contribution_kind option" where
  "ContributionKind_parse value = parse_prefixes kind_prefixes value"

record contribution_declaration =
  dn_id :: capability_id
  dn_kind :: contribution_kind
  dn_contract_major :: u64
  dn_label :: string
  dn_purpose :: string
  dn_input_schema :: "json option"
  dn_output_schema :: "json option"
  dn_media_types :: "string list"
  dn_skill_path :: "string option"
  dn_panel_slot :: "string option"

datatype shape_error =
  ZeroMajor | KindMismatch capability_id contribution_kind | UnsafeText string | MarkupText string | ReservedText string
| TooManyMediaTypes | InvalidMediaType string | PartialSchemas | SchemasRequired capability_id
| ForeignFields capability_id | MediaTypesForbidden capability_id | PanelFields capability_id
| SkillFields capability_id

fun kind_debug :: "contribution_kind \<Rightarrow> string" where
  "kind_debug Command = ''Command''"
| "kind_debug Viewer = ''Viewer''"
| "kind_debug Source = ''Source''"
| "kind_debug Tool = ''Tool''"
| "kind_debug Skill = ''Skill''"
| "kind_debug Panel = ''Panel''"

text \<open>The messages, as the program formats them.\<close>

fun shape_reason :: "shape_error \<Rightarrow> string" where
  "shape_reason ZeroMajor = ''contribution contractMajor must be positive''"
| "shape_reason (KindMismatch i k) = ''contribution '' @ i @ '' does not match kind '' @ kind_debug k"
| "shape_reason (UnsafeText f) = ''contribution '' @ f @ '' is empty, oversized, or contains unsafe controls''"
| "shape_reason (MarkupText f) = ''contribution '' @ f @ '' must be plain text without markup or URLs''"
| "shape_reason (ReservedText f) = ''contribution '' @ f @ '' uses reserved trusted-surface terminology''"
| "shape_reason TooManyMediaTypes = ''mediaTypes exceed 16 entries''"
| "shape_reason (InvalidMediaType m) = ''invalid or duplicate media type: '' @ m"
| "shape_reason PartialSchemas = ''inputSchema and outputSchema must be declared together''"
| "shape_reason (SchemasRequired i) = ''contribution '' @ i @ '' requires call schemas''"
| "shape_reason (ForeignFields i) = ''contribution '' @ i @ '' declares fields owned by another kind''"
| "shape_reason (MediaTypesForbidden i) = ''contribution '' @ i @ '' cannot declare mediaTypes''"
| "shape_reason (PanelFields i) = ''panel '' @ i @ '' requires call schemas and panelSlot='' @ PLUGIN_DETAILS_PANEL_SLOT"
| "shape_reason (SkillFields i) = ''skill '' @ i @ '' must declare only skillPath metadata''"

definition url_markers :: "string list" where
  "url_markers = [''http://'', ''https://'', ''file://'', ''data:'', ''www.'']"

definition reserved_terms :: "string list" where
  "reserved_terms = [''approval'', ''credential'', ''password'', ''updater'', ''security alert'', ''system dialog'']"

definition validate_untrusted_text :: "string \<Rightarrow> nat \<Rightarrow> string \<Rightarrow> (shape_error, unit) result" where
  "validate_untrusted_text value maximum_bytes field =
     (if value = [] \<or> trim value \<noteq> value \<or> length value > maximum_bytes \<or> has_control value \<or>
         contains_bidi_override value
      then Err (UnsafeText field)
      else if list_ex (\<lambda>c. c \<in> set value) [CHR ''<'', CHR ''>'', CHR 0x60] \<or> contains_str ''!['' value \<or>
         contains_str ''](''  value \<or> list_ex (\<lambda>marker. contains_str marker (to_lowercase value)) url_markers
      then Err (MarkupText field)
      else if list_ex (\<lambda>term. contains_str term (to_lowercase value)) reserved_terms
      then Err (ReservedText field)
      else Ok ())"

definition media_char :: "char \<Rightarrow> bool" where
  "media_char c \<longleftrightarrow> ascii_lowercase c \<or> ascii_digit c \<or> c \<in> {CHR ''/'', CHR ''+'', CHR ''.'', CHR ''-''}"

text \<open>\<open>split_once('/')\<close> with both parts non-empty.\<close>

definition has_both_parts :: "string \<Rightarrow> bool" where
  "has_both_parts s \<longleftrightarrow>
     CHR ''/'' \<in> set s \<and> takeWhile (\<lambda>c. c \<noteq> CHR ''/'') s \<noteq> [] \<and> tl (dropWhile (\<lambda>c. c \<noteq> CHR ''/'') s) \<noteq> []"

fun scan_media_types :: "string set \<Rightarrow> string list \<Rightarrow> (shape_error, unit) result" where
  "scan_media_types seen [] = Ok ()"
| "scan_media_types seen (m # ms) =
     (if m = [] \<or> length m > MAX_CONTRIBUTION_MEDIA_TYPE_BYTES \<or> CHR ''*'' \<in> set m \<or> CHR '';'' \<in> set m \<or>
         length (filter (\<lambda>c. c = CHR ''/'') m) \<noteq> 1 \<or> \<not> has_both_parts m \<or> \<not> list_all media_char m \<or> m \<in> seen
      then Err (InvalidMediaType m)
      else scan_media_types (insert m seen) ms)"

definition validate_media_types :: "string list \<Rightarrow> (shape_error, unit) result" where
  "validate_media_types media_types =
     (if length media_types > MAX_CONTRIBUTION_MEDIA_TYPES then Err TooManyMediaTypes
      else scan_media_types {} media_types)"

definition validate_kind_fields :: "contribution_declaration \<Rightarrow> bool \<Rightarrow> (shape_error, unit) result" where
  "validate_kind_fields d has_call_schemas =
     (case dn_kind d of
        Panel \<Rightarrow>
          if \<not> has_call_schemas \<or> dn_panel_slot d \<noteq> Some PLUGIN_DETAILS_PANEL_SLOT \<or> dn_skill_path d \<noteq> None \<or>
             dn_media_types d \<noteq> []
          then Err (PanelFields (dn_id d)) else Ok ()
      | Skill \<Rightarrow>
          if dn_skill_path d = None \<or> has_call_schemas \<or> dn_panel_slot d \<noteq> None \<or> dn_media_types d \<noteq> []
          then Err (SkillFields (dn_id d)) else Ok ()
      | _ \<Rightarrow>
          if \<not> has_call_schemas then Err (SchemasRequired (dn_id d))
          else if dn_skill_path d \<noteq> None \<or> dn_panel_slot d \<noteq> None then Err (ForeignFields (dn_id d))
          else if dn_kind d \<noteq> Viewer \<and> dn_media_types d \<noteq> [] then Err (MediaTypesForbidden (dn_id d))
          else Ok ())"

definition validate_shape :: "contribution_declaration \<Rightarrow> (shape_error, unit) result" where
  "validate_shape d =
     (if dn_contract_major d = 0 then Err ZeroMajor
      else if ContributionKind_parse (dn_id d) \<noteq> Some (dn_kind d) then Err (KindMismatch (dn_id d) (dn_kind d))
      else
        try_res (validate_untrusted_text (dn_label d) MAX_CONTRIBUTION_LABEL_BYTES ''label'') (\<lambda>_.
        try_res (validate_untrusted_text (dn_purpose d) MAX_CONTRIBUTION_PURPOSE_BYTES ''purpose'') (\<lambda>_.
        try_res (validate_media_types (dn_media_types d)) (\<lambda>_.
          let has_call_schemas = (dn_input_schema d \<noteq> None \<and> dn_output_schema d \<noteq> None);
              has_partial_schemas = ((dn_input_schema d \<noteq> None) \<noteq> (dn_output_schema d \<noteq> None)) in
          if has_partial_schemas then Err PartialSchemas
          else validate_kind_fields d has_call_schemas))))"

section \<open>Contributions\<close>

record contribution =
  co_capability :: capability_id
  co_kind :: contribution_kind
  co_contract_major :: u64
  co_label :: string
  co_purpose :: string
  co_input_schema :: "json option"
  co_output_schema :: "json option"
  co_media_types :: "string list"
  co_skill_path :: "string option"
  co_panel_slot :: "string option"

datatype contribution_error =
  Duplicate | Unknown | WrongProject | WrongOwner | StaleGeneration | WrongHostSession | Invalid
| ContributionLimitExceeded | ExpectedOldMismatch

definition Contribution_new ::
  "(json \<Rightarrow> string option) \<Rightarrow> capability_id \<Rightarrow> contribution_kind \<Rightarrow> string \<Rightarrow> string \<Rightarrow> contribution option" where
  "Contribution_new encode capability kind label purpose =
     (let build = (\<lambda>call_schema. Some \<lparr>co_capability = capability, co_kind = kind, co_contract_major = 1,
            co_label = label, co_purpose = purpose, co_input_schema = call_schema, co_output_schema = call_schema,
            co_media_types = [], co_skill_path = None,
            co_panel_slot = (if kind = Panel then Some PLUGIN_DETAILS_PANEL_SLOT else None)\<rparr>) in
      if kind \<noteq> Skill
      then (case BoundedJsonSchema_new encode (JObject [(''type'', JString ''object''), (''properties'', JObject [])]) of
              Inl _ \<Rightarrow> None
            | Inr schema \<Rightarrow> build (Some schema))
      else build None)"

definition from_declaration :: "contribution_declaration \<Rightarrow> (contribution_error, contribution) result" where
  "from_declaration d =
     try_res (map_err (\<lambda>_. Invalid) (validate_shape d)) (\<lambda>_.
       Ok \<lparr>co_capability = dn_id d, co_kind = dn_kind d, co_contract_major = dn_contract_major d,
          co_label = dn_label d, co_purpose = dn_purpose d, co_input_schema = dn_input_schema d,
          co_output_schema = dn_output_schema d, co_media_types = dn_media_types d,
          co_skill_path = dn_skill_path d, co_panel_slot = dn_panel_slot d\<rparr>)"

definition contribution_is_valid :: "contribution \<Rightarrow> bool" where
  "contribution_is_valid c =
     is_ok (validate_shape \<lparr>dn_id = co_capability c, dn_kind = co_kind c, dn_contract_major = co_contract_major c,
        dn_label = co_label c, dn_purpose = co_purpose c, dn_input_schema = co_input_schema c,
        dn_output_schema = co_output_schema c, dn_media_types = co_media_types c,
        dn_skill_path = co_skill_path c, dn_panel_slot = co_panel_slot c\<rparr>)"

record contribution_instance_identity =
  ci_project_id :: scope_id
  ci_plugin_id :: plugin_id
  ci_package_digest :: package_digest
  ci_activation_generation :: activation_generation
  ci_host_instance_id :: host_instance_id

record contribution_record =
  cn_contribution :: contribution
  cn_plugin_id :: plugin_id
  cn_package_digest :: package_digest
  cn_project_id :: scope_id
  cn_activation_generation :: activation_generation
  cn_host_instance_id :: host_instance_id

definition ContributionInstanceIdentity_new ::
  "scope_id \<Rightarrow> plugin_id \<Rightarrow> package_digest \<Rightarrow> activation_generation \<Rightarrow> host_instance_id \<Rightarrow>
   contribution_instance_identity" where
  "ContributionInstanceIdentity_new project plugin digest gen host =
     \<lparr>ci_project_id = project, ci_plugin_id = plugin, ci_package_digest = digest,
      ci_activation_generation = gen, ci_host_instance_id = host\<rparr>"

record contribution_candidate =
  cc_identity :: contribution_instance_identity
  cc_contributions :: "contribution list"

section \<open>The store\<close>

type_synonym contribution_store = "(scope_id \<times> capability_id, contribution_record) btree"

definition ContributionStore_new :: contribution_store where
  "ContributionStore_new = bt_empty"

fun stage_declarations ::
  "capability_id set \<Rightarrow> contribution list \<Rightarrow> contribution_declaration list \<Rightarrow>
   (contribution_error, contribution list) result" where
  "stage_declarations seen acc [] = Ok acc"
| "stage_declarations seen acc (d # ds) =
     (if dn_id d \<in> seen then Err Duplicate
      else try_res (from_declaration d) (\<lambda>c. stage_declarations (insert (dn_id d) seen) (acc @ [c]) ds))"

definition stage_candidate ::
  "contribution_instance_identity \<Rightarrow> contribution_declaration list \<Rightarrow>
   (contribution_error, contribution_candidate) result" where
  "stage_candidate identity declarations =
     (if length declarations > MAX_CONTRIBUTIONS_PER_PACKAGE then Err ContributionLimitExceeded
      else try_res (stage_declarations {} [] declarations) (\<lambda>cs.
        Ok \<lparr>cc_identity = identity, cc_contributions = cs\<rparr>))"

definition identity_of :: "contribution_record \<Rightarrow> contribution_instance_identity" where
  "identity_of r = ContributionInstanceIdentity_new (cn_project_id r) (cn_plugin_id r) (cn_package_digest r)
     (cn_activation_generation r) (cn_host_instance_id r)"

fun agree_identity ::
  "contribution_instance_identity option \<Rightarrow> contribution_record list \<Rightarrow>
   (contribution_error, contribution_instance_identity option) result" where
  "agree_identity identity [] = Ok identity"
| "agree_identity identity (r # rs) =
     (if (case identity of None \<Rightarrow> False | Some i \<Rightarrow> i \<noteq> identity_of r) then Err Invalid
      else agree_identity (Some (identity_of r)) rs)"

definition current_identity ::
  "contribution_store \<Rightarrow> scope_id \<Rightarrow> plugin_id \<Rightarrow>
   (contribution_error, contribution_instance_identity option) result" where
  "current_identity store project_id plugin_id =
     agree_identity None (filter (\<lambda>r. cn_project_id r = project_id \<and> cn_plugin_id r = plugin_id) (bt_values store))"

definition register ::
  "contribution_store \<Rightarrow> contribution_instance_identity \<Rightarrow> contribution \<Rightarrow>
   (contribution_error, contribution_store) result" where
  "register store i c =
     (let key = (ci_project_id i, co_capability c) in
      if \<not> contribution_is_valid c then Err Invalid
      else if length (filter (\<lambda>(project, _). project = ci_project_id i) (bt_keys store)) \<ge> MAX_CONTRIBUTIONS_PER_PROJECT
      then Err ContributionLimitExceeded
      else if bt_contains_key store key then Err Duplicate
      else Ok (bt_insert key \<lparr>cn_contribution = c, cn_plugin_id = ci_plugin_id i,
                cn_package_digest = ci_package_digest i, cn_project_id = ci_project_id i,
                cn_activation_generation = ci_activation_generation i,
                cn_host_instance_id = ci_host_instance_id i\<rparr> store))"

definition without_plugin :: "scope_id \<Rightarrow> plugin_id \<Rightarrow> contribution_store \<Rightarrow> contribution_store" where
  "without_plugin project_id plugin_id store =
     bt_retain (\<lambda>(project, _) r. project \<noteq> project_id \<or> cn_plugin_id r \<noteq> plugin_id) store"

definition publish ::
  "contribution_store \<Rightarrow> contribution_candidate \<Rightarrow> contribution_instance_identity option \<Rightarrow>
   contribution_store \<times> (contribution_error, contribution_instance_identity option) result" where
  "publish store candidate expected_old =
     (let i = cc_identity candidate in
      case current_identity store (ci_project_id i) (ci_plugin_id i) of
        Inl e \<Rightarrow> (store, Err e)
      | Inr current \<Rightarrow>
          if current \<noteq> expected_old then (store, Err ExpectedOldMismatch)
          else
            (case fold_res (\<lambda>s c. register s i c)
                (without_plugin (ci_project_id i) (ci_plugin_id i) store) (cc_contributions candidate) of
               Inl e \<Rightarrow> (store, Err e)
             | Inr next_store \<Rightarrow> (next_store, Ok current)))"

definition clear_instance :: "contribution_store \<Rightarrow> contribution_instance_identity \<Rightarrow> contribution_store" where
  "clear_instance store i =
     bt_retain (\<lambda>(project, _) r. project \<noteq> ci_project_id i \<or> cn_plugin_id r \<noteq> ci_plugin_id i \<or>
        cn_package_digest r \<noteq> ci_package_digest i \<or> cn_activation_generation r \<noteq> ci_activation_generation i \<or>
        cn_host_instance_id r \<noteq> ci_host_instance_id i) store"

definition unpublish ::
  "contribution_store \<Rightarrow> contribution_instance_identity \<Rightarrow> contribution_store \<times> (contribution_error, unit) result" where
  "unpublish store i =
     (case current_identity store (ci_project_id i) (ci_plugin_id i) of
        Inl e \<Rightarrow> (store, Err e)
      | Inr current \<Rightarrow>
          if current \<noteq> Some i then (store, Err ExpectedOldMismatch) else (clear_instance store i, Ok ()))"

definition contribution_get :: "contribution_store \<Rightarrow> scope_id \<Rightarrow> capability_id \<Rightarrow> contribution_record option" where
  "contribution_get store project_id capability = bt_get store (project_id, capability)"

definition remove_contribution ::
  "contribution_store \<Rightarrow> capability_id \<Rightarrow> contribution_instance_identity \<Rightarrow>
   contribution_store \<times> (contribution_error, unit) result" where
  "remove_contribution store capability i =
     (let key = (ci_project_id i, capability) in
      case bt_get store key of
        Some r \<Rightarrow>
          if cn_plugin_id r \<noteq> ci_plugin_id i \<or> cn_package_digest r \<noteq> ci_package_digest i then (store, Err WrongOwner)
          else if cn_activation_generation r \<noteq> ci_activation_generation i then (store, Err StaleGeneration)
          else if cn_host_instance_id r \<noteq> ci_host_instance_id i then (store, Err WrongHostSession)
          else (bt_remove key store, Ok ())
      | None \<Rightarrow>
          if list_ex (\<lambda>r. co_capability (cn_contribution r) = capability) (bt_values store)
          then (store, Err WrongProject) else (store, Err Unknown))"

definition list_contributions :: "contribution_store \<Rightarrow> scope_id \<Rightarrow> contribution_record list" where
  "list_contributions store project_id = filter (\<lambda>r. cn_project_id r = project_id) (bt_values store)"

definition clear_project :: "contribution_store \<Rightarrow> scope_id \<Rightarrow> contribution_store" where
  "clear_project store project_id = bt_retain (\<lambda>(project, _) _. project \<noteq> project_id) store"

end
