(* ===== verification/Contribution_Store.thy ===== *)
theory Contribution_Store
  imports Contribution
begin

text \<open>
  Lemmas on the contribution store: what each operation does to a lookup, the invariant of every
  reachable store (own keys, valid metadata, the project budget) and, for stores changed by whole
  publications only, that all records of a plugin carry one identity, which makes the published
  identity a compare-and-swap pointer.
\<close>

section \<open>Lookups after each operation\<close>

definition record_for :: "contribution_instance_identity \<Rightarrow> contribution \<Rightarrow> contribution_record" where
  "record_for i c = \<lparr>cn_contribution = c, cn_plugin_id = ci_plugin_id i, cn_package_digest = ci_package_digest i,
     cn_project_id = ci_project_id i, cn_activation_generation = ci_activation_generation i,
     cn_host_instance_id = ci_host_instance_id i\<rparr>"

definition project_count :: "scope_id \<Rightarrow> contribution_store \<Rightarrow> nat" where
  "project_count p s = length (filter (\<lambda>(project, _). project = p) (bt_keys s))"

definition store_inv :: "contribution_store \<Rightarrow> bool" where
  "store_inv s \<longleftrightarrow> bt_ok s \<and>
     (\<forall>k r. bt_get s k = Some r \<longrightarrow> k = (cn_project_id r, co_capability (cn_contribution r)) \<and>
        contribution_is_valid (cn_contribution r)) \<and>
     (\<forall>p. project_count p s \<le> MAX_CONTRIBUTIONS_PER_PROJECT)"

definition owned :: "scope_id \<Rightarrow> plugin_id \<Rightarrow> contribution_record \<Rightarrow> bool" where
  "owned project plugin r \<longleftrightarrow> cn_project_id r = project \<and> cn_plugin_id r = plugin"

definition consistent :: "contribution_store \<Rightarrow> bool" where
  "consistent s \<longleftrightarrow> (\<forall>k k' r r'. bt_get s k = Some r \<longrightarrow> bt_get s k' = Some r' \<longrightarrow>
     cn_project_id r = cn_project_id r' \<longrightarrow> cn_plugin_id r = cn_plugin_id r' \<longrightarrow> identity_of r = identity_of r')"

lemma identity_of_record_for [simp]: "identity_of (record_for i c) = i"
  by (simp add: identity_of_def record_for_def ContributionInstanceIdentity_new_def)

lemma record_for_simps [simp]:
  "cn_contribution (record_for i c) = c" "cn_plugin_id (record_for i c) = ci_plugin_id i"
  "cn_project_id (record_for i c) = ci_project_id i"
  by (simp_all add: record_for_def)

lemma identity_of_eqD:
  "identity_of r = i \<Longrightarrow> cn_project_id r = ci_project_id i \<and> cn_plugin_id r = ci_plugin_id i \<and>
     cn_package_digest r = ci_package_digest i \<and> cn_activation_generation r = ci_activation_generation i \<and>
     cn_host_instance_id r = ci_host_instance_id i"
  by (auto simp: identity_of_def ContributionInstanceIdentity_new_def)

lemma store_invD:
  "store_inv s \<Longrightarrow> bt_get s k = Some r \<Longrightarrow>
     k = (cn_project_id r, co_capability (cn_contribution r)) \<and> contribution_is_valid (cn_contribution r)"
  unfolding store_inv_def by blast

lemma contribution_store_ok: "store_inv s \<Longrightarrow> bt_ok s"
  by (simp add: store_inv_def)

lemma register_Ok_iff:
  "register s i c = Ok s' \<longleftrightarrow>
     contribution_is_valid c \<and> project_count (ci_project_id i) s < MAX_CONTRIBUTIONS_PER_PROJECT \<and>
     bt_get s (ci_project_id i, co_capability c) = None \<and>
     s' = bt_insert (ci_project_id i, co_capability c) (record_for i c) s"
  by (auto simp: register_def Let_def project_count_def bt_contains_key_def record_for_def)

lemma project_count_insert:
  "bt_get s (q, c) = None \<Longrightarrow> project_count p (bt_insert (q, c) r s) = (if q = p then 1 else 0) + project_count p s"
  using length_filter_bt_insert_new [of s "(q, c)" "\<lambda>x. fst (fst x) = p" r]
  by (simp add: project_count_def bt_keys_def filter_map comp_def case_prod_beta split: if_splits)

lemma project_count_retain: "project_count p (bt_retain q s) \<le> project_count p s"
  by (induction s) (auto simp: project_count_def bt_retain_def bt_keys_def)

lemma store_inv_register:
  assumes "store_inv s" "register s i c = Ok s'"
  shows "store_inv s'"
proof -
  let ?k = "(ci_project_id i, co_capability c)"
  from assms(2) have r: "contribution_is_valid c" "project_count (ci_project_id i) s < MAX_CONTRIBUTIONS_PER_PROJECT"
    "bt_get s ?k = None" "s' = bt_insert ?k (record_for i c) s" unfolding register_Ok_iff by blast+
  have "project_count p s' \<le> MAX_CONTRIBUTIONS_PER_PROJECT" for p
    using r assms(1) by (auto simp: project_count_insert store_inv_def)
  moreover have "k = (cn_project_id q, co_capability (cn_contribution q)) \<and> contribution_is_valid (cn_contribution q)"
    if "bt_get s' k = Some q" for k q
  proof (cases "k = ?k")
    case True
    with that r have "q = record_for i c" by simp
    with True r(1) show ?thesis by simp
  next
    case False
    with that r(4) have "bt_get s k = Some q" by (auto split: if_splits)
    with store_invD [OF assms(1)] show ?thesis by blast
  qed
  ultimately show ?thesis unfolding store_inv_def using contribution_store_ok [OF assms(1)] r(4) by blast
qed

lemma bt_get_retain_Some:
  "bt_ok s \<Longrightarrow> bt_get (bt_retain p s) k = Some r \<longleftrightarrow> bt_get s k = Some r \<and> p k r"
  by (auto simp: bt_get_retain split: option.splits)

lemma store_inv_retain: "store_inv s \<Longrightarrow> store_inv (bt_retain p s)"
  unfolding store_inv_def using project_count_retain [of _ p s] le_trans
  by (metis bt_ok_retain bt_get_retain_Some)

lemma consistent_retain: "bt_ok s \<Longrightarrow> consistent s \<Longrightarrow> consistent (bt_retain p s)"
  unfolding consistent_def by (metis bt_get_retain_Some)

lemma without_plugin_Some:
  assumes "store_inv s"
  shows "bt_get (without_plugin project plugin s) k = Some r \<longleftrightarrow> bt_get s k = Some r \<and> \<not> owned project plugin r"
  using store_invD [OF assms, of k r] bt_get_retain_Some [OF contribution_store_ok [OF assms]]
  by (auto simp: without_plugin_def owned_def)

lemma clear_instance_Some:
  assumes "store_inv s"
  shows "bt_get (clear_instance s i) k = Some r \<longleftrightarrow> bt_get s k = Some r \<and> identity_of r \<noteq> i"
proof -
  have "bt_get (clear_instance s i) k = Some r \<longleftrightarrow> bt_get s k = Some r \<and>
      (fst k \<noteq> ci_project_id i \<or> cn_plugin_id r \<noteq> ci_plugin_id i \<or> cn_package_digest r \<noteq> ci_package_digest i \<or>
       cn_activation_generation r \<noteq> ci_activation_generation i \<or> cn_host_instance_id r \<noteq> ci_host_instance_id i)"
    by (simp add: clear_instance_def bt_get_retain_Some [OF contribution_store_ok [OF assms]] case_prod_beta)
  moreover have "fst k = cn_project_id r" if "bt_get s k = Some r" using store_invD [OF assms that] by simp
  ultimately show ?thesis by (auto simp: identity_of_def ContributionInstanceIdentity_new_def)
qed

section \<open>The published identity\<close>

lemma agree_identity_Some:
  "agree_identity (Some i) rs = (if \<forall>r\<in>set rs. identity_of r = i then Ok (Some i) else Err Invalid)"
  by (induction rs) auto

lemma agree_identity_None:
  "agree_identity None rs = Ok None \<longleftrightarrow> rs = []"
  "agree_identity None rs = Ok (Some i) \<longleftrightarrow> rs \<noteq> [] \<and> (\<forall>r\<in>set rs. identity_of r = i)"
  by (cases rs; auto simp: agree_identity_Some)+

lemma current_identity_None:
  assumes "bt_ok s"
  shows "current_identity s project plugin = Ok None \<longleftrightarrow> (\<forall>k r. bt_get s k = Some r \<longrightarrow> \<not> owned project plugin r)"
  using bt_values_get [OF assms]
  by (auto simp: current_identity_def agree_identity_None filter_empty_conv owned_def)

lemma current_identity_Some:
  assumes "bt_ok s"
  shows "current_identity s project plugin = Ok (Some i) \<longleftrightarrow>
     (\<exists>k r. bt_get s k = Some r \<and> owned project plugin r) \<and>
     (\<forall>k r. bt_get s k = Some r \<longrightarrow> owned project plugin r \<longrightarrow> identity_of r = i)"
proof -
  have "current_identity s project plugin = Ok (Some i) \<longleftrightarrow>
      (\<exists>r\<in>set (bt_values s). owned project plugin r) \<and> (\<forall>r\<in>set (bt_values s). owned project plugin r \<longrightarrow> identity_of r = i)"
    by (auto simp: current_identity_def agree_identity_None filter_empty_conv owned_def)
  then show ?thesis unfolding Bex_def Ball_def bt_values_get [OF assms] by blast
qed

lemma current_identity_total:
  assumes "bt_ok s" "consistent s"
  obtains j where "current_identity s project plugin = Ok j"
proof (cases "\<exists>k r. bt_get s k = Some r \<and> owned project plugin r")
  case True
  then obtain k r where r: "bt_get s k = Some r" "owned project plugin r" by blast
  with assms(2) have "\<forall>k' r'. bt_get s k' = Some r' \<longrightarrow> owned project plugin r' \<longrightarrow> identity_of r' = identity_of r"
    unfolding consistent_def owned_def by metis
  with r have "current_identity s project plugin = Ok (Some (identity_of r))"
    unfolding current_identity_Some [OF assms(1)] by blast
  then show thesis by (rule that)
next
  case False
  then have "current_identity s project plugin = Ok None" unfolding current_identity_None [OF assms(1)] by blast
  then show thesis by (rule that)
qed

section \<open>Publication\<close>

text \<open>All records of the identity's plugin carry that identity.\<close>

definition only :: "contribution_instance_identity \<Rightarrow> contribution_store \<Rightarrow> bool" where
  "only i s \<longleftrightarrow> (\<forall>k r. bt_get s k = Some r \<longrightarrow> owned (ci_project_id i) (ci_plugin_id i) r \<longrightarrow> identity_of r = i)"

lemma only_register: "only i s \<Longrightarrow> register s i c = Ok s' \<Longrightarrow> only i s'"
  by (auto simp: only_def register_Ok_iff)

lemma consistent_register:
  assumes "consistent s" "only i s" "register s i c = Ok s'"
  shows "consistent s'"
proof -
  have o: "only i s'" using only_register assms(2,3) .
  have old: "bt_get s k = Some r \<or> identity_of r = i" if "bt_get s' k = Some r" for k r
    using that assms(3) by (auto simp: register_Ok_iff split: if_splits)
  have same: "identity_of r' = i" if "bt_get s' k' = Some r'" "identity_of r = i" "cn_project_id r = cn_project_id r'"
    "cn_plugin_id r = cn_plugin_id r'" for k' r r'
    using o that identity_of_eqD [OF that(2)] unfolding only_def owned_def by metis
  show ?thesis unfolding consistent_def using old same assms(1) unfolding consistent_def by metis
qed

lemma register_all_get:
  assumes "fold_res (\<lambda>s c. register s i c) s cs = Ok s'"
  shows "bt_get s' k = (case find (\<lambda>c. (ci_project_id i, co_capability c) = k) cs of
     Some c \<Rightarrow> Some (record_for i c) | None \<Rightarrow> bt_get s k)"
  using assms
proof (induction cs arbitrary: s)
  case (Cons c cs)
  then obtain t where t: "register s i c = Ok t" "fold_res (\<lambda>s c. register s i c) t cs = Ok s'"
    by (auto simp: try_res_Ok_iff)
  have tk: "bt_get t (ci_project_id i, co_capability c) \<noteq> None" using t(1) by (simp add: register_Ok_iff)
  have "find (\<lambda>d. (ci_project_id i, co_capability d) = (ci_project_id i, co_capability c)) cs = None"
    using t(2) tk
  proof (induction cs arbitrary: t)
    case (Cons d ds)
    then obtain u where u: "register t i d = Ok u" "fold_res (\<lambda>s c. register s i c) u ds = Ok s'"
      by (auto simp: try_res_Ok_iff)
    with Cons.prems(2) have "co_capability d \<noteq> co_capability c" by (auto simp: register_Ok_iff)
    moreover have "bt_get u (ci_project_id i, co_capability c) \<noteq> None" using u(1) Cons.prems(2) by (auto simp: register_Ok_iff)
    ultimately show ?case using Cons.IH [OF u(2)] by simp
  qed simp
  with Cons.IH [OF t(2)] t(1) show ?case by (auto simp: register_Ok_iff split: option.splits)
qed simp

lemma publish_cases:
  assumes "publish s c e = (s', r)"
  obtains (refused) err where "s' = s" "r = Err err"
  | (published) "r = Ok e" "current_identity s (ci_project_id (cc_identity c)) (ci_plugin_id (cc_identity c)) = Ok e"
      "fold_res (\<lambda>s d. register s (cc_identity c) d)
         (without_plugin (ci_project_id (cc_identity c)) (ci_plugin_id (cc_identity c)) s) (cc_contributions c) = Ok s'"
proof (cases "current_identity s (ci_project_id (cc_identity c)) (ci_plugin_id (cc_identity c))")
  case (Inl err)
  then have "publish s c e = (s, Err err)" by (simp add: publish_def Let_def)
  with assms show thesis by (intro refused) auto
next
  case current: (Inr current)
  let ?next = "fold_res (\<lambda>s d. register s (cc_identity c) d)
    (without_plugin (ci_project_id (cc_identity c)) (ci_plugin_id (cc_identity c)) s) (cc_contributions c)"
  show thesis
  proof (cases "current = e")
    case True
    show thesis
    proof (cases ?next)
      case (Inl err)
      with assms current True show thesis by (intro refused) (auto simp: publish_def Let_def)
    next
      case (Inr t)
      with assms current True show thesis by (intro published) (auto simp: publish_def Let_def)
    qed
  next
    case False
    with assms current show thesis by (intro refused) (auto simp: publish_def Let_def)
  qed
qed

lemma publish_inv:
  assumes "store_inv s" "publish s c e = (s', r)"
  shows "store_inv s'"
  using assms(2)
proof (cases rule: publish_cases)
  case published
  from published(3) show ?thesis
    by (rule fold_res_inv [where P = store_inv])
      (use assms(1) store_inv_register store_inv_retain in \<open>auto simp: without_plugin_def\<close>)
qed (use assms(1) in simp)

lemma publish_consistent:
  assumes "store_inv s" "consistent s" "publish s c e = (s', r)"
  shows "consistent s'"
  using assms(3)
proof (cases rule: publish_cases)
  case published
  let ?i = "cc_identity c"
  let ?base = "without_plugin (ci_project_id ?i) (ci_plugin_id ?i) s"
  have "consistent ?base" unfolding without_plugin_def
    using consistent_retain [OF contribution_store_ok [OF assms(1)] assms(2)] .
  moreover have "only ?i ?base" unfolding only_def without_plugin_Some [OF assms(1)] by blast
  ultimately have "consistent ?base \<and> only ?i ?base" ..
  with published(3) have "consistent s' \<and> only ?i s'"
    by (rule fold_res_inv [where P = "\<lambda>s. consistent s \<and> only ?i s"]) (use consistent_register only_register in blast)
  then show ?thesis ..
qed (use assms(2) in simp)

section \<open>The store as a state machine\<close>

datatype publication_op =
  CPublish contribution_candidate "contribution_instance_identity option"
| CUnpublish contribution_instance_identity
| CRemove capability_id contribution_instance_identity
| CClearProject scope_id
| CClearInstance contribution_instance_identity

fun publication_step :: "contribution_store \<Rightarrow> publication_op \<Rightarrow> contribution_store" where
  "publication_step s (CPublish c e) = fst (publish s c e)"
| "publication_step s (CUnpublish i) = fst (unpublish s i)"
| "publication_step s (CRemove cap i) = fst (remove_contribution s cap i)"
| "publication_step s (CClearProject p) = clear_project s p"
| "publication_step s (CClearInstance i) = clear_instance s i"

datatype contribution_op =
  CRegister contribution_instance_identity contribution
| CPublication publication_op

fun contribution_step :: "contribution_store \<Rightarrow> contribution_op \<Rightarrow> contribution_store" where
  "contribution_step s (CRegister i c) = (case register s i c of Inl _ \<Rightarrow> s | Inr s' \<Rightarrow> s')"
| "contribution_step s (CPublication a) = publication_step s a"

text \<open>Every operation but publication and registration only forgets records.\<close>

lemma unpublish_forgets: "\<exists>p. fst (unpublish s i) = bt_retain p s"
proof (cases "snd (unpublish s i) = Ok ()")
  case True
  then have "fst (unpublish s i) = clear_instance s i" by (auto simp: unpublish_def split: sum.splits if_splits)
  then show ?thesis by (auto simp: clear_instance_def)
next
  case False
  then have "fst (unpublish s i) = bt_retain (\<lambda>_ _. True) s"
    by (auto simp: unpublish_def bt_retain_def split: sum.splits if_splits)
  then show ?thesis by blast
qed

lemma remove_forgets: "\<exists>p. fst (remove_contribution s cap i) = bt_retain p s"
proof (cases "snd (remove_contribution s cap i) = Ok ()")
  case True
  then have "fst (remove_contribution s cap i) = bt_remove (ci_project_id i, cap) s"
    by (auto simp: remove_contribution_def Let_def split: option.splits if_splits)
  then show ?thesis by (auto simp: bt_remove_def)
next
  case False
  then have "fst (remove_contribution s cap i) = bt_retain (\<lambda>_ _. True) s"
    by (auto simp: remove_contribution_def Let_def bt_retain_def split: option.splits if_splits)
  then show ?thesis by blast
qed

lemma publication_step_cases:
  obtains (publication) c e where "a = CPublish c e" "publication_step s a = fst (publish s c e)"
  | (forgets) p where "publication_step s a = bt_retain p s"
proof (cases a)
  case (CUnpublish i)
  with unpublish_forgets [of s i] forgets show thesis by auto
next
  case (CRemove cap i)
  with remove_forgets [of s cap i] forgets show thesis by auto
qed (auto simp: clear_project_def clear_instance_def intro: publication forgets)

lemma publication_step_inv: "store_inv s \<Longrightarrow> store_inv (publication_step s a)"
  by (cases rule: publication_step_cases [of a s]) (metis publish_inv prod.collapse, metis store_inv_retain)

lemma publication_step_consistent: "store_inv s \<Longrightarrow> consistent s \<Longrightarrow> consistent (publication_step s a)"
  by (cases rule: publication_step_cases [of a s])
    (metis publish_consistent prod.collapse, metis consistent_retain contribution_store_ok)

lemma store_inv_new: "store_inv ContributionStore_new" "consistent ContributionStore_new"
  by (simp_all add: store_inv_def consistent_def ContributionStore_new_def project_count_def bt_keys_def bt_empty_def bt_ok_def)

interpretation contributions: step_system ContributionStore_new contribution_step store_inv
proof
  fix s a
  assume "store_inv s"
  then show "store_inv (contribution_step s a)"
    by (cases a) (auto simp: store_inv_register publication_step_inv split: sum.splits)
qed (rule store_inv_new)

interpretation publications: step_system ContributionStore_new publication_step "\<lambda>s. store_inv s \<and> consistent s"
  by standard (simp_all add: store_inv_new publication_step_inv publication_step_consistent)

end
