(* ===== verification/Contribution_Properties.thy ===== *)
theory Contribution_Properties
  imports Contribution_Store
begin

text \<open>
  The guarantees of the contribution store: publication is atomic and compare-and-swap, can be undone
  exactly, and every reachable store keeps its records under their own keys and within the budget.
\<close>

section \<open>The published identity as a compare-and-swap pointer\<close>

definition published_identity :: "scope_id \<Rightarrow> plugin_id \<Rightarrow> contribution_store \<Rightarrow> contribution_instance_identity option" where
  "published_identity project plugin s =
     (case current_identity s project plugin of Inl _ \<Rightarrow> None | Inr j \<Rightarrow> j)"

definition exposed_identity :: "contribution_candidate \<Rightarrow> contribution_instance_identity option" where
  "exposed_identity c = (if cc_contributions c = [] then None else Some (cc_identity c))"

definition publish_at ::
  "scope_id \<Rightarrow> plugin_id \<Rightarrow> contribution_store \<Rightarrow> contribution_instance_identity option \<Rightarrow> contribution_candidate \<Rightarrow>
   contribution_store option" where
  "publish_at project plugin s e c =
     (if ci_project_id (cc_identity c) = project \<and> ci_plugin_id (cc_identity c) = plugin
      then (case publish s c e of (s', Inr _) \<Rightarrow> Some s' | _ \<Rightarrow> None) else None)"

lemma publish_at_Some:
  "publish_at project plugin s e c = Some s' \<longleftrightarrow>
     ci_project_id (cc_identity c) = project \<and> ci_plugin_id (cc_identity c) = plugin \<and>
     (\<exists>old. publish s c e = (s', Ok old))"
  by (auto simp: publish_at_def split: prod.splits sum.splits)

text \<open>The lookup of every key after a successful publication.\<close>

definition after_publication :: "contribution_store \<Rightarrow> contribution_candidate \<Rightarrow> scope_id \<times> capability_id \<Rightarrow> contribution_record option" where
  "after_publication s c k =
     (let i = cc_identity c in
      case find (\<lambda>d. (ci_project_id i, co_capability d) = k) (cc_contributions c) of
        Some d \<Rightarrow> Some (record_for i d)
      | None \<Rightarrow> (case bt_get s k of
            None \<Rightarrow> None
          | Some r \<Rightarrow> if owned (ci_project_id i) (ci_plugin_id i) r then None else Some r))"

lemma without_plugin_get:
  assumes "store_inv s"
  shows "bt_get (without_plugin project plugin s) k =
     (case bt_get s k of None \<Rightarrow> None | Some r \<Rightarrow> if owned project plugin r then None else Some r)"
proof (cases "bt_get s k")
  case (Some r)
  then have "fst k = cn_project_id r" using store_invD [OF assms Some] by simp
  with Some show ?thesis
    by (simp add: without_plugin_def bt_get_retain [OF contribution_store_ok [OF assms]] owned_def case_prod_beta)
qed (simp add: without_plugin_def bt_get_retain [OF contribution_store_ok [OF assms]])

lemma register_all_fresh:
  "fold_res (\<lambda>s c. register s i c) s cs = Ok s' \<Longrightarrow> d \<in> set cs \<Longrightarrow> bt_get s (ci_project_id i, co_capability d) = None"
proof (induction cs arbitrary: s)
  case (Cons c cs)
  then obtain t where t: "register s i c = Ok t" "fold_res (\<lambda>s c. register s i c) t cs = Ok s'"
    by (auto simp: try_res_Ok_iff)
  show ?case
  proof (cases "d = c")
    case True
    with t(1) show ?thesis by (simp add: register_Ok_iff)
  next
    case False
    with Cons t have "bt_get t (ci_project_id i, co_capability d) = None" by simp
    with t(1) show ?thesis by (auto simp: register_Ok_iff split: if_splits)
  qed
qed simp

lemma publish_get:
  assumes "store_inv s" "publish s c e = (s', Ok old)"
  shows "bt_get s' k = after_publication s c k"
  using assms(2)
proof (cases rule: publish_cases)
  case published
  show ?thesis unfolding register_all_get [OF published(3)] after_publication_def Let_def
      without_plugin_get [OF assms(1)] ..
qed simp

lemma publish_exposes:
  assumes "store_inv s" "publish s c e = (s', Ok old)"
  shows "current_identity s' (ci_project_id (cc_identity c)) (ci_plugin_id (cc_identity c)) = Ok (exposed_identity c)"
proof -
  let ?i = "cc_identity c"
  have ok: "bt_ok s'" using contribution_store_ok [OF publish_inv [OF assms]] .
  have own: "identity_of r = ?i \<and> cc_contributions c \<noteq> []"
    if "bt_get s' k = Some r" "owned (ci_project_id ?i) (ci_plugin_id ?i) r" for k r
    using that unfolding publish_get [OF assms] after_publication_def Let_def
    by (auto split: option.splits if_splits)
  show ?thesis
  proof (cases "cc_contributions c")
    case Nil
    then show ?thesis using own by (auto simp: exposed_identity_def current_identity_None [OF ok])
  next
    case (Cons d ds)
    have "bt_get s' (ci_project_id ?i, co_capability d) = Some (record_for ?i d)"
      unfolding publish_get [OF assms] by (simp add: after_publication_def Cons)
    moreover have "owned (ci_project_id ?i) (ci_plugin_id ?i) (record_for ?i d)" by (simp add: owned_def)
    ultimately have "current_identity s' (ci_project_id ?i) (ci_plugin_id ?i) = Ok (Some ?i)"
      unfolding current_identity_Some [OF ok] using own by blast
    then show ?thesis by (simp add: exposed_identity_def Cons)
  qed
qed

interpretation published: cas_cell "published_identity project plugin" exposed_identity "publish_at project plugin"
  "\<lambda>s. store_inv s \<and> consistent s" for project plugin
proof
  fix s s' :: contribution_store and e c
  assume ok: "store_inv s \<and> consistent s" and p: "publish_at project plugin s e c = Some s'"
  from p obtain old where o: "publish s c e = (s', Ok old)"
    and ids: "project = ci_project_id (cc_identity c)" "plugin = ci_plugin_id (cc_identity c)"
    unfolding publish_at_Some by blast
  from o show "published_identity project plugin s = e"
    by (cases rule: publish_cases) (simp_all add: published_identity_def ids)
  show "published_identity project plugin s' = exposed_identity c"
    using publish_exposes [OF _ o] ok by (simp add: published_identity_def ids)
  show "store_inv s' \<and> consistent s'" using publish_inv publish_consistent ok o by blast
qed

section \<open>Properties\<close>

text \<open>C36. Publication is atomic and compare-and-swap. In every store reached by publications and removals it
  either reports an error and leaves the store exactly as it was, or replaces the plugin's whole
  contribution set by the candidate's, leaves every other plugin and project untouched and returns the
  identity the caller expected; the next publication of the plugin must then name the new identity.\<close>

theorem publication_atomic:
  assumes "s = run publication_step ContributionStore_new acts" and "publish s c e = (s', r)"
  shows "(is_ok r \<longrightarrow> r = Ok e \<and>
        current_identity s (ci_project_id (cc_identity c)) (ci_plugin_id (cc_identity c)) = Ok e \<and>
        (\<forall>k. bt_get s' k = after_publication s c k) \<and>
        (\<forall>c' e' s'' r'. ci_project_id (cc_identity c') = ci_project_id (cc_identity c) \<longrightarrow>
           ci_plugin_id (cc_identity c') = ci_plugin_id (cc_identity c) \<longrightarrow>
           publish s' c' e' = (s'', Ok r') \<longrightarrow> e' = exposed_identity c)) \<and>
     (\<not> is_ok r \<longrightarrow> s' = s)"
proof -
  have inv: "store_inv s \<and> consistent s" unfolding assms(1) by (rule publications.inv_run)
  from assms(2) show ?thesis
  proof (cases rule: publish_cases)
    case published
    then have p: "publish s c e = (s', Ok e)" using assms(2) by simp
    then have at: "publish_at (ci_project_id (cc_identity c)) (ci_plugin_id (cc_identity c)) s e c = Some s'"
      by (simp add: publish_at_Some)
    have "e' = exposed_identity c"
      if "ci_project_id (cc_identity c') = ci_project_id (cc_identity c)"
        "ci_plugin_id (cc_identity c') = ci_plugin_id (cc_identity c)" "publish s' c' e' = (s'', Ok r')" for c' e' s'' r'
      using published.chained_expectation [OF inv at, of e' c' s''] that by (auto simp: publish_at_Some)
    with published publish_get [OF _ p] inv show ?thesis by simp
  qed simp
qed

text \<open>C37. Publishing and unpublishing are inverse: a first publication of at least one contribution is undone
  exactly by unpublishing the same identity.\<close>

theorem publish_unpublish_roundtrip:
  assumes "s = run publication_step ContributionStore_new acts"
    and "publish s c None = (s', Ok None)" and "cc_contributions c \<noteq> []"
  shows "unpublish s' (cc_identity c) = (s, Ok ())"
proof -
  let ?i = "cc_identity c"
  have inv: "store_inv s" using publications.inv_run assms(1) by blast
  have inv': "store_inv s'" using publish_inv [OF inv assms(2)] .
  have cur: "current_identity s' (ci_project_id ?i) (ci_plugin_id ?i) = Ok (Some ?i)"
    using publish_exposes [OF inv assms(2)] assms(3) by (simp add: exposed_identity_def)
  have none: "\<not> owned (ci_project_id ?i) (ci_plugin_id ?i) r" if "bt_get s k = Some r" for k r
  proof -
    have "current_identity s (ci_project_id ?i) (ci_plugin_id ?i) = Ok None"
      using assms(2) by (cases rule: publish_cases) simp_all
    with that show ?thesis unfolding current_identity_None [OF contribution_store_ok [OF inv]] by blast
  qed
  have base: "without_plugin (ci_project_id ?i) (ci_plugin_id ?i) s = s"
  proof (rule bt_ext)
    fix k
    show "bt_get (without_plugin (ci_project_id ?i) (ci_plugin_id ?i) s) k = bt_get s k"
      using without_plugin_Some [OF inv] none by (metis not_None_eq)
  qed (use contribution_store_ok [OF inv] in \<open>simp_all add: without_plugin_def\<close>)
  have fresh: "bt_get s k = None" if "find (\<lambda>d. (ci_project_id ?i, co_capability d) = k) (cc_contributions c) = Some d" for k d
  proof -
    from assms(2) have "fold_res (\<lambda>s d. register s ?i d) s (cc_contributions c) = Ok s'"
      by (cases rule: publish_cases) (simp_all add: base)
    moreover have "(ci_project_id ?i, co_capability d) = k" "d \<in> set (cc_contributions c)"
      using that by (auto simp: find_Some_iff)
    ultimately show ?thesis using register_all_fresh [of ?i s "cc_contributions c" s' d] by simp
  qed
  have "clear_instance s' ?i = s"
  proof (rule bt_ext)
    fix k
    have "bt_get (clear_instance s' ?i) k = Some r \<longleftrightarrow> bt_get s k = Some r" for r
      unfolding clear_instance_Some [OF inv'] publish_get [OF inv assms(2)] after_publication_def Let_def
      using none [of k r] fresh [of k] identity_of_eqD [of r ?i] by (auto simp: owned_def split: option.splits if_splits)
    then show "bt_get (clear_instance s' ?i) k = bt_get s k" by (metis not_None_eq)
  qed (use contribution_store_ok [OF inv] contribution_store_ok [OF inv'] in \<open>simp_all add: clear_instance_def\<close>)
  then show ?thesis by (simp add: unpublish_def cur)
qed

text \<open>Projects are isolated and bounded: in every store the operations can reach, each record is stored under
  its own project and capability with valid metadata, listing a project yields exactly the records stored
  for it, and no project has more than 256 contributions.\<close>

theorem contribution_store_bounded:
  assumes "s = run contribution_step ContributionStore_new acts"
  shows "store_inv s \<and> length (list_contributions s project) \<le> MAX_CONTRIBUTIONS_PER_PROJECT \<and>
     (r \<in> set (list_contributions s project) \<longleftrightarrow>
        (\<exists>capability. contribution_get s project capability = Some r))"
proof -
  have inv: "store_inv s" unfolding assms by (rule contributions.inv_run)
  have key: "fst k = cn_project_id q" if "(k, q) \<in> set s" for k q
    using store_invD [OF inv] bt_get_Some_iff [OF contribution_store_ok [OF inv], of k q] that by fastforce
  have "length (list_contributions s project) = length (filter (\<lambda>e. cn_project_id (snd e) = project) s)"
    by (simp add: list_contributions_def bt_values_def filter_map comp_def)
  also have "filter (\<lambda>e. cn_project_id (snd e) = project) s = filter (\<lambda>e. fst (fst e) = project) s"
    using key by (intro filter_cong) auto
  also have "length \<dots> = project_count project s"
    by (simp add: project_count_def bt_keys_def filter_map comp_def case_prod_beta)
  finally have "length (list_contributions s project) \<le> MAX_CONTRIBUTIONS_PER_PROJECT"
    using inv by (simp add: store_inv_def)
  moreover have "r \<in> set (list_contributions s project) \<longleftrightarrow> (\<exists>capability. contribution_get s project capability = Some r)"
    using store_invD [OF inv] bt_values_get [OF contribution_store_ok [OF inv], of r]
    by (auto simp: list_contributions_def contribution_get_def)
  ultimately show ?thesis using inv by blast
qed

section \<open>Witnesses\<close>

definition demo_contribution :: contribution where
  "demo_contribution = \<lparr>co_capability = ''skill.a'', co_kind = Skill, co_contract_major = 1, co_label = ''x'',
     co_purpose = ''x'', co_input_schema = None, co_output_schema = None, co_media_types = [],
     co_skill_path = Some ''p'', co_panel_slot = None\<rparr>"

definition demo_identity :: contribution_instance_identity where
  "demo_identity = ContributionInstanceIdentity_new ''s'' ''a'' ''d'' 1 ''h''"

definition demo_contributions :: contribution_candidate where
  "demo_contributions = \<lparr>cc_identity = demo_identity, cc_contributions = [demo_contribution]\<rparr>"

lemma demo_text: "maximum \<ge> 1 \<Longrightarrow> validate_untrusted_text ''x'' maximum field = Ok ()"
  by (simp add: validate_untrusted_text_def trim_graphic graphic_def contains_bidi_override_def bidi_overrides_def
      utf8_char_def starts_with_def url_markers_def reserved_terms_def ascii_lower_def ascii_uppercase_def)

lemma demo_contribution_valid: "contribution_is_valid demo_contribution"
  by (simp add: contribution_is_valid_def demo_contribution_def validate_shape_def ContributionKind_parse_def
      kind_prefixes_def strip_prefix_def starts_with_def demo_text MAX_CONTRIBUTION_LABEL_BYTES_def
      MAX_CONTRIBUTION_PURPOSE_BYTES_def validate_media_types_def validate_kind_fields_def)

lemma demo_publishes:
  "publish ContributionStore_new demo_contributions None =
     ([((''s'', ''skill.a''), record_for demo_identity demo_contribution)], Ok None)"
proof -
  have "register [] demo_identity demo_contribution = Ok [((''s'', ''skill.a''), record_for demo_identity demo_contribution)]"
    using demo_contribution_valid
    by (simp add: register_Ok_iff project_count_def bt_keys_def MAX_CONTRIBUTIONS_PER_PROJECT_def)
      (simp add: demo_identity_def demo_contribution_def ContributionInstanceIdentity_new_def)
  then show ?thesis
    by (simp add: publish_def ContributionStore_new_def bt_empty_def current_identity_def bt_values_def
        demo_contributions_def without_plugin_def bt_retain_def)
qed

theorem publication_atomic_witness:
  "current_identity ContributionStore_new ''s'' ''a'' = Ok None"
  using publication_atomic [of ContributionStore_new "[]", OF _ demo_publishes]
  by (simp add: demo_contributions_def demo_identity_def ContributionInstanceIdentity_new_def)

theorem publish_unpublish_roundtrip_witness:
  "unpublish [((''s'', ''skill.a''), record_for demo_identity demo_contribution)] demo_identity =
     (ContributionStore_new, Ok ())"
  using publish_unpublish_roundtrip [of ContributionStore_new "[]", OF _ demo_publishes]
  by (simp add: demo_contributions_def)

theorem contribution_store_bounded_witness:
  "length (list_contributions (run contribution_step ContributionStore_new
     [CPublication (CPublish demo_contributions None)]) ''s'') \<le> MAX_CONTRIBUTIONS_PER_PROJECT"
  using contribution_store_bounded [OF refl] by blast

end
