(* ===== verification/Manifest.thy ===== *)
theory Manifest
  imports Contribution Permissions Scope_Model Staging
begin

text \<open>
  Plugin manifests: \<^verbatim>\<open>crates/rho-extension-runtime/src/manifest.rs\<close>. Decoding the bytes
  (\<open>serde_json\<close> with the derived field checks) is the parameter \<open>from_slice\<close>, which gives a manifest or
  the text of its error; \<open>semver::VersionReq::parse\<close> is the parameter \<open>req_error\<close>, the text of its error
  if it has one; \<open>display\<close> is the text of an \<open>ExtensionError\<close>. Everything the program itself checks
  is a definition below, with its messages.
\<close>

definition MAX_MANIFEST_BYTES :: nat where "MAX_MANIFEST_BYTES = 262144"
definition MAX_MANIFEST_PROVIDES :: nat where "MAX_MANIFEST_PROVIDES = 64"
definition MAX_MANIFEST_REQUIRES :: nat where "MAX_MANIFEST_REQUIRES = 64"
definition MAX_MANIFEST_OPTIONAL :: nat where "MAX_MANIFEST_OPTIONAL = 64"
definition MAX_MANIFEST_PERMISSIONS :: nat where "MAX_MANIFEST_PERMISSIONS = 64"
definition MAX_PERMISSION_CONSTRAINT_ITEMS :: nat where "MAX_PERMISSION_CONSTRAINT_ITEMS = 64"
definition MAX_PERMISSION_PURPOSE_BYTES :: nat where "MAX_PERMISSION_PURPOSE_BYTES = 1024"
definition MAX_PERMISSION_BYTES :: u64 where "MAX_PERMISSION_BYTES = 1048576"
definition MANIFEST_SCHEMA_VERSION :: u64 where "MANIFEST_SCHEMA_VERSION = 2"
definition MIN_MANIFEST_SCHEMA_VERSION :: u64 where "MIN_MANIFEST_SCHEMA_VERSION = 1"

record runtime_declaration =
  rd_kind :: runtime_kind
  rd_entry :: string
  rd_scope :: scope_kind_id

record manifest_provide =
  mv_capability :: capability_id
  mv_contract_major :: u64
  mv_path :: "string option"

record manifest_require =
  mr_capability :: capability_id
  mr_contract_major :: u64

record ui_declaration =
  ui_commands :: "string list"
  ui_viewers :: "string list"

record 'ver workspace_plugin_manifest =
  wm_schema_version :: u64
  wm_id :: plugin_id
  wm_name :: string
  wm_version :: 'ver
  wm_api_version :: string
  wm_runtime :: runtime_declaration
  wm_activation :: "string list"
  wm_provides :: "manifest_provide list"
  wm_requires :: "manifest_require list"
  wm_optional :: "manifest_require list"
  wm_permissions :: "permission_request list"
  wm_contributions :: "contribution_declaration list"
  wm_ui :: "ui_declaration option"

abbreviation invalid_manifest :: "string \<Rightarrow> (extension_error, 'a) result" where
  "invalid_manifest reason \<equiv> Err (ManifestValidation reason)"

section \<open>Paths, bounds and hosts\<close>

definition validate_component :: "string \<Rightarrow> string \<Rightarrow> (extension_error, unit) result" where
  "validate_component path component =
     (if component = [] \<or> component = ''.'' then invalid_manifest (''path must already be normalized: '' @ path)
      else if component = ''..'' then invalid_manifest (''parent traversal is not allowed: '' @ path)
      else if CHR '':'' \<in> set component then invalid_manifest (''device/colon component is not allowed: '' @ path)
      else Ok ())"

definition validate_path :: "string \<Rightarrow> (extension_error, unit) result" where
  "validate_path path =
     (if path = [] then invalid_manifest ''path must not be empty''
      else if length path > MAX_RELATIVE_PATH_BYTES then invalid_manifest ''path exceeds 1024 bytes''
      else if starts_with ''/'' path \<or> starts_with [CHR 0x5C] path
      then invalid_manifest (''absolute path is not allowed: '' @ path)
      else if CHR 0x5C \<in> set path then invalid_manifest (''alternate path separators are not allowed: '' @ path)
      else for_each (validate_component path) (split_on is_separator path))"

definition validate_relative_paths :: "string list \<Rightarrow> (extension_error, unit) result" where
  "validate_relative_paths paths = for_each validate_path paths"

definition validate_relative_entry :: "string \<Rightarrow> (extension_error, unit) result" where
  "validate_relative_entry entry = validate_relative_paths [entry]"

definition validate_positive_bound :: "u64 option \<Rightarrow> string \<Rightarrow> (extension_error, unit) result" where
  "validate_positive_bound value name =
     (if \<not> (case value of Some v \<Rightarrow> v > 0 \<and> v \<le> MAX_PERMISSION_BYTES | None \<Rightarrow> False)
      then invalid_manifest (name @ '' must be between 1 and 1048576'') else Ok ())"

definition validate_host_pattern :: "string \<Rightarrow> (extension_error, unit) result" where
  "validate_host_pattern host =
     (let domain = (case strip_prefix ''*.'' host of Some d \<Rightarrow> d | None \<Rightarrow> host) in
      if domain = [] \<or> CHR ''.'' \<notin> set domain \<or> starts_with ''.'' domain \<or> ends_with ''.'' domain \<or>
         CHR ''*'' \<in> set domain \<or> CHR '':'' \<in> set domain \<or> CHR ''/'' \<in> set domain \<or>
         \<not> list_all (\<lambda>c. ascii_lowercase c \<or> ascii_digit c \<or> c = CHR ''.'' \<or> c = CHR ''-'') domain
      then invalid_manifest (''invalid network host constraint: '' @ host) else Ok ())"

section \<open>Contract majors\<close>

text \<open>
  \<open>deserialize_contract_major\<close>: an integer or a decimal string, positive. \<open>str::parse::<u64>\<close> accepts an
  optional plus sign and digits whose value fits.
\<close>

fun parse_digits :: "nat \<Rightarrow> string \<Rightarrow> nat option" where
  "parse_digits acc [] = Some acc"
| "parse_digits acc (c # s) =
     (if ascii_digit c \<and> 10 * acc + (byte_of c - 48) < 2 ^ 64
      then parse_digits (10 * acc + (byte_of c - 48)) s else None)"

definition parse_u64 :: "string \<Rightarrow> u64 option" where
  "parse_u64 s =
     (let digits = (case strip_prefix ''+'' s of Some d \<Rightarrow> d | None \<Rightarrow> s) in
      if digits = [] then None else map_option of_nat (parse_digits 0 digits))"

fun deserialize_contract_major :: "json \<Rightarrow> u64 option" where
  "deserialize_contract_major (JNumber (PosInt n)) = (if n = 0 then None else Some n)"
| "deserialize_contract_major (JNumber (NegInt n)) = (if sint n \<le> 0 then None else Some n)"
| "deserialize_contract_major (JString s) =
     (case parse_u64 s of None \<Rightarrow> None | Some n \<Rightarrow> if n = 0 then None else Some n)"
| "deserialize_contract_major _ = None"

section \<open>Permission requests\<close>

definition unsafe_purpose :: "string \<Rightarrow> bool" where
  "unsafe_purpose purpose \<longleftrightarrow>
     trim purpose \<noteq> purpose \<or> purpose = [] \<or> length purpose > MAX_PERMISSION_PURPOSE_BYTES \<or>
     has_control purpose \<or> contains_bidi_override purpose"

definition invalid_shape :: "permission_request \<Rightarrow> string \<Rightarrow> (extension_error, unit) result" where
  "invalid_shape p expected =
     invalid_manifest (''permission '' @ pr_name p @ '' has fields outside its '' @ expected @ '' constraint shape'')"

definition validate_fs_read :: "permission_request \<Rightarrow> (extension_error, unit) result" where
  "validate_fs_read p =
     (if pr_paths p = [] \<or> pr_operations p \<noteq> [] \<or> pr_schemes p \<noteq> [] \<or> pr_hosts p \<noteq> [] \<or> pr_methods p \<noteq> [] \<or>
         pr_max_response_bytes p \<noteq> None
      then invalid_shape p ''project filesystem''
      else try_res (validate_relative_paths (pr_paths p)) (\<lambda>_. validate_positive_bound (pr_max_bytes p) ''maxBytes''))"

definition validate_r_inspect :: "permission_request \<Rightarrow> (extension_error, unit) result" where
  "validate_r_inspect p =
     (if pr_operations p = [] \<or> pr_paths p \<noteq> [] \<or> pr_schemes p \<noteq> [] \<or> pr_hosts p \<noteq> [] \<or> pr_methods p \<noteq> [] \<or>
         pr_max_response_bytes p \<noteq> None
      then invalid_shape p ''Workspace R inspection''
      else if list_ex (\<lambda>operation. operation \<notin> {''metadata'', ''preview''}) (pr_operations p)
      then invalid_manifest ''workspace.r.inspect permits only metadata or preview''
      else validate_positive_bound (pr_max_bytes p) ''maxBytes'')"

definition validate_fetch :: "permission_request \<Rightarrow> (extension_error, unit) result" where
  "validate_fetch p =
     (if pr_schemes p = [] \<or> pr_hosts p = [] \<or> pr_methods p = [] \<or> pr_paths p \<noteq> [] \<or> pr_operations p \<noteq> [] \<or>
         pr_max_bytes p \<noteq> None
      then invalid_shape p ''network fetch''
      else if list_ex (\<lambda>scheme. scheme \<noteq> ''https'') (pr_schemes p)
      then invalid_manifest ''network.fetch permits only https''
      else
        try_res (for_each validate_host_pattern (pr_hosts p)) (\<lambda>_.
          if list_ex (\<lambda>meth. meth \<notin> {''GET'', ''HEAD''}) (pr_methods p)
          then invalid_manifest ''network.fetch permits only GET or HEAD''
          else validate_positive_bound (pr_max_response_bytes p) ''maxResponseBytes''))"

definition validate_permission_request :: "permission_request \<Rightarrow> (extension_error, unit) result" where
  "validate_permission_request p =
     (if (case pr_purpose p of None \<Rightarrow> False | Some purpose \<Rightarrow> unsafe_purpose purpose)
      then invalid_manifest ''permission purpose is empty, oversized, or contains unsafe controls''
      else
        try_res (for_each (\<lambda>(label, values).
            if length values > MAX_PERMISSION_CONSTRAINT_ITEMS
            then invalid_manifest (''permission '' @ label @ '' exceed 64 entries'') else Ok ())
          [(''paths'', pr_paths p), (''operations'', pr_operations p), (''schemes'', pr_schemes p),
           (''hosts'', pr_hosts p), (''methods'', pr_methods p)]) (\<lambda>_.
        if pr_name p = ''project.fs.read'' then validate_fs_read p
        else if pr_name p = ''workspace.r.inspect'' then validate_r_inspect p
        else if pr_name p = ''network.fetch'' then validate_fetch p
        else invalid_manifest (''unsupported permission request: '' @ pr_name p)))"

section \<open>The manifest\<close>

text \<open>The loops that also grow a set of the names seen.\<close>

fun validate_permissions :: "string set \<Rightarrow> permission_request list \<Rightarrow> (extension_error, unit) result" where
  "validate_permissions seen [] = Ok ()"
| "validate_permissions seen (p # ps) =
     (if pr_name p \<in> seen then invalid_manifest (''duplicate permission request: '' @ pr_name p)
      else try_res (validate_permission_request p) (\<lambda>_. validate_permissions (insert (pr_name p) seen) ps))"

fun validate_activation ::
  "(extension_error \<Rightarrow> string) \<Rightarrow> string set \<Rightarrow> string list \<Rightarrow> (extension_error, unit) result" where
  "validate_activation display seen [] = Ok ()"
| "validate_activation display seen (event # events) =
     (case strip_prefix ''onCapability:'' event of
        None \<Rightarrow> invalid_manifest (''unsupported activation event: '' @ event)
      | Some capability \<Rightarrow>
          try_res (map_err (\<lambda>e. ManifestValidation (''invalid activation capability: '' @ display e))
              (validated_id_new KCapability capability)) (\<lambda>_.
          if event \<in> seen then invalid_manifest (''duplicate activation event: '' @ event)
          else validate_activation display (insert event seen) events))"

fun validate_provides :: "capability_id set \<Rightarrow> manifest_provide list \<Rightarrow> (extension_error, unit) result" where
  "validate_provides seen [] = Ok ()"
| "validate_provides seen (p # ps) =
     (if mv_contract_major p = 0
      then invalid_manifest (''capability '' @ mv_capability p @ '' declares contract major 0'')
      else if mv_capability p \<in> seen then invalid_manifest (''duplicate provided capability: '' @ mv_capability p)
      else validate_provides (insert (mv_capability p) seen) ps)"

fun validate_contributions ::
  "manifest_provide list \<Rightarrow> capability_id set \<Rightarrow> contribution_declaration list \<Rightarrow> (extension_error, unit) result" where
  "validate_contributions provides seen [] = Ok ()"
| "validate_contributions provides seen (c # cs) =
     (if dn_id c \<in> seen then invalid_manifest (''duplicate contribution: '' @ dn_id c)
      else
        try_res (map_err (\<lambda>e. ManifestValidation (''invalid contribution '' @ dn_id c @ '': '' @ shape_reason e))
            (validate_shape c)) (\<lambda>_.
        let matching = filter (\<lambda>p. mv_capability p = dn_id c) provides in
        if length matching \<noteq> 1 \<or> mv_contract_major (matching ! 0) \<noteq> dn_contract_major c
        then invalid_manifest (''contribution '' @ dn_id c @ '' must match exactly one provides entry and contract major'')
        else validate_contributions provides (insert (dn_id c) seen) cs))"

definition validate_limits :: "'ver workspace_plugin_manifest \<Rightarrow> (extension_error, unit) result" where
  "validate_limits m =
     (if length (wm_provides m) > MAX_MANIFEST_PROVIDES
      then Err (LimitExceeded ProvidesPerPlugin (Some (wm_id m)) (length (wm_provides m)) MAX_MANIFEST_PROVIDES)
      else if length (wm_requires m) > MAX_MANIFEST_REQUIRES
      then Err (LimitExceeded RequiredPerPlugin (Some (wm_id m)) (length (wm_requires m)) MAX_MANIFEST_REQUIRES)
      else if length (wm_optional m) > MAX_MANIFEST_OPTIONAL
      then Err (LimitExceeded OptionalPerPlugin (Some (wm_id m)) (length (wm_optional m)) MAX_MANIFEST_OPTIONAL)
      else if length (wm_permissions m) > MAX_MANIFEST_PERMISSIONS
      then invalid_manifest ''permissions exceed 64 entries''
      else if length (wm_contributions m) > MAX_CONTRIBUTIONS_PER_PACKAGE
      then invalid_manifest ''contributions exceed 32 entries''
      else Ok ())"

definition validate_manifest ::
  "(string \<Rightarrow> string option) \<Rightarrow> (extension_error \<Rightarrow> string) \<Rightarrow> 'ver workspace_plugin_manifest \<Rightarrow>
   (extension_error, unit) result" where
  "validate_manifest req_error display m =
     (if \<not> (MIN_MANIFEST_SCHEMA_VERSION \<le> wm_schema_version m \<and> wm_schema_version m \<le> MANIFEST_SCHEMA_VERSION)
      then Err (UnsupportedManifestSchema (wm_schema_version m) MANIFEST_SCHEMA_VERSION)
      else if wm_schema_version m = MIN_MANIFEST_SCHEMA_VERSION \<and> wm_contributions m \<noteq> []
      then invalid_manifest ''Manifest V1 cannot declare live contributions''
      else if wm_name m = [] then invalid_manifest ''name must not be empty''
      else if wm_api_version m = [] then invalid_manifest ''apiVersion must not be empty''
      else if req_error (wm_api_version m) \<noteq> None
      then invalid_manifest (''apiVersion must be a valid semver requirement: '' @ the (req_error (wm_api_version m)))
      else if rd_scope (wm_runtime m) \<noteq> ''project''
      then invalid_manifest (''runtime scope must be project, got '' @ rd_scope (wm_runtime m))
      else
        try_res (validate_relative_entry (rd_entry (wm_runtime m))) (\<lambda>_.
        try_res (validate_relative_paths (List.map_filter mv_path (wm_provides m))) (\<lambda>_.
        try_res (validate_relative_paths (List.map_filter dn_skill_path (wm_contributions m))) (\<lambda>_.
        try_res (validate_limits m) (\<lambda>_.
        try_res (validate_permissions {} (wm_permissions m)) (\<lambda>_.
        try_res (validate_activation display {} (wm_activation m)) (\<lambda>_.
        try_res (validate_provides {} (wm_provides m)) (\<lambda>_.
          validate_contributions (wm_provides m) {} (wm_contributions m)))))))))"

definition parse_manifest ::
  "(string \<Rightarrow> (string, 'ver workspace_plugin_manifest) result) \<Rightarrow> (string \<Rightarrow> string option) \<Rightarrow>
   (extension_error \<Rightarrow> string) \<Rightarrow> string \<Rightarrow> (extension_error, 'ver workspace_plugin_manifest) result" where
  "parse_manifest from_slice req_error display bytes =
     (if length bytes > MAX_MANIFEST_BYTES then Err (ManifestTooLarge (length bytes) MAX_MANIFEST_BYTES)
      else
        try_res (map_err ManifestParse (from_slice bytes)) (\<lambda>manifest.
        try_res (validate_manifest req_error display manifest) (\<lambda>_. Ok manifest)))"

definition to_descriptor :: "'ver workspace_plugin_manifest \<Rightarrow> 'ver plugin_descriptor" where
  "to_descriptor m =
     (PluginDescriptor_new (wm_id m) (wm_version m) [rd_scope (wm_runtime m)])
     \<lparr>pd_provides := map (\<lambda>p. \<lparr>cd_capability_id = mv_capability p, cd_contract_major = mv_contract_major p\<rparr>) (wm_provides m),
      pd_requires := map (\<lambda>r. \<lparr>cr_capability_id = mr_capability r, cr_contract_major = mr_contract_major r\<rparr>) (wm_requires m),
      pd_optional := map (\<lambda>r. \<lparr>cr_capability_id = mr_capability r, cr_contract_major = mr_contract_major r\<rparr>) (wm_optional m)\<rparr>"

end
