(* ===== verification/Manifest_Properties.thy ===== *)
theory Manifest_Properties
  imports Manifest
begin

text \<open>
  A parsed manifest is admissible downstream: the permissions, contributions, paths and descriptor
  taken from it pass the validators of the components that receive them.
\<close>

section \<open>What the manifest's checks give\<close>

lemma split_on_cover: "c \<in> set s \<Longrightarrow> \<not> p c \<Longrightarrow> \<exists>w\<in>set (split_on p s). c \<in> set w"
proof (induction s)
  case (Cons d s)
  obtain w ws where w: "split_on p s = w # ws" using split_on_not_Nil [of p s] by (cases "split_on p s") auto
  show ?case
  proof (cases "c = d")
    case True
    with Cons.prems(2) w show ?thesis by simp
  next
    case False
    with Cons have "\<exists>w\<in>set (split_on p s). c \<in> set w" by simp
    with w show ?thesis by auto
  qed
qed simp

lemma validate_path_Ok:
  assumes "validate_path path = Ok ()"
  shows "valid_relative_path path"
proof -
  have ne: "path \<noteq> []" and abs: "\<not> starts_with ''/'' path" "\<not> starts_with [CHR 0x5C] path"
    and nobs: "CHR 0x5C \<notin> set path"
    and comps: "\<forall>c\<in>set (split_on is_separator path). validate_component path c = Ok ()"
    using assms unfolding validate_path_def by (simp_all split: if_splits)
  have c: "c \<noteq> [] \<and> c \<noteq> ''.'' \<and> c \<noteq> ''..'' \<and> CHR '':'' \<notin> set c" if "c \<in> set (split_on is_separator path)" for c
    using comps that unfolding validate_component_def by (auto split: if_splits)
  have "CHR '':'' \<notin> set path"
    using split_on_cover [of "CHR '':''" path is_separator] c by (auto simp: is_separator_def)
  moreover have "split_on is_slash path = split_on is_separator path"
    using nobs by (intro split_on_cong) (auto simp: is_slash_def is_separator_def)
  ultimately show ?thesis using ne abs nobs c
    by (auto simp: valid_relative_path_def valid_relative_pattern_def list_ex_iff)
qed

lemma validate_path_pattern: "validate_path path = Ok () \<Longrightarrow> valid_relative_pattern path"
  using validate_path_Ok by (simp add: valid_relative_path_def)

lemma validate_host_pattern_Ok: "validate_host_pattern host = Ok () \<Longrightarrow> valid_host_pattern host"
  by (auto simp: validate_host_pattern_def valid_host_pattern_def host_domain_def Let_def list_all_iff host_char_def
      split: if_splits)

lemma positive_bound_Ok: "validate_positive_bound b name = Ok () \<Longrightarrow> positive_bound b"
  by (auto simp: validate_positive_bound_def positive_bound_def split: option.splits if_splits)

lemma validate_permission_request_Ok:
  assumes "validate_permission_request p = Ok ()"
  shows "\<exists>c. constraints_from_manifest p = Ok c"
proof -
  let ?c = "\<lparr>pc_paths = pr_paths p, pc_operations = pr_operations p, pc_schemes = pr_schemes p, pc_hosts = pr_hosts p,
    pc_methods = pr_methods p, pc_max_bytes = pr_max_bytes p, pc_max_response_bytes = pr_max_response_bytes p\<rparr>"
  have fs: "constraints_valid ProjectFsRead ?c" if "validate_fs_read p = Ok ()"
    using that unfolding validate_fs_read_def
    by (auto simp: try_res_Ok_iff validate_relative_paths_def list_all_iff invalid_shape_def
        dest: positive_bound_Ok validate_path_pattern split: if_splits)
  have inspect: "constraints_valid WorkspaceRInspect ?c" if "validate_r_inspect p = Ok ()"
    using that unfolding validate_r_inspect_def invalid_shape_def
    by (auto dest: positive_bound_Ok split: if_splits)
  have fetch: "constraints_valid NetworkFetch ?c" if "validate_fetch p = Ok ()"
    using that unfolding validate_fetch_def invalid_shape_def
    by (auto simp: try_res_Ok_iff list_all_iff list_ex_iff dest: positive_bound_Ok validate_host_pattern_Ok split: if_splits)
  consider "pr_name p = ''project.fs.read''" "validate_fs_read p = Ok ()"
    | "pr_name p = ''workspace.r.inspect''" "validate_r_inspect p = Ok ()"
    | "pr_name p = ''network.fetch''" "validate_fetch p = Ok ()"
    using assms unfolding validate_permission_request_def by (auto simp: try_res_Ok_iff split: if_splits)
  then show ?thesis
    by cases (use fs inspect fetch in \<open>simp_all add: constraints_from_manifest_def PermissionKind_parse_def validate_constraints_def\<close>)
qed

lemma validate_permissions_Ok:
  "validate_permissions seen ps = Ok () \<Longrightarrow> p \<in> set ps \<Longrightarrow> validate_permission_request p = Ok ()"
  by (induction seen ps rule: validate_permissions.induct) (auto simp: try_res_Ok_iff split: if_splits)

lemma validate_provides_Ok:
  "validate_provides seen ps = Ok () \<Longrightarrow> distinct (map mv_capability ps) \<and> set (map mv_capability ps) \<inter> seen = {}"
  by (induction seen ps rule: validate_provides.induct) (auto split: if_splits)

lemma validate_contributions_Ok:
  "validate_contributions provides seen cs = Ok () \<Longrightarrow>
     distinct (map dn_id cs) \<and> set (map dn_id cs) \<inter> seen = {} \<and> (\<forall>c\<in>set cs. validate_shape c = Ok ())"
  by (induction provides seen cs rule: validate_contributions.induct) (auto simp: Let_def try_res_Ok_iff split: if_splits)

lemma stage_declarations_Ok:
  "distinct (map dn_id ds) \<Longrightarrow> set (map dn_id ds) \<inter> seen = {} \<Longrightarrow> \<forall>d\<in>set ds. validate_shape d = Ok () \<Longrightarrow>
     \<exists>cs. stage_declarations seen acc ds = Ok (acc @ cs) \<and> map co_capability cs = map dn_id ds"
proof (induction ds arbitrary: seen acc)
  case (Cons d ds)
  obtain c where c: "from_declaration d = Ok c" "co_capability c = dn_id d"
    using Cons.prems(3) by (simp add: from_declaration_def)
  obtain cs where "stage_declarations (insert (dn_id d) seen) (acc @ [c]) ds = Ok ((acc @ [c]) @ cs)"
    "map co_capability cs = map dn_id ds"
    using Cons.IH [of "insert (dn_id d) seen" "acc @ [c]"] Cons.prems by auto
  with c Cons.prems(2) show ?case by (intro exI [of _ "c # cs"]) simp
qed simp

lemma validate_manifest_OkD:
  assumes "validate_manifest req_error display m = Ok ()"
  shows "rd_scope (wm_runtime m) = ''project''" "validate_path (rd_entry (wm_runtime m)) = Ok ()"
    "validate_limits m = Ok ()" "validate_permissions {} (wm_permissions m) = Ok ()"
    "validate_provides {} (wm_provides m) = Ok ()" "validate_contributions (wm_provides m) {} (wm_contributions m) = Ok ()"
proof -
  have t: "rd_scope (wm_runtime m) = ''project'' \<and>
      try_res (validate_relative_entry (rd_entry (wm_runtime m))) (\<lambda>_.
        try_res (validate_relative_paths (List.map_filter mv_path (wm_provides m))) (\<lambda>_.
        try_res (validate_relative_paths (List.map_filter dn_skill_path (wm_contributions m))) (\<lambda>_.
        try_res (validate_limits m) (\<lambda>_.
        try_res (validate_permissions {} (wm_permissions m)) (\<lambda>_.
        try_res (validate_activation display {} (wm_activation m)) (\<lambda>_.
        try_res (validate_provides {} (wm_provides m)) (\<lambda>_.
          validate_contributions (wm_provides m) {} (wm_contributions m)))))))) = Ok ()"
    using assms unfolding validate_manifest_def by (simp only: split: if_splits) blast+
  then show "rd_scope (wm_runtime m) = ''project''" "validate_path (rd_entry (wm_runtime m)) = Ok ()"
    "validate_limits m = Ok ()" "validate_permissions {} (wm_permissions m) = Ok ()"
    "validate_provides {} (wm_provides m) = Ok ()" "validate_contributions (wm_provides m) {} (wm_contributions m) = Ok ()"
    unfolding try_res_Ok_iff validate_relative_entry_def validate_relative_paths_def for_each_Ok_iff by (auto simp: try_res_Ok_iff)
qed

lemma to_descriptor_ok:
  assumes "validate_limits m = Ok ()" "rd_scope (wm_runtime m) = ''project''" "distinct (map mv_capability (wm_provides m))"
  shows "descriptor_ok (to_descriptor m) ''project'' \<longleftrightarrow> distinct (map mr_capability (wm_requires m @ wm_optional m))"
  using assms unfolding validate_limits_def
  by (simp add: descriptor_ok_def to_descriptor_def PluginDescriptor_new_def comp_def MAX_PROVIDES_PER_PLUGIN_def
      MAX_REQUIRED_PER_PLUGIN_def MAX_OPTIONAL_PER_PLUGIN_def MAX_MANIFEST_PROVIDES_def MAX_MANIFEST_REQUIRES_def
      MAX_MANIFEST_OPTIONAL_def split: if_splits)

section \<open>Properties\<close>

text \<open>C38. A manifest that parses is admissible downstream: each of its permission requests yields valid grant
  constraints, its contributions can be staged as they are, its entry resolves below the package root, and
  its descriptor passes the resolver's validation exactly when no capability is required or optional twice
  (which the manifest's own validation does not check).\<close>

theorem parsed_manifest_admissible:
  assumes "parse_manifest from_slice req_error display bytes = Ok m"
  shows "(\<forall>p\<in>set (wm_permissions m). \<exists>c. constraints_from_manifest p = Ok c) \<and>
     (\<exists>c. stage_candidate identity (wm_contributions m) = Ok c \<and>
        map co_capability (cc_contributions c) = map dn_id (wm_contributions m)) \<and>
     resolve_path dir (rd_entry (wm_runtime m)) = dir @ split_on is_slash (rd_entry (wm_runtime m)) \<and>
     (validate_for_scope (normalize_descriptor (to_descriptor m)) ''project'' = Ok () \<longleftrightarrow>
        distinct (map mr_capability (wm_requires m @ wm_optional m)))"
proof -
  have "validate_manifest req_error display m = Ok ()"
    using assms by (auto simp: parse_manifest_def try_res_Ok_iff split: if_splits)
  note v = validate_manifest_OkD [OF this]
  have "\<exists>c. constraints_from_manifest p = Ok c" if "p \<in> set (wm_permissions m)" for p
    using validate_permission_request_Ok validate_permissions_Ok [OF v(4) that] by blast
  moreover have "\<exists>c. stage_candidate identity (wm_contributions m) = Ok c \<and>
      map co_capability (cc_contributions c) = map dn_id (wm_contributions m)"
  proof -
    have "length (wm_contributions m) \<le> MAX_CONTRIBUTIONS_PER_PACKAGE"
      using v(3) by (simp add: validate_limits_def split: if_splits)
    then show ?thesis
      using stage_declarations_Ok [of "wm_contributions m" "{}" "[]"] validate_contributions_Ok [OF v(6)]
      by (auto simp: stage_candidate_def)
  qed
  moreover have "resolve_path dir (rd_entry (wm_runtime m)) = dir @ split_on is_slash (rd_entry (wm_runtime m))"
    by (rule resolve_path_valid [OF validate_path_Ok [OF v(2)]])
  moreover have "validate_for_scope (normalize_descriptor (to_descriptor m)) ''project'' = Ok () \<longleftrightarrow>
      distinct (map mr_capability (wm_requires m @ wm_optional m))"
    unfolding validate_for_scope_Ok by (rule to_descriptor_ok) (use v validate_provides_Ok in auto)
  ultimately show ?thesis by blast
qed

definition demo_manifest :: "nat workspace_plugin_manifest" where
  "demo_manifest = \<lparr>wm_schema_version = 2, wm_id = ''a'', wm_name = ''A'', wm_version = 1, wm_api_version = ''^1'',
     wm_runtime = \<lparr>rd_kind = Wasm, rd_entry = ''a.wasm'', rd_scope = ''project''\<rparr>, wm_activation = [],
     wm_provides = [],
     wm_requires = [\<lparr>mr_capability = ''c'', mr_contract_major = 1\<rparr>, \<lparr>mr_capability = ''c'', mr_contract_major = 2\<rparr>],
     wm_optional = [],
     wm_permissions = [\<lparr>pr_name = ''workspace.r.inspect'', pr_purpose = None, pr_paths = [], pr_operations = [''preview''],
       pr_schemes = [], pr_hosts = [], pr_methods = [], pr_max_bytes = Some 10, pr_max_response_bytes = None\<rparr>],
     wm_contributions = [], wm_ui = None\<rparr>"

lemma demo_manifest_parses:
  "parse_manifest (\<lambda>_. Ok demo_manifest) (\<lambda>_. None) (\<lambda>_. []) [] = Ok demo_manifest"
proof -
  have "validate_manifest (\<lambda>_. None) (\<lambda>_. []) demo_manifest = Ok ()"
    by (simp add: validate_manifest_def demo_manifest_def MIN_MANIFEST_SCHEMA_VERSION_def MANIFEST_SCHEMA_VERSION_def
        validate_relative_entry_def validate_relative_paths_def validate_path_def validate_component_def is_separator_def
        MAX_RELATIVE_PATH_BYTES_def List.map_filter_def validate_limits_def validate_permission_request_def
        MAX_MANIFEST_PROVIDES_def MAX_MANIFEST_REQUIRES_def MAX_MANIFEST_OPTIONAL_def MAX_MANIFEST_PERMISSIONS_def
        MAX_PERMISSION_CONSTRAINT_ITEMS_def validate_r_inspect_def validate_positive_bound_def MAX_PERMISSION_BYTES_def)
  then show ?thesis by (simp add: parse_manifest_def)
qed

text \<open>The manifest requires one capability twice: it parses, and its descriptor is refused.\<close>

theorem parsed_manifest_admissible_witness:
  "validate_for_scope (normalize_descriptor (to_descriptor demo_manifest)) ''project'' \<noteq> Ok ()"
  using parsed_manifest_admissible [OF demo_manifest_parses] by (simp add: demo_manifest_def)

end
