(* ===== verification/Host_Protocol.thy ===== *)
theory Host_Protocol
  imports Identifiers
begin

text \<open>
  The typed host protocol: \<^verbatim>\<open>crates/rho-extension-runtime/src/host.rs\<close>. Messages, the state
  machine of the synthetic echo host, and the heartbeat supervisor. Random identifiers are
  arguments (\<open>HostInstanceId::generate\<close> is the \<open>uuid\<close> crate), the JSON codec of frames is the pair of
  parameters \<open>from_slice\<close> and \<open>to_vec\<close>, and an \<open>Instant\<close> is its distance in nanoseconds from an
  arbitrary origin.
\<close>

definition HOST_PROTOCOL_VERSION :: u64 where "HOST_PROTOCOL_VERSION = 1"
definition MAX_HOST_FRAME_BYTES :: nat where "MAX_HOST_FRAME_BYTES = 65536"
definition MAX_ECHO_PAYLOAD_BYTES :: nat where "MAX_ECHO_PAYLOAD_BYTES = 16384"

type_synonym host_request_id = string

text \<open>\<open>validate_opaque_id\<close>, behind \<open>HostInstanceId::new\<close> and \<open>HostRequestId::new\<close>.\<close>

definition validate_opaque_id :: "string \<Rightarrow> string \<Rightarrow> (extension_error, string) result" where
  "validate_opaque_id value name =
     (if value = [] \<or> length value > MAX_IDENTIFIER_BYTES
      then Err (ManifestValidation (name @ '' must contain 1..=128 bytes''))
      else if \<not> list_all id_char value
      then Err (ManifestValidation (name @ '' contains invalid characters''))
      else Ok value)"

definition HostInstanceId_new :: "string \<Rightarrow> (extension_error, string) result" where
  "HostInstanceId_new value = validate_opaque_id value ''host instance id''"

definition HostRequestId_new :: "string \<Rightarrow> (extension_error, host_request_id) result" where
  "HostRequestId_new value = validate_opaque_id value ''host request id''"

datatype host_message =
  Hello u64 | Activate | Echo host_request_id string | Heartbeat | Quiesce | Dispose
| Cancel host_request_id

datatype host_protocol_error_code =
  MalformedFrame | UnknownInstance | VersionMismatch | PayloadTooLarge | InvalidStateTransition | Timeout
| UnknownRequest | ModuleTooLarge | InvalidModule | ForbiddenImport | MissingExport | InvalidExport
| ResourceLimit | FuelExhausted | GuestTrap | InvalidGuestOutput | InvalidBrokerStep
| BrokerSequenceViolation | BrokerStepLimit | BrokerResultLimit | GuestRejected | Cancelled

record host_protocol_error =
  he_code :: host_protocol_error_code
  he_message :: "string option"

datatype host_response =
  RReady u64 | RActivated | REchoResult host_request_id string | RHeartbeatAck | RQuiesced | RDisposed
| RError host_protocol_error

datatype host_instance_state =
  HCreated | HReady | HActive | HQuiescing | HDisposing | HDisposed | HQuarantined

record host_frame =
  hf_instance_id :: string
  hf_message :: host_message

definition decode_frame ::
  "(string \<Rightarrow> (string, host_frame) result) \<Rightarrow> string \<Rightarrow> (extension_error, host_frame) result" where
  "decode_frame from_slice bytes =
     (if length bytes > MAX_HOST_FRAME_BYTES
      then Err (ManifestValidation ''host frame exceeds 65536 bytes'')
      else map_err ManifestParse (from_slice bytes))"

definition encode_host_frame ::
  "(host_frame \<Rightarrow> (string, string) result) \<Rightarrow> host_frame \<Rightarrow> (extension_error, string) result" where
  "encode_host_frame to_vec frame =
     try_res (map_err ManifestParse (to_vec frame)) (\<lambda>encoded.
       if length encoded > MAX_HOST_FRAME_BYTES
       then Err (ManifestValidation ''host frame exceeds 65536 bytes'') else Ok encoded)"

section \<open>The echo host\<close>

record synthetic_echo_host =
  eh_instance_id :: string
  eh_state :: host_instance_state
  eh_negotiated_version :: "u64 option"
  eh_inflight :: "(host_request_id, string) btree"

definition with_instance_id :: "string \<Rightarrow> synthetic_echo_host" where
  "with_instance_id i =
     \<lparr>eh_instance_id = i, eh_state = HCreated, eh_negotiated_version = None, eh_inflight = bt_empty\<rparr>"

fun state_debug :: "host_instance_state \<Rightarrow> string" where
  "state_debug HCreated = ''Created''"
| "state_debug HReady = ''Ready''"
| "state_debug HActive = ''Active''"
| "state_debug HQuiescing = ''Quiescing''"
| "state_debug HDisposing = ''Disposing''"
| "state_debug HDisposed = ''Disposed''"
| "state_debug HQuarantined = ''Quarantined''"

definition invalid_state :: "host_instance_state \<Rightarrow> host_protocol_error" where
  "invalid_state s = \<lparr>he_code = InvalidStateTransition, he_message = Some (''invalid transition from '' @ state_debug s)\<rparr>"

definition host_error :: "host_protocol_error_code \<Rightarrow> host_protocol_error" where
  "host_error code = \<lparr>he_code = code, he_message = None\<rparr>"

fun handle_message ::
  "synthetic_echo_host \<Rightarrow> host_message \<Rightarrow> synthetic_echo_host \<times> (host_protocol_error, host_response option) result" where
  "handle_message h (Hello api_version) =
     (if eh_state h \<noteq> HCreated then (h, Err (invalid_state (eh_state h)))
      else if api_version \<noteq> HOST_PROTOCOL_VERSION then (h, Err (host_error VersionMismatch))
      else (h\<lparr>eh_negotiated_version := Some api_version, eh_state := HReady\<rparr>, Ok (Some (RReady api_version))))"
| "handle_message h Activate =
     (if eh_state h \<noteq> HReady then (h, Err (invalid_state (eh_state h)))
      else (h\<lparr>eh_state := HActive\<rparr>, Ok (Some RActivated)))"
| "handle_message h (Echo request_id payload) =
     (if eh_state h \<noteq> HActive then (h, Err (invalid_state (eh_state h)))
      else if length payload > MAX_ECHO_PAYLOAD_BYTES then (h, Err (host_error PayloadTooLarge))
      else if bt_contains_key (eh_inflight h) request_id then (h, Err (host_error UnknownRequest))
      else (h\<lparr>eh_inflight := bt_remove request_id (bt_insert request_id payload (eh_inflight h))\<rparr>,
            Ok (Some (REchoResult request_id payload))))"
| "handle_message h (Cancel request_id) =
     (if eh_state h \<noteq> HActive \<and> eh_state h \<noteq> HQuiescing then (h, Err (invalid_state (eh_state h)))
      else if bt_get (eh_inflight h) request_id = None
      then (h\<lparr>eh_inflight := bt_remove request_id (eh_inflight h)\<rparr>, Err (host_error UnknownRequest))
      else (h\<lparr>eh_inflight := bt_remove request_id (eh_inflight h)\<rparr>, Ok None))"
| "handle_message h Heartbeat =
     (if eh_state h = HDisposed \<or> eh_state h = HQuarantined then (h, Err (invalid_state (eh_state h)))
      else (h, Ok (Some RHeartbeatAck)))"
| "handle_message h Quiesce =
     (if eh_state h \<noteq> HActive \<and> eh_state h \<noteq> HReady then (h, Err (invalid_state (eh_state h)))
      else (h\<lparr>eh_state := HQuiescing\<rparr>, Ok (Some RQuiesced)))"
| "handle_message h Dispose =
     (if eh_state h \<notin> {HReady, HActive, HQuiescing} then (h, Err (invalid_state (eh_state h)))
      else (h\<lparr>eh_inflight := bt_empty, eh_state := HDisposed\<rparr>, Ok (Some RDisposed)))"

definition handle_frame ::
  "synthetic_echo_host \<Rightarrow> host_frame \<Rightarrow> synthetic_echo_host \<times> (host_protocol_error, host_response option) result" where
  "handle_frame h frame =
     (if hf_instance_id frame \<noteq> eh_instance_id h then (h, Err (host_error UnknownInstance))
      else handle_message h (hf_message frame))"

definition quarantine :: "synthetic_echo_host \<Rightarrow> synthetic_echo_host" where
  "quarantine h = h\<lparr>eh_inflight := bt_empty, eh_state := HQuarantined\<rparr>"

section \<open>The heartbeat supervisor\<close>

record heartbeat_supervisor =
  hs_last_ack :: nat
  hs_interval :: nat
  hs_timeout :: nat
  hs_quarantined :: bool

definition supervisor_new_at :: "nat \<Rightarrow> nat \<Rightarrow> nat \<Rightarrow> heartbeat_supervisor" where
  "supervisor_new_at interval timeout now =
     \<lparr>hs_last_ack = now, hs_interval = interval, hs_timeout = timeout, hs_quarantined = False\<rparr>"

definition record_ack_at :: "heartbeat_supervisor \<Rightarrow> nat \<Rightarrow> heartbeat_supervisor" where
  "record_ack_at s now = s\<lparr>hs_last_ack := now\<rparr>"

text \<open>\<open>checked_duration_since\<close> is \<open>None\<close> for an earlier instant.\<close>

definition should_quarantine_at :: "heartbeat_supervisor \<Rightarrow> nat \<Rightarrow> bool" where
  "should_quarantine_at s now \<longleftrightarrow>
     \<not> hs_quarantined s \<and> hs_last_ack s \<le> now \<and> now - hs_last_ack s > hs_timeout s"

definition set_quarantined :: "heartbeat_supervisor \<Rightarrow> heartbeat_supervisor" where
  "set_quarantined s = s\<lparr>hs_quarantined := True\<rparr>"

section \<open>The protocol as a step relation\<close>

text \<open>The moves a session can make: a frame that is answered, or a quarantine by the supervisor.\<close>

inductive host_move :: "synthetic_echo_host \<Rightarrow> host_response option \<Rightarrow> synthetic_echo_host \<Rightarrow> bool" where
  answered: "handle_frame h frame = (h', Ok r) \<Longrightarrow> host_move h r h'"
| quarantined: "host_move h None (quarantine h)"

inductive host_reachable :: "string \<Rightarrow> synthetic_echo_host \<Rightarrow> bool" for i where
  reach_new: "host_reachable i (with_instance_id i)"
| reach_move: "host_reachable i h \<Longrightarrow> host_move h r h' \<Longrightarrow> host_reachable i h'"

inductive_cases host_moveE: "host_move h r h'"

definition host_inv :: "string \<Rightarrow> synthetic_echo_host \<Rightarrow> bool" where
  "host_inv i h \<longleftrightarrow> eh_instance_id h = i \<and> eh_inflight h = bt_empty \<and> eh_state h \<noteq> HDisposing \<and>
     (eh_state h = HCreated \<longrightarrow> eh_negotiated_version h = None) \<and>
     (eh_state h \<in> {HReady, HActive, HQuiescing, HDisposed} \<longrightarrow> eh_negotiated_version h = Some HOST_PROTOCOL_VERSION)"

lemma message_cases:
  assumes "handle_message h m = (h', r)"
  obtains (refused) e where "r = Err e" "h' = h \<or> (\<exists>k. h' = h\<lparr>eh_inflight := bt_remove k (eh_inflight h)\<rparr>)"
  | (hello) "m = Hello HOST_PROTOCOL_VERSION" "eh_state h = HCreated" "r = Ok (Some (RReady HOST_PROTOCOL_VERSION))"
      "h' = h\<lparr>eh_negotiated_version := Some HOST_PROTOCOL_VERSION, eh_state := HReady\<rparr>"
  | (activate) "m = Activate" "eh_state h = HReady" "r = Ok (Some RActivated)" "h' = h\<lparr>eh_state := HActive\<rparr>"
  | (echo) k p where "m = Echo k p" "eh_state h = HActive" "length p \<le> MAX_ECHO_PAYLOAD_BYTES"
      "r = Ok (Some (REchoResult k p))" "h' = h\<lparr>eh_inflight := bt_remove k (bt_insert k p (eh_inflight h))\<rparr>"
  | (cancel) k where "m = Cancel k" "bt_get (eh_inflight h) k \<noteq> None" "r = Ok None"
      "h' = h\<lparr>eh_inflight := bt_remove k (eh_inflight h)\<rparr>"
  | (heartbeat) "m = Heartbeat" "eh_state h \<notin> {HDisposed, HQuarantined}" "r = Ok (Some RHeartbeatAck)" "h' = h"
  | (quiesce) "m = Quiesce" "eh_state h \<in> {HReady, HActive}" "r = Ok (Some RQuiesced)" "h' = h\<lparr>eh_state := HQuiescing\<rparr>"
  | (dispose) "m = Dispose" "eh_state h \<in> {HReady, HActive, HQuiescing}" "r = Ok (Some RDisposed)"
      "h' = h\<lparr>eh_inflight := bt_empty, eh_state := HDisposed\<rparr>"
proof (cases m)
  case (Hello v)
  with assms show thesis using refused hello by (auto split: if_splits)
next
  case Activate
  with assms show thesis using refused activate by (auto split: if_splits)
next
  case (Echo k p)
  with assms show thesis using refused echo [of k p] by (auto split: if_splits)
next
  case Heartbeat
  show thesis
  proof (cases "eh_state h \<in> {HDisposed, HQuarantined}")
    case True
    with assms Heartbeat have "r = Err (invalid_state (eh_state h))" "h' = h" by auto
    then show thesis by (intro refused) simp_all
  next
    case False
    with assms Heartbeat show thesis by (intro heartbeat) auto
  qed
next
  case Quiesce
  with assms show thesis using refused quiesce by (auto split: if_splits)
next
  case Dispose
  show thesis
  proof (cases "eh_state h \<in> {HReady, HActive, HQuiescing}")
    case True
    with assms Dispose show thesis by (intro dispose) auto
  next
    case False
    with assms Dispose have "r = Err (invalid_state (eh_state h))" "h' = h" by auto
    then show thesis by (intro refused) simp_all
  qed
next
  case (Cancel k)
  show thesis
  proof (cases "eh_state h = HActive \<or> eh_state h = HQuiescing")
    case True
    show thesis
    proof (cases "bt_get (eh_inflight h) k = None")
      case None: True
      with assms Cancel True have "r = Err (host_error UnknownRequest)"
        "h' = h\<lparr>eh_inflight := bt_remove k (eh_inflight h)\<rparr>" by auto
      then show thesis by (intro refused) auto
    next
      case False
      with assms Cancel True show thesis by (intro cancel [of k]) auto
    qed
  next
    case False
    with assms Cancel have "r = Err (invalid_state (eh_state h))" "h' = h" by auto
    then show thesis by (intro refused) simp_all
  qed
qed

lemma echo_leaves_inflight: "bt_remove k (bt_insert k p bt_empty) = bt_empty"
  by (rule bt.ins_del) simp_all

lemma bt_remove_empty: "bt_remove k bt_empty = bt_empty"
  by (simp add: bt_remove_def bt_retain_def bt_empty_def)

lemma host_inv_message:
  assumes "host_inv i h" "handle_message h m = (h', r)"
  shows "host_inv i h'"
  using assms(2) assms(1)
  by (cases rule: message_cases) (auto simp: host_inv_def bt_remove_empty echo_leaves_inflight)

lemma host_inv_move: "host_inv i h \<Longrightarrow> host_move h r h' \<Longrightarrow> host_inv i h'"
proof (erule host_moveE)
  fix frame assume i: "host_inv i h" and "handle_frame h frame = (h', Ok r)"
  then have "handle_message h (hf_message frame) = (h', Ok r)" by (simp add: handle_frame_def split: if_splits)
  with i show "host_inv i h'" by (rule host_inv_message)
next
  assume "host_inv i h" "h' = quarantine h"
  then show "host_inv i h'" by (simp add: host_inv_def quarantine_def)
qed

lemma host_reachable_inv: "host_reachable i h \<Longrightarrow> host_inv i h"
proof (induction rule: host_reachable.induct)
  case reach_new
  show ?case by (simp add: host_inv_def with_instance_id_def)
qed (rule host_inv_move)

text \<open>The states of a session advance along this rank and never go back.\<close>

fun state_rank :: "host_instance_state \<Rightarrow> nat" where
  "state_rank HCreated = 0"
| "state_rank HReady = 1"
| "state_rank HActive = 2"
| "state_rank HQuiescing = 3"
| "state_rank HDisposing = 4"
| "state_rank HDisposed = 5"
| "state_rank HQuarantined = 6"

lemma message_rank:
  assumes "handle_message h m = (h', r)"
  shows "state_rank (eh_state h) \<le> state_rank (eh_state h')"
  using assms by (cases rule: message_cases) auto

section \<open>Properties\<close>

lemma refused_unchanged:
  assumes "host_inv i h" "handle_message h m = (h', Err e)"
  shows "h' = h"
  using assms(2)
proof (cases rule: message_cases)
  case (refused e')
  moreover have "h\<lparr>eh_inflight := bt_remove k (eh_inflight h)\<rparr> = h" for k
    using assms(1) by (simp add: host_inv_def bt_remove_empty)
  ultimately show ?thesis by metis
qed simp_all

lemma terminal_refuses:
  assumes "eh_state h \<in> {HDisposed, HQuarantined}" "handle_message h m = (h', r)" "host_inv i h"
  shows "\<not> is_ok r"
  using assms(2)
  by (cases rule: message_cases) (use assms(1,3) in \<open>auto simp: host_inv_def\<close>)

text \<open>C39. A host session is confined to its protocol: in every reachable session a frame addressed to another
  instance is refused, a refused frame changes nothing, the state never goes back, a disposed or
  quarantined session answers nothing, an echo is only given by an active session that negotiated the
  protocol version and returns exactly the payload it was sent, within its bound; and no request is ever
  left in flight, so every cancellation is refused.\<close>

theorem host_session_confined:
  assumes "host_reachable i h" and "handle_frame h frame = (h', r)"
  shows "(hf_instance_id frame \<noteq> i \<longrightarrow> r = Err (host_error UnknownInstance)) \<and>
     (\<not> is_ok r \<longrightarrow> h' = h) \<and>
     state_rank (eh_state h) \<le> state_rank (eh_state h') \<and>
     (eh_state h \<in> {HDisposed, HQuarantined} \<longrightarrow> \<not> is_ok r) \<and>
     (\<forall>k p. r = Ok (Some (REchoResult k p)) \<longrightarrow>
        hf_message frame = Echo k p \<and> length p \<le> MAX_ECHO_PAYLOAD_BYTES \<and> eh_state h = HActive \<and>
        eh_negotiated_version h = Some HOST_PROTOCOL_VERSION) \<and>
     (\<forall>k. hf_message frame = Cancel k \<longrightarrow> \<not> is_ok r)"
proof (cases "hf_instance_id frame = i")
  case True
  have inv: "host_inv i h" by (rule host_reachable_inv [OF assms(1)])
  then have "eh_instance_id h = i" by (simp add: host_inv_def)
  with True assms(2) have m: "handle_message h (hf_message frame) = (h', r)" by (simp add: handle_frame_def)
  have "h' = h" if "\<not> is_ok r" using that refused_unchanged [OF inv] m by (cases r) auto
  moreover note message_rank [OF m]
  moreover have "\<not> is_ok r" if "eh_state h \<in> {HDisposed, HQuarantined}" using terminal_refuses [OF that m inv] .
  moreover have "hf_message frame = Echo k p \<and> length p \<le> MAX_ECHO_PAYLOAD_BYTES \<and> eh_state h = HActive \<and>
      eh_negotiated_version h = Some HOST_PROTOCOL_VERSION" if "r = Ok (Some (REchoResult k p))" for k p
    using m by (cases rule: message_cases) (use that inv in \<open>auto simp: host_inv_def\<close>)
  moreover have "\<not> is_ok r" if "hf_message frame = Cancel k" for k
    using m by (cases rule: message_cases) (use that inv in \<open>auto simp: host_inv_def\<close>)
  ultimately show ?thesis using True by blast
next
  case False
  have "host_inv i h" by (rule host_reachable_inv [OF assms(1)])
  with False assms(2) have "h' = h" "r = Err (host_error UnknownInstance)"
    by (auto simp: handle_frame_def host_inv_def)
  then show ?thesis by simp
qed

theorem host_session_confined_witness:
  "snd (handle_frame (with_instance_id ''instance.1'') \<lparr>hf_instance_id = ''instance.2'', hf_message = Activate\<rparr>) =
     Err (host_error UnknownInstance)"
proof -
  let ?f = "\<lparr>hf_instance_id = ''instance.2'', hf_message = Activate\<rparr>"
  obtain h' r where f: "handle_frame (with_instance_id ''instance.1'') ?f = (h', r)"
    by (cases "handle_frame (with_instance_id ''instance.1'') ?f")
  from host_session_confined [OF reach_new f] f show ?thesis by simp
qed

end
