(* ===== verification/Broker.thy ===== *)
theory Broker
  imports Json Identifiers
begin

text \<open>
  The broker facade's vocabulary: \<^verbatim>\<open>crates/rho-extension-runtime/src/broker.rs\<close>. Bounded payloads,
  requests, responses and error texts; the encoding whose length is bounded is the parameter \<open>encode\<close>.
\<close>

definition DEFAULT_BROKER_PAYLOAD_BYTES :: nat where "DEFAULT_BROKER_PAYLOAD_BYTES = 1048576"
definition WORKSPACE_SNAPSHOT_RESPONSE_BYTES :: nat where "WORKSPACE_SNAPSHOT_RESPONSE_BYTES = 2097152"
definition PROJECT_FILE_VIEWER_HTML_BYTES :: nat where "PROJECT_FILE_VIEWER_HTML_BYTES = 33554432"

datatype broker_response_class = Generic | WorkspaceSnapshot | ProjectFileViewerHtml

fun maximum_bytes :: "broker_response_class \<Rightarrow> nat" where
  "maximum_bytes Generic = DEFAULT_BROKER_PAYLOAD_BYTES"
| "maximum_bytes WorkspaceSnapshot = WORKSPACE_SNAPSHOT_RESPONSE_BYTES"
| "maximum_bytes ProjectFileViewerHtml = PROJECT_FILE_VIEWER_HTML_BYTES"

datatype broker_payload_error = Serialization | TooLarge nat nat

record bounded_json =
  bj_value :: json
  bj_encoded_bytes :: nat

definition BoundedJson_new ::
  "(json \<Rightarrow> string option) \<Rightarrow> json \<Rightarrow> nat \<Rightarrow> (broker_payload_error, bounded_json) result" where
  "BoundedJson_new encode value maximum =
     (case encode value of
        None \<Rightarrow> Err Serialization
      | Some encoded \<Rightarrow>
          if length encoded > maximum then Err (TooLarge (length encoded) maximum)
          else Ok \<lparr>bj_value = value, bj_encoded_bytes = length encoded\<rparr>)"

definition BoundedJson_generic :: "(json \<Rightarrow> string option) \<Rightarrow> json \<Rightarrow> (broker_payload_error, bounded_json) result" where
  "BoundedJson_generic encode value = BoundedJson_new encode value DEFAULT_BROKER_PAYLOAD_BYTES"

record broker_request =
  br_operation_id :: operation_id
  br_payload :: bounded_json
  br_response_class :: broker_response_class

definition BrokerRequest_new ::
  "(json \<Rightarrow> string option) \<Rightarrow> operation_id \<Rightarrow> json \<Rightarrow> broker_response_class \<Rightarrow>
   (broker_payload_error, broker_request) result" where
  "BrokerRequest_new encode operation payload class =
     try_res (BoundedJson_generic encode payload) (\<lambda>p.
       Ok \<lparr>br_operation_id = operation, br_payload = p, br_response_class = class\<rparr>)"

definition maximum_response_bytes :: "broker_request \<Rightarrow> nat" where
  "maximum_response_bytes r = maximum_bytes (br_response_class r)"

definition BrokerResponse_new ::
  "(json \<Rightarrow> string option) \<Rightarrow> json \<Rightarrow> broker_request \<Rightarrow> (broker_payload_error, bounded_json) result" where
  "BrokerResponse_new encode value request = BoundedJson_new encode value (maximum_response_bytes request)"

datatype broker_error =
  BrokerPayload broker_payload_error
| BrokerUnavailable operation_id
| BrokerRejected string string

definition ellipsis :: string where
  "ellipsis = utf8_char 0x2026"

definition bounded_broker_text :: "string \<Rightarrow> string" where
  "bounded_broker_text value =
     (if length value \<le> 512 then value
      else take (floor_boundary value (512 - length ellipsis)) value @ ellipsis)"

definition broker_rejected :: "string \<Rightarrow> string \<Rightarrow> broker_error" where
  "broker_rejected code message = BrokerRejected (bounded_broker_text code) (bounded_broker_text message)"

text \<open>The facade that is installed when there is no broker.\<close>

definition rejecting_call :: "broker_request \<Rightarrow> (broker_error, bounded_json) result" where
  "rejecting_call request = Err (BrokerUnavailable (br_operation_id request))"

section \<open>Bounds\<close>

lemma length_ellipsis: "length ellipsis = 3"
  by (simp add: ellipsis_def utf8_char_def)

lemma BoundedJson_bounded:
  "BoundedJson_new encode value maximum = Ok b \<Longrightarrow> bj_value b = value \<and> bj_encoded_bytes b \<le> maximum"
  by (auto simp: BoundedJson_new_def split: option.splits if_splits)

lemma bounded_broker_text_ok:
  assumes "valid_utf8 v"
  shows "length (bounded_broker_text v) \<le> 512 \<and> valid_utf8 (bounded_broker_text v)"
proof (cases "length v \<le> 512")
  case False
  let ?n = "floor_boundary v (512 - length ellipsis)"
  have n: "?n \<le> 509" using floor_boundary_le [of v 509] by (simp add: length_ellipsis)
  have e: "valid_utf8 ellipsis"
    unfolding valid_utf8_def by (rule exI [of _ "[0x2026]"]) (simp add: ellipsis_def scalar_value_def)
  have "valid_utf8 (take ?n v)"
    using assms floor_boundary_boundary n False by (intro valid_utf8_take) auto
  with e n False show ?thesis
    by (simp add: bounded_broker_text_def length_ellipsis valid_utf8_append)
qed (use assms in \<open>simp add: bounded_broker_text_def\<close>)

end
