(* ===== verification/Observation.thy ===== *)
theory Observation
  imports Evolution
begin

text \<open>
  Opt-in observation: \<^verbatim>\<open>crates/rho-extension-runtime/src/observation.rs\<close>. Traces, patterns, recipes
  and skills of a project, each admitted only over evidence the same project already holds; the
  invariant of every reachable model and the permanence of an exclusion.
\<close>

definition MAX_TRACE_REFERENCES :: nat where "MAX_TRACE_REFERENCES = 64"
definition MAX_PATTERN_FEATURES :: nat where "MAX_PATTERN_FEATURES = 64"
definition MAX_RECIPE_STEPS :: nat where "MAX_RECIPE_STEPS = 64"
definition MAX_OBSERVATION_TEXT_BYTES :: nat where "MAX_OBSERVATION_TEXT_BYTES = 16384"
definition MAX_SKILL_INSTRUCTION_BYTES :: nat where "MAX_SKILL_INSTRUCTION_BYTES = 65536"

section \<open>Records\<close>

datatype outcome_class = OSuccess | OFailure | OCorrected | OUnknown

record redaction_profile =
  rf_retain_structure :: bool
  rf_retain_outcome_labels :: bool
  rf_allow_raw_prompts :: bool
  rf_allow_raw_credentials :: bool
  rf_allow_full_source :: bool

definition redaction_is_valid :: "redaction_profile \<Rightarrow> bool" where
  "redaction_is_valid p \<longleftrightarrow> \<not> rf_allow_raw_prompts p \<and> \<not> rf_allow_raw_credentials p \<and> \<not> rf_allow_full_source p"

record experience_trace_ref =
  et_trace_ref_id :: string
  et_project_id :: scope_id
  et_source_task_id :: "string option"
  et_source_run_id :: "string option"
  et_artifact_ids :: "string list"
  et_normalized_pattern_features :: "string list"
  et_outcome_class :: outcome_class
  et_redaction_profile :: redaction_profile
  et_excluded :: bool
  et_expires_at_millis :: "u64 option"

definition trace_is_valid :: "experience_trace_ref \<Rightarrow> bool" where
  "trace_is_valid t \<longleftrightarrow>
     redaction_is_valid (et_redaction_profile t) \<and> length (et_artifact_ids t) \<le> MAX_TRACE_REFERENCES \<and>
     length (et_normalized_pattern_features t) \<le> MAX_PATTERN_FEATURES \<and>
     list_all (\<lambda>feature. length feature \<le> MAX_OBSERVATION_TEXT_BYTES) (et_normalized_pattern_features t)"

definition trace_is_eligible :: "experience_trace_ref \<Rightarrow> u64 \<Rightarrow> bool" where
  "trace_is_eligible t now \<longleftrightarrow>
     \<not> et_excluded t \<and> (case et_expires_at_millis t of None \<Rightarrow> True | Some expiry \<Rightarrow> now < expiry)"

record pattern_observation =
  po_pattern_id :: string
  po_project_id :: scope_id
  po_trace_ref_ids :: "string list"
  po_explanation :: string

record recipe =
  re_recipe_id :: string
  re_project_id :: scope_id
  re_purpose :: string
  re_input_schema :: string
  re_preconditions :: "string list"
  re_ordered_steps :: "string list"
  re_output_schema :: string
  re_provenance_refs :: "string list"
  re_revision :: u64

definition recipe_is_valid :: "recipe \<Rightarrow> bool" where
  "recipe_is_valid r \<longleftrightarrow>
     re_purpose r \<noteq> [] \<and> re_input_schema r \<noteq> [] \<and> re_ordered_steps r \<noteq> [] \<and> re_output_schema r \<noteq> [] \<and>
     re_provenance_refs r \<noteq> [] \<and> length (re_preconditions r) \<le> MAX_RECIPE_STEPS \<and>
     length (re_ordered_steps r) \<le> MAX_RECIPE_STEPS \<and>
     list_all (\<lambda>text. length text \<le> MAX_OBSERVATION_TEXT_BYTES) [re_purpose r, re_input_schema r, re_output_schema r]"

record skill_suggestion =
  sk_skill_id :: string
  sk_project_id :: scope_id
  sk_recipe_id :: string
  sk_instructions :: string

record observation_model =
  om_traces :: "(scope_id, (string, experience_trace_ref) btree) btree"
  om_patterns :: "pattern_observation list"
  om_recipes :: "recipe list"
  om_skills :: "skill_suggestion list"
  om_enabled :: "scope_id set"

datatype observation_error = ODisabled | OCrossProject | OIneligible | ODuplicate

section \<open>Operations\<close>

definition ObservationModel_new :: observation_model where
  "ObservationModel_new = \<lparr>om_traces = bt_empty, om_patterns = [], om_recipes = [], om_skills = [], om_enabled = {}\<rparr>"

definition observation_enable :: "observation_model \<Rightarrow> scope_id \<Rightarrow> observation_model" where
  "observation_enable m project = m\<lparr>om_enabled := insert project (om_enabled m)\<rparr>"

definition trace_at :: "observation_model \<Rightarrow> scope_id \<Rightarrow> string \<Rightarrow> experience_trace_ref option" where
  "trace_at m project t = Option.bind (bt_get (om_traces m) project) (\<lambda>traces. bt_get traces t)"

definition trace_elsewhere :: "observation_model \<Rightarrow> scope_id \<Rightarrow> string \<Rightarrow> bool" where
  "trace_elsewhere m project t \<longleftrightarrow>
     list_ex (\<lambda>(p, traces). p \<noteq> project \<and> bt_contains_key traces t) (om_traces m)"

definition usable :: "u64 \<Rightarrow> experience_trace_ref option \<Rightarrow> bool" where
  "usable now t = (case t of None \<Rightarrow> False | Some t \<Rightarrow> trace_is_valid t \<and> trace_is_eligible t now)"

definition add_trace ::
  "observation_model \<Rightarrow> experience_trace_ref \<Rightarrow> u64 \<Rightarrow> observation_model \<times> (observation_error, unit) result" where
  "add_trace m trace now =
     (if et_project_id trace \<notin> om_enabled m then (m, Err ODisabled)
      else if \<not> trace_is_valid trace then (m, Err OIneligible)
      else if \<not> trace_is_eligible trace now then (m, Err OIneligible)
      else
        let traces = (case bt_get (om_traces m) (et_project_id trace) of None \<Rightarrow> bt_empty | Some ts \<Rightarrow> ts) in
        if bt_contains_key traces (et_trace_ref_id trace) then (m, Err ODuplicate)
        else (m\<lparr>om_traces := bt_insert (et_project_id trace)
                  (bt_insert (et_trace_ref_id trace) trace traces) (om_traces m)\<rparr>, Ok ()))"

definition pattern_trace ::
  "observation_model \<Rightarrow> scope_id \<Rightarrow> u64 \<Rightarrow> string \<Rightarrow> (observation_error, unit) result" where
  "pattern_trace m project now t =
     (case trace_at m project t of
        Some trace \<Rightarrow> if trace_is_valid trace \<and> trace_is_eligible trace now then Ok () else Err OIneligible
      | None \<Rightarrow> Err (if trace_elsewhere m project t then OCrossProject else OIneligible))"

definition add_pattern ::
  "observation_model \<Rightarrow> pattern_observation \<Rightarrow> u64 \<Rightarrow> observation_model \<times> (observation_error, unit) result" where
  "add_pattern m pattern now =
     (if po_project_id pattern \<notin> om_enabled m then (m, Err ODisabled)
      else if po_trace_ref_ids pattern = [] \<or> length (po_trace_ref_ids pattern) > MAX_TRACE_REFERENCES \<or>
              po_explanation pattern = [] \<or> length (po_explanation pattern) > MAX_OBSERVATION_TEXT_BYTES
      then (m, Err OIneligible)
      else if bt_get (om_traces m) (po_project_id pattern) = None then (m, Err OIneligible)
      else
        case for_each (pattern_trace m (po_project_id pattern) now) (po_trace_ref_ids pattern) of
          Inl e \<Rightarrow> (m, Err e)
        | Inr _ \<Rightarrow>
            if list_ex (\<lambda>existing. po_project_id existing = po_project_id pattern \<and>
                 po_pattern_id existing = po_pattern_id pattern) (om_patterns m)
            then (m, Err ODuplicate)
            else (m\<lparr>om_patterns := om_patterns m @ [pattern]\<rparr>, Ok ()))"

definition provenance_is_eligible :: "observation_model \<Rightarrow> scope_id \<Rightarrow> string list \<Rightarrow> u64 \<Rightarrow> bool" where
  "provenance_is_eligible m project refs now \<longleftrightarrow>
     list_all (\<lambda>reference.
       usable now (trace_at m project reference) \<or>
       list_ex (\<lambda>pattern. po_project_id pattern = project \<and> po_pattern_id pattern = reference \<and>
          bt_get (om_traces m) project \<noteq> None \<and>
          list_all (\<lambda>t. usable now (trace_at m project t)) (po_trace_ref_ids pattern)) (om_patterns m)) refs"

definition add_recipe ::
  "observation_model \<Rightarrow> recipe \<Rightarrow> u64 \<Rightarrow> observation_model \<times> (observation_error, unit) result" where
  "add_recipe m r now =
     (if re_project_id r \<notin> om_enabled m then (m, Err ODisabled)
      else if \<not> recipe_is_valid r then (m, Err OIneligible)
      else if \<not> provenance_is_eligible m (re_project_id r) (re_provenance_refs r) now
      then (m, Err (if list_ex (\<lambda>reference. trace_elsewhere m (re_project_id r) reference \<or>
               list_ex (\<lambda>pattern. po_project_id pattern \<noteq> re_project_id r \<and> po_pattern_id pattern = reference)
                 (om_patterns m)) (re_provenance_refs r)
             then OCrossProject else OIneligible))
      else if list_ex (\<lambda>existing. re_project_id existing = re_project_id r \<and> re_recipe_id existing = re_recipe_id r)
                (om_recipes m)
      then (m, Err ODuplicate)
      else (m\<lparr>om_recipes := om_recipes m @ [r]\<rparr>, Ok ()))"

definition add_skill ::
  "observation_model \<Rightarrow> skill_suggestion \<Rightarrow> u64 \<Rightarrow> observation_model \<times> (observation_error, unit) result" where
  "add_skill m skill now =
     (if sk_project_id skill \<notin> om_enabled m then (m, Err ODisabled)
      else
        case find (\<lambda>r. re_recipe_id r = sk_recipe_id skill \<and> re_project_id r = sk_project_id skill) (om_recipes m) of
          None \<Rightarrow> (m, Err OIneligible)
        | Some r \<Rightarrow>
            if \<not> provenance_is_eligible m (re_project_id r) (re_provenance_refs r) now then (m, Err OIneligible)
            else if sk_instructions skill = [] \<or> length (sk_instructions skill) > MAX_SKILL_INSTRUCTION_BYTES
            then (m, Err OIneligible)
            else if list_ex (\<lambda>existing. sk_project_id existing = sk_project_id skill \<and>
                      sk_skill_id existing = sk_skill_id skill) (om_skills m)
            then (m, Err ODuplicate)
            else (m\<lparr>om_skills := om_skills m @ [skill]\<rparr>, Ok ()))"

definition exclude_trace ::
  "observation_model \<Rightarrow> scope_id \<Rightarrow> string \<Rightarrow> observation_model \<times> (observation_error, unit) result" where
  "exclude_trace m project t =
     (case trace_at m project t of
        None \<Rightarrow> (m, Err (if trace_elsewhere m project t then OCrossProject else OIneligible))
      | Some _ \<Rightarrow>
          (m\<lparr>om_traces := bt_modify project (bt_modify t (\<lambda>trace. trace\<lparr>et_excluded := True\<rparr>)) (om_traces m)\<rparr>, Ok ()))"

definition self_grant_attempt_rejected :: "(string \<Rightarrow> string) \<Rightarrow> evolution_envelopes \<Rightarrow> standing_policy \<Rightarrow> bool" where
  "self_grant_attempt_rejected sha candidate_envelopes policy \<longleftrightarrow>
     validate_candidate_against_policy policy (sy_project_id policy) (sy_lineage_id policy) candidate_envelopes
       (from_inventory sha [(''x'', ''x'')]) (from_inventory sha [(''y'', ''y'')])
     \<in> {RequiresTrustedReview, PolicyRejected}"

section \<open>The invariant\<close>

definition traces_ok :: "observation_model \<Rightarrow> bool" where
  "traces_ok m \<longleftrightarrow> (\<forall>p t tr. trace_at m p t = Some tr \<longrightarrow>
     et_project_id tr = p \<and> et_trace_ref_id tr = t \<and> trace_is_valid tr \<and> p \<in> om_enabled m)"

definition pattern_ok :: "observation_model \<Rightarrow> pattern_observation \<Rightarrow> bool" where
  "pattern_ok m q \<longleftrightarrow> po_trace_ref_ids q \<noteq> [] \<and> length (po_trace_ref_ids q) \<le> MAX_TRACE_REFERENCES \<and>
     (\<forall>t\<in>set (po_trace_ref_ids q). trace_at m (po_project_id q) t \<noteq> None)"

text \<open>A reference a project may rest on: one of its traces, or one of its patterns.\<close>

definition grounded :: "observation_model \<Rightarrow> scope_id \<Rightarrow> string \<Rightarrow> bool" where
  "grounded m project reference \<longleftrightarrow> trace_at m project reference \<noteq> None \<or>
     (\<exists>q\<in>set (om_patterns m). po_project_id q = project \<and> po_pattern_id q = reference)"

definition recipe_ok :: "observation_model \<Rightarrow> recipe \<Rightarrow> bool" where
  "recipe_ok m r \<longleftrightarrow> recipe_is_valid r \<and> (\<forall>reference\<in>set (re_provenance_refs r). grounded m (re_project_id r) reference)"

definition skill_ok :: "observation_model \<Rightarrow> skill_suggestion \<Rightarrow> bool" where
  "skill_ok m s \<longleftrightarrow> sk_instructions s \<noteq> [] \<and> length (sk_instructions s) \<le> MAX_SKILL_INSTRUCTION_BYTES \<and>
     (\<exists>r\<in>set (om_recipes m). re_recipe_id r = sk_recipe_id s \<and> re_project_id r = sk_project_id s)"

definition observation_inv :: "observation_model \<Rightarrow> bool" where
  "observation_inv m \<longleftrightarrow> traces_ok m \<and> (\<forall>q\<in>set (om_patterns m). pattern_ok m q) \<and>
     (\<forall>r\<in>set (om_recipes m). recipe_ok m r) \<and> (\<forall>s\<in>set (om_skills m). skill_ok m s) \<and>
     distinct (map (\<lambda>q. (po_project_id q, po_pattern_id q)) (om_patterns m)) \<and>
     distinct (map (\<lambda>r. (re_project_id r, re_recipe_id r)) (om_recipes m)) \<and>
     distinct (map (\<lambda>s. (sk_project_id s, sk_skill_id s)) (om_skills m))"

datatype observation_op =
  ObsEnable scope_id
| ObsTrace experience_trace_ref u64
| ObsPattern pattern_observation u64
| ObsRecipe recipe u64
| ObsSkill skill_suggestion u64
| ObsExclude scope_id string

fun observation_step :: "observation_model \<Rightarrow> observation_op \<Rightarrow> observation_model" where
  "observation_step m (ObsEnable p) = observation_enable m p"
| "observation_step m (ObsTrace t now) = fst (add_trace m t now)"
| "observation_step m (ObsPattern q now) = fst (add_pattern m q now)"
| "observation_step m (ObsRecipe r now) = fst (add_recipe m r now)"
| "observation_step m (ObsSkill s now) = fst (add_skill m s now)"
| "observation_step m (ObsExclude p t) = fst (exclude_trace m p t)"

end
