(* ===== verification/Observation_Properties.thy ===== *)
theory Observation_Properties
  imports Observation
begin

text \<open>
  Every reachable observation model rests on evidence of its own project, and an exclusion is
  permanent.
\<close>

section \<open>Traces after each operation\<close>

lemma trace_at_enable [simp]: "trace_at (observation_enable m p) = trace_at m"
  by (simp add: trace_at_def observation_enable_def fun_eq_iff)

lemma trace_at_updates [simp]:
  "trace_at (m\<lparr>om_patterns := qs\<rparr>) = trace_at m" "trace_at (m\<lparr>om_recipes := rs\<rparr>) = trace_at m"
  "trace_at (m\<lparr>om_skills := ss\<rparr>) = trace_at m"
  by (simp_all add: trace_at_def fun_eq_iff)

lemma add_trace_cases:
  obtains (kept) e where "add_trace m tr now = (m, Err e)"
  | (added) m' where "add_trace m tr now = (m', Ok ())" "et_project_id tr \<in> om_enabled m" "trace_is_valid tr"
      "trace_is_eligible tr now" "trace_at m (et_project_id tr) (et_trace_ref_id tr) = None"
      "m' = m\<lparr>om_traces := om_traces m'\<rparr>"
      "\<And>p t. trace_at m' p t =
         (if p = et_project_id tr \<and> t = et_trace_ref_id tr then Some tr else trace_at m p t)"
proof -
  let ?ts = "case bt_get (om_traces m) (et_project_id tr) of None \<Rightarrow> bt_empty | Some ts \<Rightarrow> ts"
  let ?m = "m\<lparr>om_traces := bt_insert (et_project_id tr) (bt_insert (et_trace_ref_id tr) tr ?ts) (om_traces m)\<rparr>"
  have get: "bt_get ?ts t = trace_at m (et_project_id tr) t" for t
    by (simp add: trace_at_def split: option.splits)
  have at: "trace_at ?m p t = (if p = et_project_id tr \<and> t = et_trace_ref_id tr then Some tr else trace_at m p t)" for p t
    using get [of t] by (auto simp: trace_at_def)
  show thesis
  proof (cases "et_project_id tr \<in> om_enabled m \<and> trace_is_valid tr \<and> trace_is_eligible tr now \<and>
      trace_at m (et_project_id tr) (et_trace_ref_id tr) = None")
    case True
    then have "add_trace m tr now = (?m, Ok ())"
      by (simp add: add_trace_def Let_def bt_contains_key_def get)
    then show thesis by (rule added) (use True at in auto)
  next
    case False
    then have "\<exists>e. add_trace m tr now = (m, Err e)"
      by (auto simp: add_trace_def Let_def bt_contains_key_def get)
    then show thesis using kept by blast
  qed
qed

lemma exclude_trace_cases:
  obtains (kept) e where "exclude_trace m project t = (m, Err e)"
  | (excluded) tr m' where "exclude_trace m project t = (m', Ok ())" "trace_at m project t = Some tr"
      "m' = m\<lparr>om_traces := om_traces m'\<rparr>"
      "\<And>p s. trace_at m' p s =
         (if p = project \<and> s = t then Some (tr\<lparr>et_excluded := True\<rparr>) else trace_at m p s)"
proof (cases "trace_at m project t")
  case None
  then show thesis by (intro kept) (simp add: exclude_trace_def)
next
  case (Some tr)
  let ?m = "m\<lparr>om_traces := bt_modify project (bt_modify t (\<lambda>trace. trace\<lparr>et_excluded := True\<rparr>)) (om_traces m)\<rparr>"
  have "trace_at ?m p s = (if p = project \<and> s = t then Some (tr\<lparr>et_excluded := True\<rparr>) else trace_at m p s)" for p s
    using Some by (auto simp: trace_at_def bind_eq_Some_conv split: option.splits)
  moreover have "exclude_trace m project t = (?m, Ok ())" by (simp add: exclude_trace_def Some)
  ultimately show thesis using Some by (intro excluded [of ?m tr]) auto
qed

section \<open>Evidence only grows\<close>

definition extends :: "observation_model \<Rightarrow> observation_model \<Rightarrow> bool" where
  "extends m m' \<longleftrightarrow> (\<forall>p t. trace_at m p t \<noteq> None \<longrightarrow> trace_at m' p t \<noteq> None) \<and>
     set (om_patterns m) \<subseteq> set (om_patterns m') \<and> set (om_recipes m) \<subseteq> set (om_recipes m')"

lemma pattern_ok_mono: "extends m m' \<Longrightarrow> pattern_ok m q \<Longrightarrow> pattern_ok m' q"
  unfolding extends_def pattern_ok_def by blast

lemma grounded_mono: "extends m m' \<Longrightarrow> grounded m p r \<Longrightarrow> grounded m' p r"
  unfolding extends_def grounded_def by blast

lemma recipe_ok_mono: "extends m m' \<Longrightarrow> recipe_ok m r \<Longrightarrow> recipe_ok m' r"
  unfolding recipe_ok_def using grounded_mono by blast

lemma skill_ok_mono: "extends m m' \<Longrightarrow> skill_ok m s \<Longrightarrow> skill_ok m' s"
  unfolding extends_def skill_ok_def by blast

lemma observation_inv_extend:
  assumes "observation_inv m" "extends m m'" "traces_ok m'" "om_patterns m' = om_patterns m"
    "om_recipes m' = om_recipes m" "om_skills m' = om_skills m"
  shows "observation_inv m'"
  using assms pattern_ok_mono recipe_ok_mono skill_ok_mono unfolding observation_inv_def by metis

lemma usable_present: "usable now t \<Longrightarrow> \<exists>y. t = Some y"
  by (cases t) (simp_all add: usable_def)

lemma add_pattern_cases:
  obtains (kept) e where "add_pattern m q now = (m, Err e)"
  | (added) "add_pattern m q now = (m\<lparr>om_patterns := om_patterns m @ [q]\<rparr>, Ok ())" "pattern_ok m q"
      "\<forall>t\<in>set (po_trace_ref_ids q). usable now (trace_at m (po_project_id q) t)"
      "(po_project_id q, po_pattern_id q) \<notin> set (map (\<lambda>q. (po_project_id q, po_pattern_id q)) (om_patterns m))"
proof (cases "add_pattern m q now = (m\<lparr>om_patterns := om_patterns m @ [q]\<rparr>, Ok ())")
  case True
  then have f: "for_each (pattern_trace m (po_project_id q) now) (po_trace_ref_ids q) = Ok ()"
    and s: "po_trace_ref_ids q \<noteq> []" "length (po_trace_ref_ids q) \<le> MAX_TRACE_REFERENCES"
    and d: "\<not> list_ex (\<lambda>e. po_project_id e = po_project_id q \<and> po_pattern_id e = po_pattern_id q) (om_patterns m)"
    unfolding add_pattern_def by (auto split: if_splits sum.splits)
  have "usable now (trace_at m (po_project_id q) t)" if "t \<in> set (po_trace_ref_ids q)" for t
    using f that by (auto simp: pattern_trace_def usable_def split: option.splits if_splits)
  moreover from this have "pattern_ok m q" using s usable_present by (auto simp: pattern_ok_def)
  moreover have "(po_project_id q, po_pattern_id q) \<notin> set (map (\<lambda>q. (po_project_id q, po_pattern_id q)) (om_patterns m))"
    using d by (auto simp: list_ex_iff)
  ultimately show thesis using True added by blast
next
  case False
  have "\<exists>e. add_pattern m q now = (m, Err e)"
  proof (cases "for_each (pattern_trace m (po_project_id q) now) (po_trace_ref_ids q)")
    case (Inl e)
    then show ?thesis by (auto simp: add_pattern_def)
  next
    case (Inr u)
    with False show ?thesis by (auto simp: add_pattern_def simp del: for_each_Ok_iff split: if_splits)
  qed
  then show thesis using kept by blast
qed

lemma provenance_grounded:
  "provenance_is_eligible m p refs now \<Longrightarrow> r \<in> set refs \<Longrightarrow> grounded m p r"
  by (fastforce simp: provenance_is_eligible_def grounded_def list_all_iff list_ex_iff usable_def split: option.splits)

lemma add_recipe_cases:
  obtains (kept) e where "add_recipe m r now = (m, Err e)"
  | (added) "add_recipe m r now = (m\<lparr>om_recipes := om_recipes m @ [r]\<rparr>, Ok ())" "recipe_ok m r"
      "(re_project_id r, re_recipe_id r) \<notin> set (map (\<lambda>r. (re_project_id r, re_recipe_id r)) (om_recipes m))"
proof (cases "recipe_is_valid r \<and> re_project_id r \<in> om_enabled m \<and>
    provenance_is_eligible m (re_project_id r) (re_provenance_refs r) now \<and>
    \<not> list_ex (\<lambda>e. re_project_id e = re_project_id r \<and> re_recipe_id e = re_recipe_id r) (om_recipes m)")
  case True
  then have "add_recipe m r now = (m\<lparr>om_recipes := om_recipes m @ [r]\<rparr>, Ok ())" by (simp add: add_recipe_def)
  moreover have "recipe_ok m r" unfolding recipe_ok_def using True provenance_grounded by blast
  moreover have "(re_project_id r, re_recipe_id r) \<notin> set (map (\<lambda>r. (re_project_id r, re_recipe_id r)) (om_recipes m))"
    using True by (auto simp: list_ex_iff)
  ultimately show thesis by (rule added)
next
  case False
  then have "\<exists>e. add_recipe m r now = (m, Err e)" unfolding add_recipe_def by auto
  then show thesis using kept by blast
qed

lemma add_skill_cases:
  obtains (kept) e where "add_skill m s now = (m, Err e)"
  | (added) "add_skill m s now = (m\<lparr>om_skills := om_skills m @ [s]\<rparr>, Ok ())" "skill_ok m s"
      "(sk_project_id s, sk_skill_id s) \<notin> set (map (\<lambda>s. (sk_project_id s, sk_skill_id s)) (om_skills m))"
proof (cases "add_skill m s now = (m\<lparr>om_skills := om_skills m @ [s]\<rparr>, Ok ())")
  case True
  then obtain r where r: "find (\<lambda>r. re_recipe_id r = sk_recipe_id s \<and> re_project_id r = sk_project_id s) (om_recipes m) = Some r"
    and i: "sk_instructions s \<noteq> []" "length (sk_instructions s) \<le> MAX_SKILL_INSTRUCTION_BYTES"
    and d: "\<not> list_ex (\<lambda>e. sk_project_id e = sk_project_id s \<and> sk_skill_id e = sk_skill_id s) (om_skills m)"
    unfolding add_skill_def by (auto split: if_splits option.splits)
  from r have "r \<in> set (om_recipes m) \<and> re_recipe_id r = sk_recipe_id s \<and> re_project_id r = sk_project_id s"
    by (auto simp: find_Some_iff)
  with i have "skill_ok m s" by (auto simp: skill_ok_def)
  moreover have "(sk_project_id s, sk_skill_id s) \<notin> set (map (\<lambda>s. (sk_project_id s, sk_skill_id s)) (om_skills m))"
    using d by (auto simp: list_ex_iff)
  ultimately show thesis using True added by blast
next
  case False
  then have "\<exists>e. add_skill m s now = (m, Err e)" unfolding add_skill_def by (auto split: option.splits if_splits)
  then show thesis using kept by blast
qed

lemma observation_inv_step:
  assumes "observation_inv m"
  shows "observation_inv (observation_step m a)"
proof (cases a)
  case (ObsEnable p)
  have "observation_inv (observation_enable m p)"
  proof (rule observation_inv_extend [OF assms])
    show "traces_ok (observation_enable m p)"
      using assms unfolding observation_inv_def traces_ok_def trace_at_enable by (auto simp: observation_enable_def)
  qed (simp_all add: extends_def, simp_all add: observation_enable_def)
  with ObsEnable show ?thesis by simp
next
  case (ObsTrace tr now)
  show ?thesis
  proof (cases rule: add_trace_cases [of m tr now])
    case (added m')
    have "observation_inv m'"
    proof (rule observation_inv_extend [OF assms])
      show "om_patterns m' = om_patterns m" "om_recipes m' = om_recipes m" "om_skills m' = om_skills m"
        by (subst added(6), simp)+
      then show "extends m m'" using added(7) by (auto simp: extends_def)
      have "om_enabled m' = om_enabled m" by (subst added(6)) simp
      then show "traces_ok m'" using assms added(2,3,7) by (auto simp: observation_inv_def traces_ok_def)
    qed
    with added(1) show ?thesis by (simp add: ObsTrace)
  qed (use assms in \<open>simp add: ObsTrace\<close>)
next
  case (ObsPattern q now)
  show ?thesis
  proof (cases rule: add_pattern_cases [of m q now])
    case added
    let ?m = "m\<lparr>om_patterns := om_patterns m @ [q]\<rparr>"
    have e: "extends m ?m" by (auto simp: extends_def)
    have "traces_ok ?m" using assms by (simp add: observation_inv_def traces_ok_def)
    then have "observation_inv ?m"
      using assms added(2,4) pattern_ok_mono [OF e] recipe_ok_mono [OF e] skill_ok_mono [OF e]
      by (simp add: observation_inv_def ball_Un)
    with added(1) show ?thesis by (simp add: ObsPattern)
  qed (use assms in \<open>simp add: ObsPattern\<close>)
next
  case (ObsRecipe r now)
  show ?thesis
  proof (cases rule: add_recipe_cases [of m r now])
    case added
    let ?m = "m\<lparr>om_recipes := om_recipes m @ [r]\<rparr>"
    have e: "extends m ?m" by (auto simp: extends_def)
    have "traces_ok ?m" using assms by (simp add: observation_inv_def traces_ok_def)
    then have "observation_inv ?m"
      using assms added(2,3) pattern_ok_mono [OF e] recipe_ok_mono [OF e] skill_ok_mono [OF e]
      by (simp add: observation_inv_def ball_Un)
    with added(1) show ?thesis by (simp add: ObsRecipe)
  qed (use assms in \<open>simp add: ObsRecipe\<close>)
next
  case (ObsSkill s now)
  show ?thesis
  proof (cases rule: add_skill_cases [of m s now])
    case added
    let ?m = "m\<lparr>om_skills := om_skills m @ [s]\<rparr>"
    have e: "extends m ?m" by (auto simp: extends_def)
    have "traces_ok ?m" using assms by (simp add: observation_inv_def traces_ok_def)
    then have "observation_inv ?m"
      using assms added(2,3) pattern_ok_mono [OF e] recipe_ok_mono [OF e] skill_ok_mono [OF e]
      by (simp add: observation_inv_def ball_Un)
    with added(1) show ?thesis by (simp add: ObsSkill)
  qed (use assms in \<open>simp add: ObsSkill\<close>)
next
  case (ObsExclude p t)
  show ?thesis
  proof (cases rule: exclude_trace_cases [of m p t])
    case (excluded tr m')
    have "observation_inv m'"
    proof (rule observation_inv_extend [OF assms])
      show "om_patterns m' = om_patterns m" "om_recipes m' = om_recipes m" "om_skills m' = om_skills m"
        by (subst excluded(3), simp)+
      then show "extends m m'" using excluded(4) by (auto simp: extends_def)
      have "om_enabled m' = om_enabled m" by (subst excluded(3)) simp
      then show "traces_ok m'" using assms excluded(2,4)
        by (auto simp: observation_inv_def traces_ok_def trace_is_valid_def)
    qed
    with excluded(1) show ?thesis by (simp add: ObsExclude)
  qed (use assms in \<open>simp add: ObsExclude\<close>)
qed

interpretation observation: step_system ObservationModel_new observation_step observation_inv
proof
  show "observation_inv ObservationModel_new"
    by (simp add: observation_inv_def ObservationModel_new_def traces_ok_def trace_at_def)
qed (rule observation_inv_step)

text \<open>An excluded trace stays excluded.\<close>

definition excluded_at :: "scope_id \<Rightarrow> string \<Rightarrow> observation_model \<Rightarrow> bool" where
  "excluded_at p t m \<longleftrightarrow> (\<exists>tr. trace_at m p t = Some tr \<and> et_excluded tr)"

interpretation exclusion: stable_property ObservationModel_new observation_step observation_inv "excluded_at p t" for p t
proof
  fix m a
  assume x: "excluded_at p t m"
  show "excluded_at p t (observation_step m a)"
  proof (cases a)
    case (ObsTrace tr now)
    then show ?thesis using x by (cases rule: add_trace_cases [of m tr now]) (auto simp: excluded_at_def)
  next
    case (ObsPattern q now)
    then show ?thesis using x by (cases rule: add_pattern_cases [of m q now]) (auto simp: excluded_at_def)
  next
    case (ObsRecipe r now)
    then show ?thesis using x by (cases rule: add_recipe_cases [of m r now]) (auto simp: excluded_at_def)
  next
    case (ObsSkill s now)
    then show ?thesis using x by (cases rule: add_skill_cases [of m s now]) (auto simp: excluded_at_def)
  next
    case (ObsExclude q s)
    then show ?thesis using x by (cases rule: exclude_trace_cases [of m q s]) (auto simp: excluded_at_def)
  qed (use x in \<open>simp add: excluded_at_def\<close>)
qed

section \<open>Properties\<close>

text \<open>C40. Observation stays within a project and respects exclusion: every reachable model rests its patterns,
  recipes and skills on evidence of the same project, with valid redaction and unique ids, holds nothing
  for a project that did not opt in, and once a trace is excluded no pattern that names it is ever
  accepted again.\<close>

theorem observation_grounded:
  assumes "m = run observation_step ObservationModel_new acts"
  shows "observation_inv m \<and>
     (\<forall>p t. trace_at m p t \<noteq> None \<longrightarrow> p \<in> om_enabled m) \<and>
     (\<forall>m' project t future q now. exclude_trace m project t = (m', Ok ()) \<longrightarrow> po_project_id q = project \<longrightarrow>
        t \<in> set (po_trace_ref_ids q) \<longrightarrow>
        (\<exists>e. add_pattern (run observation_step m' future) q now = (run observation_step m' future, Err e)))"
proof -
  have inv: "observation_inv m" unfolding assms by (rule observation.inv_run)
  moreover have "p \<in> om_enabled m" if "trace_at m p t \<noteq> None" for p t
    using inv that unfolding observation_inv_def traces_ok_def by blast
  moreover have "\<exists>e. add_pattern (run observation_step m' future) q now = (run observation_step m' future, Err e)"
    if x: "exclude_trace m project t = (m', Ok ())" "po_project_id q = project" "t \<in> set (po_trace_ref_ids q)"
    for m' project t future q now
  proof -
    have "excluded_at project t m'"
      using x(1) by (cases rule: exclude_trace_cases [of m project t]) (auto simp: excluded_at_def)
    moreover have "observation_inv m'" using observation_inv_step [OF inv, of "ObsExclude project t"] x(1) by simp
    ultimately have e: "excluded_at project t (run observation_step m' future)" by (intro exclusion.P_run)
    show ?thesis
    proof (cases rule: add_pattern_cases [of "run observation_step m' future" q now])
      case added
      with x(2,3) have "usable now (trace_at (run observation_step m' future) project t)" by blast
      with e show ?thesis by (auto simp: excluded_at_def usable_def trace_is_eligible_def)
    qed blast
  qed
  ultimately show ?thesis by blast
qed

definition demo_trace :: experience_trace_ref where
  "demo_trace = \<lparr>et_trace_ref_id = ''t'', et_project_id = ''s'', et_source_task_id = None, et_source_run_id = None,
     et_artifact_ids = [], et_normalized_pattern_features = [], et_outcome_class = OSuccess,
     et_redaction_profile = \<lparr>rf_retain_structure = True, rf_retain_outcome_labels = True, rf_allow_raw_prompts = False,
       rf_allow_raw_credentials = False, rf_allow_full_source = False\<rparr>,
     et_excluded = False, et_expires_at_millis = None\<rparr>"

theorem observation_grounded_witness:
  "\<exists>m' e. exclude_trace (run observation_step ObservationModel_new [ObsEnable ''s'', ObsTrace demo_trace 0]) ''s'' ''t'' =
       (m', Ok ()) \<and>
     add_pattern m' \<lparr>po_pattern_id = ''p'', po_project_id = ''s'', po_trace_ref_ids = [''t''], po_explanation = ''x''\<rparr> 7 =
       (m', Err e)"
proof -
  let ?m = "run observation_step ObservationModel_new [ObsEnable ''s'', ObsTrace demo_trace 0]"
  obtain m' where x: "exclude_trace ?m ''s'' ''t'' = (m', Ok ())"
    by (simp add: exclude_trace_def trace_at_def add_trace_def observation_enable_def ObservationModel_new_def demo_trace_def
        trace_is_valid_def redaction_is_valid_def trace_is_eligible_def MAX_TRACE_REFERENCES_def MAX_PATTERN_FEATURES_def
        bt_contains_key_def)
  let ?q = "\<lparr>po_pattern_id = ''p'', po_project_id = ''s'', po_trace_ref_ids = [''t''], po_explanation = ''x''\<rparr>"
  have "\<exists>e. add_pattern (run observation_step m' []) ?q 7 = (run observation_step m' [], Err e)"
    using observation_grounded [OF refl, THEN conjunct2, THEN conjunct2, rule_format, OF x,
        where q = ?q and future = "[]" and now = 7] by simp
  with x show ?thesis by simp
qed

end
