(* ===== verification/Scope_Registry.thy ===== *)
theory Scope_Registry
  imports Broker Resolver
begin

text \<open>
  The first part of \<^verbatim>\<open>crates/rho-extension-runtime/src/lifecycle.rs\<close>: bounded messages, lifecycle
  diagnostics and their sinks, the task tracker, and \<open>RegistryHub\<close> with its four maps of
  contributions, its routing flag and its leases. A \<open>Mutex\<close> guarded map is a field of the record; an
  operation that takes the lock is one atomic update. Handlers (\<open>dyn SourceHandler\<close>,
  \<open>dyn WorkspaceToolHandler\<close>) are values of a type \<open>'h\<close> that the parameter \<open>call\<close> runs. The atomic
  instructions of \<open>lease\<close> are interleaved in the theory \<open>Lease_Protocol\<close>.
\<close>

section \<open>Messages and diagnostics\<close>

definition MAX_RUNTIME_MESSAGE_BYTES :: nat where "MAX_RUNTIME_MESSAGE_BYTES = 512"

definition bounded_message :: "string \<Rightarrow> string" where
  "bounded_message value =
     (if length value \<le> MAX_RUNTIME_MESSAGE_BYTES then value
      else take (floor_boundary value (MAX_RUNTIME_MESSAGE_BYTES - length ellipsis)) value @ ellipsis)"

datatype runtime_mode = Legacy | Candidate

text \<open>\<open>InternalExtensionRuntimeMode::parse\<close>: the mode and the diagnostics it emits.\<close>

definition parse_runtime_mode :: "string option \<Rightarrow> runtime_mode \<times> extension_diagnostic list" where
  "parse_runtime_mode value =
     (case value of
        None \<Rightarrow> (Candidate, [])
      | Some v \<Rightarrow>
          if v = ''candidate'' then (Candidate, [])
          else if v = ''legacy'' then (Legacy, [])
          else (Legacy, [blank_diagnostic DInvalidRuntimeMode SevWarning
                  (bounded_message (''invalid RHO_INTERNAL_EXTENSION_RUNTIME value; using legacy ('' @
                     show_nat (length v) @ '' bytes)''))]))"

record plugin_instance_identity =
  pii_plugin_id :: plugin_id
  pii_scope :: scope_identity

definition scoped_emit :: "plugin_instance_identity \<Rightarrow> extension_diagnostic \<Rightarrow> extension_diagnostic" where
  "scoped_emit inst d =
     d\<lparr>diag_plugin_id := Some (pii_plugin_id inst),
       diag_scope_kind := Some (si_kind (pii_scope inst)),
       diag_scope_id := Some (si_id (pii_scope inst)),
       diag_activation_generation := Some (si_generation (pii_scope inst)),
       diag_message := bounded_message (diag_message d),
       diag_related_plugins := take 256 (diag_related_plugins d),
       diag_cycle_path := take 257 (diag_cycle_path d)\<rparr>"

definition lifecycle_diagnostic ::
  "diagnostic_code \<Rightarrow> diagnostic_severity \<Rightarrow> scope_identity option \<Rightarrow> plugin_id option \<Rightarrow> u64 option \<Rightarrow>
   string \<Rightarrow> extension_diagnostic" where
  "lifecycle_diagnostic code sev scope plugin order message =
     \<lparr>diag_code = code, diag_severity = sev, diag_plugin_id = plugin, diag_capability_id = None,
      diag_scope_kind = map_option si_kind scope, diag_scope_id = map_option si_id scope,
      diag_activation_generation = map_option si_generation scope, diag_effect_order = order,
      diag_related_plugins = [], diag_cycle_path = [], diag_message = bounded_message message\<rparr>"

record activation_error =
  ae_code :: string
  ae_message :: string

definition ActivationError_new :: "string \<Rightarrow> string \<Rightarrow> activation_error" where
  "ActivationError_new code message =
     \<lparr>ae_code = bounded_message code, ae_message = bounded_message message\<rparr>"

record dispose_error =
  de_code :: string
  de_message :: string

definition DisposeError_new :: "string \<Rightarrow> string \<Rightarrow> dispose_error" where
  "DisposeError_new code message =
     \<lparr>de_code = bounded_message code, de_message = bounded_message message\<rparr>"

record viewer_contribution =
  vc_supported_media_types :: "string list"
  vc_general_maximum_bytes :: nat
  vc_html_maximum_bytes :: nat

definition ProjectFileViewerContribution_new :: "string list \<Rightarrow> nat \<Rightarrow> nat \<Rightarrow> viewer_contribution" where
  "ProjectFileViewerContribution_new types general html =
     \<lparr>vc_supported_media_types = remdups_adj (sort types),
      vc_general_maximum_bytes = general, vc_html_maximum_bytes = html\<rparr>"

section \<open>The registry of one scope\<close>

datatype registry_error =
  DuplicateMarker capability_id
| DuplicateSource capability_id
| DuplicateWorkspaceTool capability_id
| DuplicateProjectFileViewer capability_id

datatype routing_error = RoutingClosed

record 'h source_entry =
  se_owner :: plugin_instance_identity
  se_handler :: 'h

record 'h workspace_tool_entry =
  te_owner :: plugin_instance_identity
  te_handler :: 'h

record viewer_entry =
  ve_owner :: plugin_instance_identity
  ve_contribution :: viewer_contribution

record 'h registry =
  rg_scope :: scope_identity
  rg_routing :: bool
  rg_leases :: nat
  rg_markers :: "(capability_id, plugin_instance_identity) btree"
  rg_sources :: "(capability_id, 'h source_entry) btree"
  rg_workspace_tools :: "(capability_id, 'h workspace_tool_entry) btree"
  rg_project_file_viewers :: "(capability_id, viewer_entry) btree"

definition RegistryHub_candidate :: "scope_identity \<Rightarrow> 'h registry" where
  "RegistryHub_candidate scope =
     \<lparr>rg_scope = scope, rg_routing = False, rg_leases = 0, rg_markers = bt_empty,
      rg_sources = bt_empty, rg_workspace_tools = bt_empty, rg_project_file_viewers = bt_empty\<rparr>"

definition open_routing :: "'h registry \<Rightarrow> 'h registry" where
  "open_routing rg = rg\<lparr>rg_routing := True\<rparr>"

definition close_routing :: "'h registry \<Rightarrow> 'h registry" where
  "close_routing rg = rg\<lparr>rg_routing := False\<rparr>"

text \<open>\<open>lease\<close> when no other thread runs between its instructions, and \<open>RegistryLease::drop\<close>.\<close>

definition lease :: "'h registry \<Rightarrow> (routing_error, 'h registry) result" where
  "lease rg =
     (if \<not> rg_routing rg then Err RoutingClosed
      else Ok (rg\<lparr>rg_leases := rg_leases rg + 1\<rparr>))"

definition drop_lease :: "'h registry \<Rightarrow> 'h registry" where
  "drop_lease rg = rg\<lparr>rg_leases := rg_leases rg - 1\<rparr>"

definition marker_owner :: "'h registry \<Rightarrow> capability_id \<Rightarrow> plugin_instance_identity option" where
  "marker_owner rg cap = bt_get (rg_markers rg) cap"

definition source_owner :: "'h registry \<Rightarrow> capability_id \<Rightarrow> plugin_instance_identity option" where
  "source_owner rg cap = map_option se_owner (bt_get (rg_sources rg) cap)"

definition workspace_tool_owner :: "'h registry \<Rightarrow> capability_id \<Rightarrow> plugin_instance_identity option" where
  "workspace_tool_owner rg cap = map_option te_owner (bt_get (rg_workspace_tools rg) cap)"

definition register_marker ::
  "plugin_instance_identity \<Rightarrow> capability_id \<Rightarrow> 'h registry \<Rightarrow> (registry_error, 'h registry) result" where
  "register_marker inst cap rg =
     (if bt_contains_key (rg_markers rg) cap then Err (DuplicateMarker cap)
      else Ok (rg\<lparr>rg_markers := bt_insert cap inst (rg_markers rg)\<rparr>))"

definition register_source ::
  "plugin_instance_identity \<Rightarrow> capability_id \<Rightarrow> 'h \<Rightarrow> 'h registry \<Rightarrow> (registry_error, 'h registry) result" where
  "register_source inst cap handler rg =
     (if bt_contains_key (rg_sources rg) cap then Err (DuplicateSource cap)
      else Ok (rg\<lparr>rg_sources :=
             bt_insert cap \<lparr>se_owner = inst, se_handler = handler\<rparr> (rg_sources rg)\<rparr>))"

definition register_workspace_tool ::
  "plugin_instance_identity \<Rightarrow> capability_id \<Rightarrow> 'h \<Rightarrow> 'h registry \<Rightarrow> (registry_error, 'h registry) result" where
  "register_workspace_tool inst cap handler rg =
     (if bt_contains_key (rg_workspace_tools rg) cap then Err (DuplicateWorkspaceTool cap)
      else Ok (rg\<lparr>rg_workspace_tools :=
             bt_insert cap \<lparr>te_owner = inst, te_handler = handler\<rparr> (rg_workspace_tools rg)\<rparr>))"

definition register_project_file_viewer ::
  "plugin_instance_identity \<Rightarrow> capability_id \<Rightarrow> viewer_contribution \<Rightarrow> 'h registry \<Rightarrow>
   (registry_error, 'h registry) result" where
  "register_project_file_viewer inst cap contribution rg =
     (if bt_contains_key (rg_project_file_viewers rg) cap then Err (DuplicateProjectFileViewer cap)
      else Ok (rg\<lparr>rg_project_file_viewers :=
             bt_insert cap \<lparr>ve_owner = inst, ve_contribution = contribution\<rparr> (rg_project_file_viewers rg)\<rparr>))"

section \<open>Calls through the registry\<close>

datatype call_error =
  CallRouting routing_error
| MissingContribution capability_id
| CallPayload broker_payload_error
| CallHandler broker_error

record call_result =
  cl_scope :: scope_identity
  cl_payload :: bounded_json

text \<open>
  The body that \<open>call_source\<close> and \<open>call_workspace_tool\<close> share once the lease is held: rebind the
  request, look the handler up, run it, bound its answer. \<open>limit\<close> is the bound of the answer.
\<close>

definition call_handler ::
  "(json \<Rightarrow> string option) \<Rightarrow> ('h \<Rightarrow> bounded_json \<Rightarrow> (broker_error, bounded_json) result) \<Rightarrow>
   scope_identity \<Rightarrow> 'h option \<Rightarrow> capability_id \<Rightarrow> bounded_json \<Rightarrow> nat \<Rightarrow> (call_error, call_result) result" where
  "call_handler encode call scope handler cap request limit =
     try_res (map_err CallPayload (BoundedJson_generic encode (bj_value request))) (\<lambda>req.
     try_res (case handler of None \<Rightarrow> Err (MissingContribution cap) | Some h \<Rightarrow> Ok h) (\<lambda>h.
     try_res (map_err CallHandler (call h req)) (\<lambda>payload.
     try_res (map_err CallPayload (BoundedJson_new encode (bj_value payload) limit)) (\<lambda>p.
     Ok \<lparr>cl_scope = scope, cl_payload = p\<rparr>))))"

text \<open>The lease is a local of the call: it is dropped on every return.\<close>

definition call_source ::
  "(json \<Rightarrow> string option) \<Rightarrow> ('h \<Rightarrow> bounded_json \<Rightarrow> (broker_error, bounded_json) result) \<Rightarrow>
   'h registry \<Rightarrow> capability_id \<Rightarrow> bounded_json \<Rightarrow> 'h registry \<times> (call_error, call_result) result" where
  "call_source encode call rg cap request =
     (case lease rg of
        Inl e \<Rightarrow> (rg, Err (CallRouting e))
      | Inr held \<Rightarrow>
          (drop_lease held,
           call_handler encode call (rg_scope held) (map_option se_handler (bt_get (rg_sources held) cap))
             cap request DEFAULT_BROKER_PAYLOAD_BYTES))"

definition call_workspace_tool ::
  "(json \<Rightarrow> string option) \<Rightarrow> ('h \<Rightarrow> bounded_json \<Rightarrow> (broker_error, bounded_json) result) \<Rightarrow>
   'h registry \<Rightarrow> capability_id \<Rightarrow> bounded_json \<Rightarrow> 'h registry \<times> (call_error, call_result) result" where
  "call_workspace_tool encode call rg cap request =
     (case lease rg of
        Inl e \<Rightarrow> (rg, Err (CallRouting e))
      | Inr held \<Rightarrow>
          (drop_lease held,
           call_handler encode call (rg_scope held) (map_option te_handler (bt_get (rg_workspace_tools held) cap))
             cap request WORKSPACE_SNAPSHOT_RESPONSE_BYTES))"

text \<open>\<open>resolve_project_file_viewer\<close> hands its lease to the resolution; without a contribution it is dropped.\<close>

definition resolve_project_file_viewer ::
  "'h registry \<Rightarrow> capability_id \<Rightarrow>
   'h registry \<times> (call_error, scope_identity \<times> viewer_contribution) result" where
  "resolve_project_file_viewer rg cap =
     (case lease rg of
        Inl e \<Rightarrow> (rg, Err (CallRouting e))
      | Inr held \<Rightarrow>
          (case bt_get (rg_project_file_viewers held) cap of
             None \<Rightarrow> (drop_lease held, Err (MissingContribution cap))
           | Some entry \<Rightarrow> (held, Ok (rg_scope held, ve_contribution entry))))"

section \<open>Registrations and their disposal\<close>

record registration =
  reg_capability_id :: capability_id
  reg_instance :: plugin_instance_identity
  reg_disposed :: bool

definition new_registration :: "plugin_instance_identity \<Rightarrow> capability_id \<Rightarrow> registration" where
  "new_registration inst cap = \<lparr>reg_capability_id = cap, reg_instance = inst, reg_disposed = False\<rparr>"

text \<open>
  The four \<open>Disposable\<close> implementations: an entry is removed only when the registration still owns it.
  The registry a registration points to is the one of its scope, which outlives its effects.
\<close>

definition dispose_marker :: "registration \<Rightarrow> 'h registry \<Rightarrow> registration \<times> 'h registry" where
  "dispose_marker r rg =
     (if reg_disposed r then (r, rg)
      else (r\<lparr>reg_disposed := True\<rparr>,
            if bt_get (rg_markers rg) (reg_capability_id r) = Some (reg_instance r)
            then rg\<lparr>rg_markers := bt_remove (reg_capability_id r) (rg_markers rg)\<rparr> else rg))"

definition dispose_source :: "registration \<Rightarrow> 'h registry \<Rightarrow> registration \<times> 'h registry" where
  "dispose_source r rg =
     (if reg_disposed r then (r, rg)
      else (r\<lparr>reg_disposed := True\<rparr>,
            if source_owner rg (reg_capability_id r) = Some (reg_instance r)
            then rg\<lparr>rg_sources := bt_remove (reg_capability_id r) (rg_sources rg)\<rparr> else rg))"

definition dispose_workspace_tool :: "registration \<Rightarrow> 'h registry \<Rightarrow> registration \<times> 'h registry" where
  "dispose_workspace_tool r rg =
     (if reg_disposed r then (r, rg)
      else (r\<lparr>reg_disposed := True\<rparr>,
            if workspace_tool_owner rg (reg_capability_id r) = Some (reg_instance r)
            then rg\<lparr>rg_workspace_tools := bt_remove (reg_capability_id r) (rg_workspace_tools rg)\<rparr> else rg))"

definition dispose_project_file_viewer :: "registration \<Rightarrow> 'h registry \<Rightarrow> registration \<times> 'h registry" where
  "dispose_project_file_viewer r rg =
     (if reg_disposed r then (r, rg)
      else (r\<lparr>reg_disposed := True\<rparr>,
            if map_option ve_owner (bt_get (rg_project_file_viewers rg) (reg_capability_id r)) = Some (reg_instance r)
            then rg\<lparr>rg_project_file_viewers := bt_remove (reg_capability_id r) (rg_project_file_viewers rg)\<rparr>
            else rg))"

section \<open>The task tracker\<close>

datatype task_admission_error = TaskAdmissionClosed

record task_tracker =
  tt_accepting :: bool
  tt_len :: nat

definition ScopedTaskTracker_new :: task_tracker where
  "ScopedTaskTracker_new = \<lparr>tt_accepting = True, tt_len = 0\<rparr>"

definition spawn :: "task_tracker \<Rightarrow> (task_admission_error, task_tracker) result" where
  "spawn t = (if \<not> tt_accepting t then Err TaskAdmissionClosed else Ok (t\<lparr>tt_len := tt_len t + 1\<rparr>))"

definition close_tasks :: "task_tracker \<Rightarrow> task_tracker" where
  "close_tasks t = t\<lparr>tt_accepting := False\<rparr>"

section \<open>Lemmas\<close>

lemma bounded_message_eq: "bounded_message = bounded_broker_text"
  by (rule ext) (simp add: bounded_message_def bounded_broker_text_def MAX_RUNTIME_MESSAGE_BYTES_def)

text \<open>The kind of a contribution, with the owner its map gives and the way a registration is disposed.\<close>

datatype slot = SlotMarker | SlotSource | SlotTool | SlotViewer

fun slot_owner :: "'h registry \<Rightarrow> slot \<Rightarrow> capability_id \<Rightarrow> plugin_instance_identity option" where
  "slot_owner rg SlotMarker cap = marker_owner rg cap"
| "slot_owner rg SlotSource cap = source_owner rg cap"
| "slot_owner rg SlotTool cap = workspace_tool_owner rg cap"
| "slot_owner rg SlotViewer cap = map_option ve_owner (bt_get (rg_project_file_viewers rg) cap)"

fun dispose_slot :: "slot \<Rightarrow> registration \<Rightarrow> 'h registry \<Rightarrow> registration \<times> 'h registry" where
  "dispose_slot SlotMarker r rg = dispose_marker r rg"
| "dispose_slot SlotSource r rg = dispose_source r rg"
| "dispose_slot SlotTool r rg = dispose_workspace_tool r rg"
| "dispose_slot SlotViewer r rg = dispose_project_file_viewer r rg"

lemmas owner_defs = marker_owner_def source_owner_def workspace_tool_owner_def
lemmas dispose_slot_defs = dispose_marker_def dispose_source_def dispose_workspace_tool_def
  dispose_project_file_viewer_def

lemma dispose_slot_owner:
  assumes "dispose_slot k r rg = (r', rg')"
  shows "slot_owner rg' j c =
    (if \<not> reg_disposed r \<and> j = k \<and> c = reg_capability_id r \<and> slot_owner rg k c = Some (reg_instance r)
     then None else slot_owner rg j c)"
  using assms by (cases k; cases j) (auto simp: dispose_slot_defs owner_defs split: if_splits)

lemma dispose_slot_registration:
  "dispose_slot k r rg = (r', rg') \<Longrightarrow> r' = r\<lparr>reg_disposed := True\<rparr>"
  by (cases k; cases r) (auto simp: dispose_slot_defs split: if_splits)

lemma dispose_slot_frame:
  "dispose_slot k r rg = (r', rg') \<Longrightarrow>
     rg_scope rg' = rg_scope rg \<and> rg_routing rg' = rg_routing rg \<and> rg_leases rg' = rg_leases rg"
  by (cases k) (auto simp: dispose_slot_defs split: if_splits)

text \<open>Disposing a registration a second time does nothing.\<close>

lemma dispose_slot_idempotent:
  "dispose_slot k r rg = (r', rg') \<Longrightarrow> dispose_slot k r' rg'' = (r', rg'')"
  by (cases k) (auto simp: dispose_slot_defs split: if_splits)

lemma register_owner:
  "register_marker inst cap rg = Ok rg1 \<Longrightarrow>
     slot_owner rg1 j c = (if j = SlotMarker \<and> c = cap then Some inst else slot_owner rg j c) \<and>
     slot_owner rg SlotMarker cap = None"
  "register_source inst cap h rg = Ok rg2 \<Longrightarrow>
     slot_owner rg2 j c = (if j = SlotSource \<and> c = cap then Some inst else slot_owner rg j c) \<and>
     slot_owner rg SlotSource cap = None"
  "register_workspace_tool inst cap h rg = Ok rg3 \<Longrightarrow>
     slot_owner rg3 j c = (if j = SlotTool \<and> c = cap then Some inst else slot_owner rg j c) \<and>
     slot_owner rg SlotTool cap = None"
  "register_project_file_viewer inst cap v rg = Ok rg4 \<Longrightarrow>
     slot_owner rg4 j c = (if j = SlotViewer \<and> c = cap then Some inst else slot_owner rg j c) \<and>
     slot_owner rg SlotViewer cap = None"
  by (cases j; auto simp: register_marker_def register_source_def register_workspace_tool_def
      register_project_file_viewer_def owner_defs bt_contains_key_def split: if_splits)+

lemma register_frame:
  "register_marker inst cap rg = Ok rg1 \<Longrightarrow> rg_scope rg1 = rg_scope rg \<and> rg_routing rg1 = rg_routing rg \<and> rg_leases rg1 = rg_leases rg"
  "register_source inst cap h rg = Ok rg2 \<Longrightarrow> rg_scope rg2 = rg_scope rg \<and> rg_routing rg2 = rg_routing rg \<and> rg_leases rg2 = rg_leases rg"
  "register_workspace_tool inst cap h rg = Ok rg3 \<Longrightarrow> rg_scope rg3 = rg_scope rg \<and> rg_routing rg3 = rg_routing rg \<and> rg_leases rg3 = rg_leases rg"
  "register_project_file_viewer inst cap v rg = Ok rg4 \<Longrightarrow> rg_scope rg4 = rg_scope rg \<and> rg_routing rg4 = rg_routing rg \<and> rg_leases rg4 = rg_leases rg"
  by (auto simp: register_marker_def register_source_def register_workspace_tool_def
      register_project_file_viewer_def split: if_splits)

lemma routing_owner [simp]:
  "slot_owner (open_routing rg) j c = slot_owner rg j c"
  "slot_owner (close_routing rg) j c = slot_owner rg j c"
  "slot_owner (drop_lease rg) j c = slot_owner rg j c"
  "slot_owner (RegistryHub_candidate s) j c = None"
  by (cases j; simp add: open_routing_def close_routing_def drop_lease_def owner_defs
      RegistryHub_candidate_def)+

text \<open>A call leaves the registry as it found it, whatever the handler answers.\<close>

lemma call_keeps_registry:
  "fst (call_source encode call rg cap request) = rg"
  "fst (call_workspace_tool encode call rg cap request) = rg"
  by (auto simp: call_source_def call_workspace_tool_def lease_def drop_lease_def)

lemma call_answer_bounded:
  "snd (call_source encode call rg cap request) = Ok r \<Longrightarrow>
     rg_routing rg \<and> cl_scope r = rg_scope rg \<and> bj_encoded_bytes (cl_payload r) \<le> DEFAULT_BROKER_PAYLOAD_BYTES"
  "snd (call_workspace_tool encode call rg cap request) = Ok s \<Longrightarrow>
     rg_routing rg \<and> cl_scope s = rg_scope rg \<and> bj_encoded_bytes (cl_payload s) \<le> WORKSPACE_SNAPSHOT_RESPONSE_BYTES"
  by (auto simp: call_source_def call_workspace_tool_def call_handler_def lease_def try_res_Ok_iff
      dest: BoundedJson_bounded split: if_splits)

end
