(* ===== verification/Effect_Stack.thy ===== *)
theory Effect_Stack
  imports Scope_Registry
begin

text \<open>
  Effects of an activated plugin, from \<^verbatim>\<open>lifecycle.rs\<close>: \<open>EffectSink\<close> collects disposers during
  activation, \<open>EffectStack::dispose\<close> runs them in reverse order under two deadlines and keeps its
  report. The outside world is the type \<open>'w\<close>, and what the code takes from \<open>tokio\<close> and from the plugins is
  gathered in the record \<open>runtime\<close>: the clock (\<open>Instant::now\<close>); what \<open>timeout(deadline, disposer.dispose())\<close>
  gives for a disposer that a plugin pushed itself, a value of type \<open>'x\<close>; how the wait for leases and
  tasks ends and what it leaves of their counts; and what other threads made of the counts when they
  are read again. The disposers of the crate, the registrations, complete at
  their first poll, which \<open>timeout\<close> makes before it looks at the deadline.

  A future can be dropped wherever it awaits. The outcome \<open>Cut n\<close> is such a drop: \<open>n\<close> counts the
  enclosing \<open>timeout\<close> futures that are left untouched below the one that is dropped, so that \<open>Cut 0\<close> is
  the innermost. The state changes made before the drop remain.
\<close>

type_synonym duration = nat

datatype 'a outcome = Done 'a | Cut nat

record lifecycle_deadlines =
  dl_quiesce :: duration
  dl_effect :: duration
  dl_scope :: duration

text \<open>\<open>LifecycleDeadlines::default\<close>, in nanoseconds.\<close>

definition default_deadlines :: lifecycle_deadlines where
  "default_deadlines =
     \<lparr>dl_quiesce = 5 * 10 ^ 9, dl_effect = 2 * 10 ^ 9, dl_scope = 10 * 10 ^ 9\<rparr>"

datatype effect_status = EffRegistered | EffDisposing | EffDisposed | EffFailed

record effect_record =
  er_instance :: plugin_instance_identity
  er_creation_order :: u64
  er_status :: effect_status
  er_cleanup_error :: "dispose_error option"

datatype 'x disposer = Registration slot registration | External 'x

record 'x pending_effect =
  pe_record :: effect_record
  pe_disposer :: "'x disposer"

record 'x effect_sink =
  sk_instance :: plugin_instance_identity
  sk_effects :: "'x pending_effect list"

definition EffectSink_new :: "plugin_instance_identity \<Rightarrow> 'x effect_sink" where
  "EffectSink_new inst = \<lparr>sk_instance = inst, sk_effects = []\<rparr>"

definition new_effect :: "plugin_instance_identity \<Rightarrow> u64 \<Rightarrow> 'x disposer \<Rightarrow> 'x pending_effect" where
  "new_effect inst order d =
     \<lparr>pe_record = \<lparr>er_instance = inst, er_creation_order = order, er_status = EffRegistered,
                   er_cleanup_error = None\<rparr>,
      pe_disposer = d\<rparr>"

definition push :: "'x effect_sink \<Rightarrow> 'x disposer \<Rightarrow> 'x effect_sink \<times> u64" where
  "push sink d =
     (let order = word_of_nat (length (sk_effects sink)) in
      (sink\<lparr>sk_effects := sk_effects sink @ [new_effect (sk_instance sink) order d]\<rparr>, order))"

text \<open>
  \<open>EffectSink::register_marker\<close> and its three siblings: register with the hub, then push the
  registration. \<open>reg\<close> is the hub's function for the kind of contribution.
\<close>

definition sink_register ::
  "slot \<Rightarrow> (plugin_instance_identity \<Rightarrow> 'h registry \<Rightarrow> (registry_error, 'h registry) result) \<Rightarrow> capability_id \<Rightarrow>
   'x effect_sink \<Rightarrow> 'h registry \<Rightarrow> 'x effect_sink \<times> 'h registry \<times> (registry_error, u64) result" where
  "sink_register k reg cap sink rg =
     (case reg (sk_instance sink) rg of
        Inl e \<Rightarrow> (sink, rg, Err e)
      | Inr rg' \<Rightarrow>
          (let (sink', order) = push sink (Registration k (new_registration (sk_instance sink) cap))
           in (sink', rg', Ok order)))"

definition sink_register_marker ::
  "capability_id \<Rightarrow> 'x effect_sink \<Rightarrow> 'h registry \<Rightarrow> 'x effect_sink \<times> 'h registry \<times> (registry_error, u64) result" where
  "sink_register_marker cap = sink_register SlotMarker (\<lambda>inst. register_marker inst cap) cap"

definition sink_register_source ::
  "capability_id \<Rightarrow> 'h \<Rightarrow> 'x effect_sink \<Rightarrow> 'h registry \<Rightarrow> 'x effect_sink \<times> 'h registry \<times> (registry_error, u64) result" where
  "sink_register_source cap handler = sink_register SlotSource (\<lambda>inst. register_source inst cap handler) cap"

definition sink_register_workspace_tool ::
  "capability_id \<Rightarrow> 'h \<Rightarrow> 'x effect_sink \<Rightarrow> 'h registry \<Rightarrow> 'x effect_sink \<times> 'h registry \<times> (registry_error, u64) result" where
  "sink_register_workspace_tool cap handler =
     sink_register SlotTool (\<lambda>inst. register_workspace_tool inst cap handler) cap"

definition sink_register_project_file_viewer ::
  "capability_id \<Rightarrow> viewer_contribution \<Rightarrow> 'x effect_sink \<Rightarrow> 'h registry \<Rightarrow>
   'x effect_sink \<times> 'h registry \<times> (registry_error, u64) result" where
  "sink_register_project_file_viewer cap contribution =
     sink_register SlotViewer (\<lambda>inst. register_project_file_viewer inst cap contribution) cap"

section \<open>Disposal\<close>

datatype dispose_outcome = Disposed | Failed

record effect_dispose_report =
  edr_outcome :: dispose_outcome
  edr_records :: "effect_record list"

record 'x effect_stack =
  stk_effects :: "'x pending_effect list"
  stk_report :: "effect_dispose_report option"

definition into_stack :: "'x effect_sink \<Rightarrow> 'x effect_stack" where
  "into_stack sink = \<lparr>stk_effects = sk_effects sink, stk_report = None\<rparr>"

text \<open>What awaiting \<open>timeout(deadline, CatchUnwindFuture::new(disposer.dispose()))\<close> gives.\<close>

datatype timed_dispose = Completed "(dispose_error, unit) result" | DisposePanicked | TimedOut | Dropped nat

record ('x, 'w) runtime =
  rt_now :: "'w \<Rightarrow> duration \<times> 'w"
  rt_dispose :: "'x \<Rightarrow> duration \<Rightarrow> 'w \<Rightarrow> timed_dispose \<times> 'w"
  rt_drain :: "duration \<Rightarrow> nat \<times> nat \<Rightarrow> 'w \<Rightarrow> bool outcome \<times> (nat \<times> nat) \<times> 'w"
  rt_progress :: "nat \<times> nat \<Rightarrow> 'w \<Rightarrow> (nat \<times> nat) \<times> 'w"

text \<open>What a scope's disposal reads and writes: the registry, the diagnostics emitted, the world.\<close>

record ('h, 'w) context_state =
  cx_registry :: "'h registry"
  cx_log :: "extension_diagnostic list"
  cx_world :: 'w

definition emit :: "extension_diagnostic \<Rightarrow> ('h, 'w) context_state \<Rightarrow> ('h, 'w) context_state" where
  "emit d cx = cx\<lparr>cx_log := cx_log cx @ [d]\<rparr>"

definition elapsed :: "('x, 'w) runtime \<Rightarrow> duration \<Rightarrow> ('h, 'w) context_state \<Rightarrow> duration \<times> ('h, 'w) context_state" where
  "elapsed rt started cx =
     (let (now, w) = rt_now rt (cx_world cx) in (now - started, cx\<lparr>cx_world := w\<rparr>))"

fun run_disposer ::
  "('x, 'w) runtime \<Rightarrow> duration \<Rightarrow> 'x disposer \<Rightarrow> ('h, 'w) context_state \<Rightarrow>
   timed_dispose \<times> 'x disposer \<times> ('h, 'w) context_state" where
  "run_disposer rt deadline (Registration k r) cx =
     (let (r', rg) = dispose_slot k r (cx_registry cx)
      in (Completed (Ok ()), Registration k r', cx\<lparr>cx_registry := rg\<rparr>))"
| "run_disposer rt deadline (External x) cx =
     (let (res, w) = rt_dispose rt x deadline (cx_world cx)
      in (res, External x, cx\<lparr>cx_world := w\<rparr>))"

definition dispose_failed :: "effect_record \<Rightarrow> string \<Rightarrow> extension_diagnostic" where
  "dispose_failed r message =
     lifecycle_diagnostic DEffectDisposeFailed SevError (Some (pii_scope (er_instance r)))
       (Some (pii_plugin_id (er_instance r))) (Some (er_creation_order r)) message"

definition fail_record :: "dispose_error \<Rightarrow> effect_record \<Rightarrow> effect_record" where
  "fail_record e r = r\<lparr>er_status := EffFailed, er_cleanup_error := Some e\<rparr>"

text \<open>The match on the result of one disposer: the record it leaves and what is emitted.\<close>

fun settle :: "timed_dispose \<Rightarrow> effect_record \<Rightarrow> effect_record \<times> extension_diagnostic list" where
  "settle (Completed (Inr _)) r = (r\<lparr>er_status := EffDisposed\<rparr>, [])"
| "settle (Completed (Inl e)) r =
     (fail_record e r, [dispose_failed r (''effect cleanup failed: '' @ de_code e)])"
| "settle DisposePanicked r =
     (let e = DisposeError_new ''effect_dispose_panicked'' ''effect cleanup panicked at the host boundary''
      in (fail_record e r, [dispose_failed r (de_message e)]))"
| "settle TimedOut r =
     (let e = DisposeError_new ''effect_dispose_timeout'' ''effect cleanup exceeded its deadline''
      in (fail_record e r, [dispose_failed r (de_message e)]))"
| "settle (Dropped n) r = (r, [])"

definition dispose_effect ::
  "('x, 'w) runtime \<Rightarrow> duration \<Rightarrow> duration \<Rightarrow> duration \<Rightarrow> 'x pending_effect \<Rightarrow> ('h, 'w) context_state \<Rightarrow>
   'x pending_effect \<times> ('h, 'w) context_state \<times> unit outcome" where
  "dispose_effect rt per_effect tot started e cx =
     (let r = (pe_record e)\<lparr>er_status := EffDisposing\<rparr>; (t, cx1) = elapsed rt started cx in
      if t > tot
      then (e\<lparr>pe_record := fail_record (DisposeError_new ''scope_dispose_timeout''
               ''scope disposal deadline expired before this effect could run'') r\<rparr>, cx1, Done ())
      else
        (let (res, d, cx2) = run_disposer rt (min per_effect (tot - t)) (pe_disposer e) cx1;
             (r', ds) = settle res r
         in (e\<lparr>pe_record := r', pe_disposer := d\<rparr>, cx2\<lparr>cx_log := cx_log cx2 @ ds\<rparr>,
             case res of Dropped n \<Rightarrow> Cut n | _ \<Rightarrow> Done ())))"

text \<open>The loop, over the effects in the order they are visited.\<close>

fun dispose_effects ::
  "('x, 'w) runtime \<Rightarrow> duration \<Rightarrow> duration \<Rightarrow> duration \<Rightarrow> 'x pending_effect list \<Rightarrow> ('h, 'w) context_state \<Rightarrow>
   'x pending_effect list \<times> ('h, 'w) context_state \<times> unit outcome" where
  "dispose_effects rt per_effect tot started [] cx = ([], cx, Done ())"
| "dispose_effects rt per_effect tot started (e # es) cx =
     (case dispose_effect rt per_effect tot started e cx of
        (e', cx1, Cut n) \<Rightarrow> (e' # es, cx1, Cut n)
      | (e', cx1, Done _) \<Rightarrow>
          (let (es', cx2, r) = dispose_effects rt per_effect tot started es cx1 in (e' # es', cx2, r)))"

definition effects_outcome :: "effect_record list \<Rightarrow> dispose_outcome" where
  "effects_outcome records =
     (if list_all (\<lambda>r. er_status r = EffDisposed) records then Disposed else Failed)"

definition dispose_stack ::
  "('x, 'w) runtime \<Rightarrow> duration \<Rightarrow> duration \<Rightarrow> 'x effect_stack \<Rightarrow> ('h, 'w) context_state \<Rightarrow>
   'x effect_stack \<times> ('h, 'w) context_state \<times> effect_dispose_report outcome" where
  "dispose_stack rt per_effect tot stk cx =
     (case stk_report stk of
        Some report \<Rightarrow> (stk, cx, Done report)
      | None \<Rightarrow>
          (let (started, w) = rt_now rt (cx_world cx);
               (es, cx1, res) =
                 dispose_effects rt per_effect tot started (rev (stk_effects stk)) (cx\<lparr>cx_world := w\<rparr>);
               effects = rev es
           in case res of
                Cut n \<Rightarrow> (stk\<lparr>stk_effects := effects\<rparr>, cx1, Cut n)
              | Done _ \<Rightarrow>
                  (let records = map pe_record effects;
                       report = \<lparr>edr_outcome = effects_outcome records, edr_records = records\<rparr>
                   in (\<lparr>stk_effects = effects, stk_report = Some report\<rparr>, cx1, Done report))))"

section \<open>One effect\<close>

definition settled :: "effect_record \<Rightarrow> bool" where
  "settled r \<longleftrightarrow> er_status r = EffDisposed \<or> er_status r = EffFailed \<and> er_cleanup_error r \<noteq> None"

definition same_effect :: "effect_record \<Rightarrow> effect_record \<Rightarrow> bool" where
  "same_effect r r' \<longleftrightarrow> er_instance r' = er_instance r \<and> er_creation_order r' = er_creation_order r"

lemma settle_record:
  "settle res r = (r', ds) \<Longrightarrow> same_effect r r' \<and> ((\<forall>n. res \<noteq> Dropped n) \<longrightarrow> settled r')"
  by (induction res r rule: settle.induct)
    (auto simp: same_effect_def settled_def fail_record_def Let_def)

text \<open>The registration a disposer still has to remove, as a kind of contribution, capability and owner.\<close>

fun pending_key :: "'x disposer \<Rightarrow> (slot \<times> capability_id \<times> plugin_instance_identity) option" where
  "pending_key (Registration k r) =
     (if reg_disposed r then None else Some (k, reg_capability_id r, reg_instance r))"
| "pending_key (External x) = None"

text \<open>Every entry of the registry is one that some disposer will remove.\<close>

definition accounted :: "'h registry \<Rightarrow> 'x disposer set \<Rightarrow> bool" where
  "accounted rg ds \<longleftrightarrow>
     (\<forall>k c i. slot_owner rg k c = Some i \<longrightarrow> (\<exists>d\<in>ds. pending_key d = Some (k, c, i)))"

text \<open>Disposal keeps the scope, the routing flag and the leases, and adds no owner.\<close>

definition registry_frame :: "'h registry \<Rightarrow> 'h registry \<Rightarrow> bool" where
  "registry_frame rg rg' \<longleftrightarrow>
     rg_scope rg' = rg_scope rg \<and> rg_routing rg' = rg_routing rg \<and> rg_leases rg' = rg_leases rg \<and>
     (\<forall>k c i. slot_owner rg' k c = Some i \<longrightarrow> slot_owner rg k c = Some i)"

lemma registry_frame_refl [simp]: "registry_frame rg rg"
  by (simp add: registry_frame_def)

lemma registry_frame_trans: "registry_frame a b \<Longrightarrow> registry_frame b c \<Longrightarrow> registry_frame a c"
  by (simp add: registry_frame_def)

lemma run_disposer_registry:
  assumes "run_disposer rt dl d cx = (res, d', cx')"
  shows "registry_frame (cx_registry cx) (cx_registry cx')"
    and "accounted (cx_registry cx) (insert d A) \<Longrightarrow> accounted (cx_registry cx') (insert d' A)"
    and "(\<forall>n. res \<noteq> Dropped n) \<Longrightarrow> pending_key d' = None"
proof -
  show "registry_frame (cx_registry cx) (cx_registry cx')"
  proof (cases d)
    case (Registration k r)
    obtain r' rg where ds: "dispose_slot k r (cx_registry cx) = (r', rg)" by (cases "dispose_slot k r (cx_registry cx)")
    then have "cx_registry cx' = rg" using assms Registration by auto
    with dispose_slot_frame [OF ds] dispose_slot_owner [OF ds] show ?thesis
      by (auto simp: registry_frame_def split: if_splits)
  next
    case (External x)
    with assms show ?thesis by (auto split: prod.splits)
  qed
  show "(\<forall>n. res \<noteq> Dropped n) \<Longrightarrow> pending_key d' = None"
    using assms by (cases d) (auto dest: dispose_slot_registration split: prod.splits)
  show "accounted (cx_registry cx') (insert d' A)" if acc: "accounted (cx_registry cx) (insert d A)"
  proof (cases d)
    case (Registration k r)
    obtain r' rg where ds: "dispose_slot k r (cx_registry cx) = (r', rg)" by (cases "dispose_slot k r (cx_registry cx)")
    have rg: "cx_registry cx' = rg" using assms ds Registration by auto
    have "\<exists>e\<in>A. pending_key e = Some (j, c, i)" if "slot_owner rg j c = Some i" for j c i
    proof -
      from that have "slot_owner (cx_registry cx) j c = Some i"
        and n: "\<not> (\<not> reg_disposed r \<and> j = k \<and> c = reg_capability_id r \<and> i = reg_instance r)"
        using dispose_slot_owner [OF ds, of j c] by (auto split: if_splits)
      with acc obtain e where "e \<in> insert d A" "pending_key e = Some (j, c, i)"
        unfolding accounted_def by blast
      with n Registration show ?thesis by (auto split: if_splits)
    qed
    with rg show ?thesis by (auto simp: accounted_def)
  next
    case (External x)
    with assms acc show ?thesis by (auto simp: accounted_def split: prod.splits)
  qed
qed

lemma elapsed_registry: "elapsed rt st cx = (t, cx') \<Longrightarrow> cx_registry cx' = cx_registry cx"
  by (auto simp: elapsed_def split: prod.splits)

text \<open>What one iteration of the loop leaves of an effect and of the registry.\<close>

lemma dispose_effect_registry:
  assumes "dispose_effect rt per tot st e cx = (e', cx', res)"
  shows "registry_frame (cx_registry cx) (cx_registry cx')"
    and "accounted (cx_registry cx) (insert (pe_disposer e) A) \<Longrightarrow>
         accounted (cx_registry cx') (insert (pe_disposer e') A)"
  using assms
  by (auto simp: dispose_effect_def Let_def elapsed_registry run_disposer_registry split: prod.splits if_splits
      dest: elapsed_registry run_disposer_registry)

lemma dispose_effect_record:
  assumes "dispose_effect rt per tot st e cx = (e', cx', res)"
  shows "same_effect (pe_record e) (pe_record e')"
    and "res = Done () \<Longrightarrow> settled (pe_record e')"
    and "res = Done () \<Longrightarrow> er_status (pe_record e') = EffDisposed \<Longrightarrow> pending_key (pe_disposer e') = None"
proof -
  show "same_effect (pe_record e) (pe_record e')"
    using assms by (auto simp: dispose_effect_def Let_def same_effect_def fail_record_def
        split: prod.splits if_splits dest!: settle_record)
  show "res = Done () \<Longrightarrow> settled (pe_record e')"
    using assms by (auto simp: dispose_effect_def Let_def settled_def fail_record_def
        split: prod.splits if_splits timed_dispose.splits dest!: settle_record)
  show "res = Done () \<Longrightarrow> er_status (pe_record e') = EffDisposed \<Longrightarrow> pending_key (pe_disposer e') = None"
    using assms by (auto simp: dispose_effect_def Let_def fail_record_def
        split: prod.splits if_splits timed_dispose.splits dest!: run_disposer_registry(3))
qed

section \<open>The loop and the stack\<close>

lemma dispose_effects_ConsE:
  assumes "dispose_effects rt per tot st (e # es) cx = (es', cx', res)"
  obtains (cut) e1 n where "dispose_effect rt per tot st e cx = (e1, cx', Cut n)" "es' = e1 # es" "res = Cut n"
  | (go) e1 cx1 es2 where "dispose_effect rt per tot st e cx = (e1, cx1, Done ())"
      "dispose_effects rt per tot st es cx1 = (es2, cx', res)" "es' = e1 # es2"
  using assms by (auto split: prod.splits outcome.splits)

lemma dispose_effects_frame:
  "dispose_effects rt per tot st es cx = (es', cx', res) \<Longrightarrow> registry_frame (cx_registry cx) (cx_registry cx')"
proof (induction es arbitrary: cx es')
  case (Cons e es)
  from Cons.prems show ?case
    by (cases rule: dispose_effects_ConsE)
      (auto dest: dispose_effect_registry(1) Cons.IH intro: registry_frame_trans)
qed simp

lemma dispose_effects_accounted:
  "dispose_effects rt per tot st es cx = (es', cx', res) \<Longrightarrow>
     accounted (cx_registry cx) (pe_disposer ` set es \<union> A) \<Longrightarrow>
     accounted (cx_registry cx') (pe_disposer ` set es' \<union> A)"
proof (induction es arbitrary: cx es' A)
  case (Cons e es)
  from Cons.prems(1) show ?case
  proof (cases rule: dispose_effects_ConsE)
    case (cut e1 n)
    with dispose_effect_registry(2) [OF cut(1), of "pe_disposer ` set es \<union> A"] Cons.prems(2)
    show ?thesis by simp
  next
    case (go e1 cx1 es2)
    with dispose_effect_registry(2) [OF go(1), of "pe_disposer ` set es \<union> A"] Cons.prems(2)
      Cons.IH [OF go(2), of "insert (pe_disposer e1) A"]
    show ?thesis by simp
  qed
qed simp

lemma dispose_effects_same:
  "dispose_effects rt per tot st es cx = (es', cx', res) \<Longrightarrow>
     list_all2 (\<lambda>e e'. same_effect (pe_record e) (pe_record e')) es es'"
proof (induction es arbitrary: cx es')
  case (Cons e es)
  have "list_all2 (\<lambda>e e'. same_effect (pe_record e) (pe_record e')) es es"
    by (simp add: list_all2_same same_effect_def)
  with Cons.prems show ?case
    by (cases rule: dispose_effects_ConsE) (auto dest: dispose_effect_record(1) Cons.IH)
qed simp

lemma dispose_effects_settled:
  "dispose_effects rt per tot st es cx = (es', cx', Done ()) \<Longrightarrow> e \<in> set es' \<Longrightarrow>
     settled (pe_record e) \<and> (er_status (pe_record e) = EffDisposed \<longrightarrow> pending_key (pe_disposer e) = None)"
proof (induction es arbitrary: cx es')
  case (Cons e0 es)
  from Cons.prems(1) show ?case
  proof (cases rule: dispose_effects_ConsE)
    case (go e1 cx1 es2)
    show ?thesis
    proof (cases "e = e1")
      case True
      with dispose_effect_record(2,3) [OF go(1)] show ?thesis by simp
    next
      case False
      with Cons.IH [OF go(2)] Cons.prems(2) go(3) show ?thesis by simp
    qed
  qed simp
qed simp

text \<open>Once there is a report, disposing again returns it and does nothing.\<close>

lemma dispose_stack_memo:
  assumes "dispose_stack rt per tot stk cx = (stk', cx', Done report)"
  shows "stk_report stk' = Some report"
    and "dispose_stack rt' per' tot' stk' cx'' = (stk', cx'', Done report)"
  using assms by (auto simp: dispose_stack_def Let_def split: option.splits prod.splits outcome.splits)

text \<open>
  The shape of a stack: its effects are numbered in creation order and belong to one instance, and its
  report, once there is one, describes exactly these effects.
\<close>

definition stack_ok :: "plugin_instance_identity \<Rightarrow> 'x effect_stack \<Rightarrow> bool" where
  "stack_ok inst stk \<longleftrightarrow>
     (\<forall>n < length (stk_effects stk).
        same_effect \<lparr>er_instance = inst, er_creation_order = word_of_nat n, er_status = EffRegistered,
                     er_cleanup_error = None\<rparr> (pe_record (stk_effects stk ! n))) \<and>
     (\<forall>report. stk_report stk = Some report \<longrightarrow>
        edr_records report = map pe_record (stk_effects stk) \<and>
        edr_outcome report = effects_outcome (edr_records report) \<and>
        (\<forall>e\<in>set (stk_effects stk). settled (pe_record e) \<and>
           (er_status (pe_record e) = EffDisposed \<longrightarrow> pending_key (pe_disposer e) = None)))"

lemma same_effect_trans: "same_effect a b \<Longrightarrow> same_effect b c \<Longrightarrow> same_effect a c"
  by (simp add: same_effect_def)

lemma dispose_stack_step:
  assumes "dispose_stack rt per tot stk cx = (stk', cx', res)"
  shows "registry_frame (cx_registry cx) (cx_registry cx')"
    and "accounted (cx_registry cx) (pe_disposer ` set (stk_effects stk) \<union> A) \<Longrightarrow>
         accounted (cx_registry cx') (pe_disposer ` set (stk_effects stk') \<union> A)"
    and "stack_ok inst stk \<Longrightarrow> stack_ok inst stk'"
    and "res = Done report \<Longrightarrow> stk_report stk' = Some report"
proof -
  show "res = Done report \<Longrightarrow> stk_report stk' = Some report"
    using assms dispose_stack_memo(1) by blast
  obtain started w where n: "rt_now rt (cx_world cx) = (started, w)" by (cases "rt_now rt (cx_world cx)")
  obtain es cx1 r where l: "dispose_effects rt per tot started (rev (stk_effects stk)) (cx\<lparr>cx_world := w\<rparr>) = (es, cx1, r)"
    by (cases "dispose_effects rt per tot started (rev (stk_effects stk)) (cx\<lparr>cx_world := w\<rparr>)") auto
  show "registry_frame (cx_registry cx) (cx_registry cx')"
    using assms n l dispose_effects_frame [OF l]
    by (auto simp: dispose_stack_def Let_def split: option.splits outcome.splits)
  show "accounted (cx_registry cx') (pe_disposer ` set (stk_effects stk') \<union> A)"
    if "accounted (cx_registry cx) (pe_disposer ` set (stk_effects stk) \<union> A)"
    using that assms n l dispose_effects_accounted [OF l, of A]
    by (auto simp: dispose_stack_def Let_def split: option.splits outcome.splits)
  show "stack_ok inst stk'" if ok: "stack_ok inst stk"
  proof (cases "stk_report stk")
    case None
    have rel: "list_all2 (\<lambda>e e'. same_effect (pe_record e) (pe_record e')) (stk_effects stk) (rev es)"
      using dispose_effects_same [OF l] list_all2_rev [of _ "rev (stk_effects stk)" es] by simp
    have eff: "stk_effects stk' = rev es"
      using assms None n l by (auto simp: dispose_stack_def Let_def split: outcome.splits)
    have num: "\<forall>n < length (stk_effects stk').
        same_effect \<lparr>er_instance = inst, er_creation_order = word_of_nat n, er_status = EffRegistered,
                     er_cleanup_error = None\<rparr> (pe_record (stk_effects stk' ! n))"
    proof (intro allI impI)
      fix n assume "n < length (stk_effects stk')"
      with rel eff have "n < length (stk_effects stk)"
        "same_effect (pe_record (stk_effects stk ! n)) (pe_record (stk_effects stk' ! n))"
        by (simp_all add: list_all2_conv_all_nth)
      with ok show "same_effect \<lparr>er_instance = inst, er_creation_order = word_of_nat n,
          er_status = EffRegistered, er_cleanup_error = None\<rparr> (pe_record (stk_effects stk' ! n))"
        unfolding stack_ok_def using same_effect_trans by blast
    qed
    show ?thesis
    proof (cases r)
      case (Done u)
      then have stk': "stk' = \<lparr>stk_effects = rev es, stk_report = Some \<lparr>edr_outcome =
          effects_outcome (map pe_record (rev es)), edr_records = map pe_record (rev es)\<rparr>\<rparr>"
        using assms None n l by (auto simp: dispose_stack_def Let_def)
      have "\<forall>e\<in>set (rev es). settled (pe_record e) \<and>
          (er_status (pe_record e) = EffDisposed \<longrightarrow> pending_key (pe_disposer e) = None)"
        using dispose_effects_settled l Done by fastforce
      with num show ?thesis unfolding stack_ok_def stk' by simp
    next
      case (Cut m)
      with assms None n l have "stk_report stk' = None" by (auto simp: dispose_stack_def Let_def)
      with num show ?thesis unfolding stack_ok_def by simp
    qed
  next
    case (Some report)
    with assms ok show ?thesis by (auto simp: dispose_stack_def)
  qed
qed

section \<open>What reaches the world\<close>

text \<open>
  \<open>trace\<close> reads from the world the sequence of plugin disposers that were started; the runtime extends
  it by each disposer it is asked to run, and reading the clock does not.
\<close>

definition traced :: "('x, 'w) runtime \<Rightarrow> ('w \<Rightarrow> 'x list) \<Rightarrow> bool" where
  "traced rt trace \<longleftrightarrow>
     (\<forall>w. trace (snd (rt_now rt w)) = trace w) \<and>
     (\<forall>x d w. trace (snd (rt_dispose rt x d w)) = trace w @ [x])"

fun external :: "'x disposer \<Rightarrow> 'x list" where
  "external (External x) = [x]"
| "external (Registration k r) = []"

definition scope_timeout :: dispose_error where
  "scope_timeout = DisposeError_new ''scope_dispose_timeout''
     ''scope disposal deadline expired before this effect could run''"

definition skipped :: "effect_record \<Rightarrow> bool" where
  "skipped r \<longleftrightarrow> er_status r = EffFailed \<and> er_cleanup_error r = Some scope_timeout"

lemma dispose_effect_trace:
  assumes "traced rt trace" "dispose_effect rt per tot st e cx = (e', cx', res)"
  shows "trace (cx_world cx') = trace (cx_world cx) @ external (pe_disposer e) \<or>
         skipped (pe_record e') \<and> trace (cx_world cx') = trace (cx_world cx)"
proof -
  obtain now w where n: "rt_now rt (cx_world cx) = (now, w)" by (cases "rt_now rt (cx_world cx)")
  then have "trace w = trace (cx_world cx)" using assms(1) unfolding traced_def by (metis snd_conv)
  moreover have "trace w2 = trace w1 @ [x]" if "rt_dispose rt x d w1 = (r, w2)" for x d w1 r w2
    using that assms(1) unfolding traced_def by (metis snd_conv)
  ultimately show ?thesis
    using assms(2) n
    by (cases "pe_disposer e")
      (auto simp: dispose_effect_def elapsed_def Let_def skipped_def fail_record_def scope_timeout_def
        split: prod.splits if_splits)
qed

lemma dispose_effects_trace:
  assumes "traced rt trace" "dispose_effects rt per tot st es cx = (es', cx', Done ())"
  shows "\<exists>ran. length ran = length es \<and>
    trace (cx_world cx') = trace (cx_world cx) @
      concat (map (\<lambda>(b, e). if b then external (pe_disposer e) else []) (zip ran es)) \<and>
    (\<forall>n < length es. \<not> ran ! n \<longrightarrow> skipped (pe_record (es' ! n)))"
  using assms(2)
proof (induction es arbitrary: cx es')
  case (Cons e es)
  obtain e1 cx1 r1 where e: "dispose_effect rt per tot st e cx = (e1, cx1, r1)"
    by (cases "dispose_effect rt per tot st e cx") auto
  obtain es2 where l: "dispose_effects rt per tot st es cx1 = (es2, cx', Done ())" and es': "es' = e1 # es2"
    using Cons.prems e by (auto split: outcome.splits prod.splits)
  from Cons.IH [OF l] obtain ran where ran: "length ran = length es"
    "trace (cx_world cx') = trace (cx_world cx1) @
      concat (map (\<lambda>(b, e). if b then external (pe_disposer e) else []) (zip ran es))"
    "\<forall>n < length es. \<not> ran ! n \<longrightarrow> skipped (pe_record (es2 ! n))" by blast
  have all: "\<forall>n < length (e # es). \<not> (b # ran) ! n \<longrightarrow> skipped (pe_record (es' ! n))"
    if "\<not> b \<longrightarrow> skipped (pe_record e1)" for b
    using that ran(3) es' by (auto simp: less_Suc_eq_0_disj)
  from dispose_effect_trace [OF assms(1) e] show ?case
  proof
    assume t: "trace (cx_world cx1) = trace (cx_world cx) @ external (pe_disposer e)"
    with ran all [of True] show ?thesis by (intro exI [of _ "True # ran"]) simp
  next
    assume t: "skipped (pe_record e1) \<and> trace (cx_world cx1) = trace (cx_world cx)"
    with ran all [of False] show ?thesis by (intro exI [of _ "False # ran"]) simp
  qed
qed simp

end
