(* ===== verification/Scope_Snapshot.thy ===== *)
theory Scope_Snapshot
  imports Effect_Stack
begin

text \<open>
  \<open>ScopeSnapshot\<close> of \<^verbatim>\<open>lifecycle.rs\<close>: its lifecycle state, its children, and \<open>quiesce_and_dispose\<close>.
  Snapshots are shared by \<open>Arc\<close>, so they live in a heap: an address is an index into \<open>hp_scopes\<close>, and
  \<open>Arc::ptr_eq\<close> is equality of addresses. The host's diagnostic sink is the log of the heap.

  Every snapshot has a disposal gate. The operations modelled here run one after the other, so a gate is
  taken only by the operation that runs; \<open>held\<close> lists the gates it holds. Waiting for a gate one holds
  oneself never ends: the value is \<open>None\<close>. The recursion over children has a fuel argument, and running
  out of it is \<open>None\<close> too; \<open>dispose_scope\<close> supplies one more than there are snapshots, which is enough
  whenever the children form no cycle (\<open>dispose_returns\<close> in \<open>Scope_Runs\<close>).
\<close>

type_synonym u8 = "8 word"

section \<open>Lifecycle states\<close>

datatype scope_lifecycle_state = SlReady | SlActive | SlQuiescing | SlDisposing | SlDisposed | SlFailed

fun as_u8 :: "scope_lifecycle_state \<Rightarrow> u8" where
  "as_u8 SlReady = 0"
| "as_u8 SlActive = 1"
| "as_u8 SlQuiescing = 2"
| "as_u8 SlDisposing = 3"
| "as_u8 SlDisposed = 4"
| "as_u8 SlFailed = 5"

definition from_u8 :: "u8 \<Rightarrow> scope_lifecycle_state" where
  "from_u8 v =
     (if v = 0 then SlReady else if v = 1 then SlActive else if v = 2 then SlQuiescing
      else if v = 3 then SlDisposing else if v = 4 then SlDisposed else SlFailed)"

datatype scope_dispose_report =
  ScopeDisposeReport
    (sdr_scope: scope_identity)
    (sdr_outcome: dispose_outcome)
    (sdr_quiesce_timed_out: bool)
    (sdr_remaining_tasks: nat)
    (sdr_remaining_leases: nat)
    (sdr_child_reports: "scope_dispose_report list")
    (sdr_plugin_reports: "(plugin_instance_identity \<times> effect_dispose_report) list")

datatype scope_state_error =
  InvalidTransition scope_lifecycle_state scope_lifecycle_state
| InvalidChildParent

record 'x activated_plugin =
  apl_instance :: plugin_instance_identity
  apl_effects :: "'x effect_stack"

record ('x, 'h) scope_snapshot =
  sn_identity :: scope_identity
  sn_plan :: activation_plan
  sn_registry :: "'h registry"
  sn_cancelled :: bool
  sn_tasks :: task_tracker
  sn_plugins :: "'x activated_plugin list"
  sn_children :: "nat list"
  sn_state :: u8
  sn_report :: "scope_dispose_report option"

definition ScopeSnapshot_new_ready ::
  "scope_identity \<Rightarrow> activation_plan \<Rightarrow> 'h registry \<Rightarrow> task_tracker \<Rightarrow> 'x activated_plugin list \<Rightarrow>
   ('x, 'h) scope_snapshot" where
  "ScopeSnapshot_new_ready identity plan rg tasks plugins =
     \<lparr>sn_identity = identity, sn_plan = plan, sn_registry = rg, sn_cancelled = False, sn_tasks = tasks,
      sn_plugins = plugins, sn_children = [], sn_state = as_u8 SlReady, sn_report = None\<rparr>"

definition state_of :: "('x, 'h) scope_snapshot \<Rightarrow> scope_lifecycle_state" where
  "state_of s = from_u8 (sn_state s)"

section \<open>The heap of snapshots\<close>

record ('x, 'h, 'w) heap =
  hp_scopes :: "('x, 'h) scope_snapshot list"
  hp_log :: "extension_diagnostic list"
  hp_world :: 'w

definition scope_at :: "('x, 'h, 'w) heap \<Rightarrow> nat \<Rightarrow> ('x, 'h) scope_snapshot" where
  "scope_at h a = hp_scopes h ! a"

definition upd ::
  "nat \<Rightarrow> (('x, 'h) scope_snapshot \<Rightarrow> ('x, 'h) scope_snapshot) \<Rightarrow> ('x, 'h, 'w) heap \<Rightarrow> ('x, 'h, 'w) heap" where
  "upd a f h = h\<lparr>hp_scopes := (hp_scopes h)[a := f (scope_at h a)]\<rparr>"

definition hp_emit :: "extension_diagnostic \<Rightarrow> ('x, 'h, 'w) heap \<Rightarrow> ('x, 'h, 'w) heap" where
  "hp_emit d h = h\<lparr>hp_log := hp_log h @ [d]\<rparr>"

definition scope_diagnostic ::
  "diagnostic_code \<Rightarrow> diagnostic_severity \<Rightarrow> scope_identity \<Rightarrow> plugin_id option \<Rightarrow> string \<Rightarrow> extension_diagnostic" where
  "scope_diagnostic code sev identity plugin message =
     lifecycle_diagnostic code sev (Some identity) plugin None message"

section \<open>Transitions of one snapshot\<close>

definition mark_active :: "nat \<Rightarrow> ('x, 'h, 'w) heap \<Rightarrow> (scope_state_error, ('x, 'h, 'w) heap) result" where
  "mark_active a h =
     (if sn_state (scope_at h a) = as_u8 SlReady
      then Ok (upd a (\<lambda>s. s\<lparr>sn_state := as_u8 SlActive, sn_registry := open_routing (sn_registry s)\<rparr>) h)
      else Err (InvalidTransition SlReady (state_of (scope_at h a))))"

definition attach_child :: "nat \<Rightarrow> nat \<Rightarrow> ('x, 'h, 'w) heap \<Rightarrow> (scope_state_error, ('x, 'h, 'w) heap) result" where
  "attach_child a child h =
     (let st = state_of (scope_at h a) in
      if st \<notin> {SlReady, SlActive} then Err (InvalidTransition SlActive st)
      else if si_parent_id (sn_identity (scope_at h child)) \<noteq> Some (si_id (sn_identity (scope_at h a)))
      then Err InvalidChildParent
      else Ok (upd a (\<lambda>s. s\<lparr>sn_children := sn_children s @ [child]\<rparr>) h))"

definition replace_child :: "nat \<Rightarrow> nat option \<Rightarrow> nat \<Rightarrow> ('x, 'h, 'w) heap \<Rightarrow> ('x, 'h, 'w) heap" where
  "replace_child a expected candidate h =
     upd a (\<lambda>s. s\<lparr>sn_children :=
       (case expected of None \<Rightarrow> sn_children s | Some e \<Rightarrow> remove1 e (sn_children s)) @ [candidate]\<rparr>) h"

definition remove_child :: "nat \<Rightarrow> nat \<Rightarrow> ('x, 'h, 'w) heap \<Rightarrow> ('x, 'h, 'w) heap" where
  "remove_child a expected h = upd a (\<lambda>s. s\<lparr>sn_children := removeAll expected (sn_children s)\<rparr>) h"

text \<open>\<open>begin_quiesce\<close>: the compare-and-exchange loop ends at its first turn when no other thread writes.\<close>

definition begin_quiesce :: "nat \<Rightarrow> ('x, 'h, 'w) heap \<Rightarrow> ('x, 'h, 'w) heap" where
  "begin_quiesce a h =
     (let s = scope_at h a;
          h1 = (if state_of s \<in> {SlReady, SlActive}
                then hp_emit (scope_diagnostic DQuiesceStarted SevInfo (sn_identity s) None ''scope quiesce started'')
                       (upd a (\<lambda>s. s\<lparr>sn_state := as_u8 SlQuiescing\<rparr>) h)
                else h)
      in upd a (\<lambda>s. s\<lparr>sn_registry := close_routing (sn_registry s), sn_tasks := close_tasks (sn_tasks s),
                     sn_cancelled := True\<rparr>) h1)"

section \<open>Disposal\<close>

definition set_counts :: "nat \<times> nat \<Rightarrow> ('x, 'h) scope_snapshot \<Rightarrow> ('x, 'h) scope_snapshot" where
  "set_counts lt s = s\<lparr>sn_registry := (sn_registry s)\<lparr>rg_leases := fst lt\<rparr>, sn_tasks := (sn_tasks s)\<lparr>tt_len := snd lt\<rparr>\<rparr>"

definition counts :: "('x, 'h) scope_snapshot \<Rightarrow> nat \<times> nat" where
  "counts s = (rg_leases (sn_registry s), tt_len (sn_tasks s))"

text \<open>Reading the counts of a scope: other threads may have moved them.\<close>

definition observe :: "('x, 'w) runtime \<Rightarrow> nat \<Rightarrow> ('x, 'h, 'w) heap \<Rightarrow> ('x, 'h, 'w) heap" where
  "observe rt a h =
     (let (lt, w) = rt_progress rt (counts (scope_at h a)) (hp_world h)
      in (upd a (set_counts lt) h)\<lparr>hp_world := w\<rparr>)"

definition hp_now :: "('x, 'w) runtime \<Rightarrow> ('x, 'h, 'w) heap \<Rightarrow> duration \<times> ('x, 'h, 'w) heap" where
  "hp_now rt h = (let (now, w) = rt_now rt (hp_world h) in (now, h\<lparr>hp_world := w\<rparr>))"

definition timed_out_scope_report :: "('x, 'h) scope_snapshot \<Rightarrow> scope_dispose_report" where
  "timed_out_scope_report s =
     ScopeDisposeReport (sn_identity s) Failed True (tt_len (sn_tasks s)) (rg_leases (sn_registry s)) [] []"

text \<open>The loop over children; \<open>rec\<close> is the disposal of one child.\<close>

fun dispose_children ::
  "(lifecycle_deadlines \<Rightarrow> nat \<Rightarrow> ('x, 'h, 'w) heap \<Rightarrow> (('x, 'h, 'w) heap \<times> scope_dispose_report outcome) option) \<Rightarrow>
   ('x, 'w) runtime \<Rightarrow> lifecycle_deadlines \<Rightarrow> duration \<Rightarrow> nat list \<Rightarrow> ('x, 'h, 'w) heap \<Rightarrow>
   (('x, 'h, 'w) heap \<times> (scope_dispose_report list \<times> bool) outcome) option" where
  "dispose_children rec rt dl started [] h = Some (h, Done ([], False))"
| "dispose_children rec rt dl started (c # cs) h =
     (let (now, h1) = hp_now rt h;
          next = (\<lambda>h2 report timed.
            case dispose_children rec rt dl started cs h2 of
              None \<Rightarrow> None
            | Some (h3, Cut n) \<Rightarrow> Some (h3, Cut n)
            | Some (h3, Done (rs, b)) \<Rightarrow> Some (h3, Done (report # rs, timed \<or> b)));
          timed_out = (\<lambda>h2. let h3 = observe rt c h2 in next h3 (timed_out_scope_report (scope_at h3 c)) True)
      in if now - started > dl_scope dl then timed_out h1
         else
           (case rec (dl\<lparr>dl_scope := dl_scope dl - (now - started)\<rparr>) c h1 of
              None \<Rightarrow> None
            | Some (h2, Done report) \<Rightarrow> next h2 report False
            | Some (h2, Cut 0) \<Rightarrow> timed_out h2
            | Some (h2, Cut (Suc n)) \<Rightarrow> Some (h2, Cut n)))"

text \<open>The loop over plugins, in the order they are visited.\<close>

fun dispose_plugins ::
  "('x, 'w) runtime \<Rightarrow> lifecycle_deadlines \<Rightarrow> duration \<Rightarrow> 'x activated_plugin list \<Rightarrow> ('h, 'w) context_state \<Rightarrow>
   'x activated_plugin list \<times> ('h, 'w) context_state \<times>
   (plugin_instance_identity \<times> effect_dispose_report) list outcome" where
  "dispose_plugins rt dl started [] cx = ([], cx, Done [])"
| "dispose_plugins rt dl started (p # ps) cx =
     (let (t, cx1) = elapsed rt started cx;
          (stk, cx2, res) = dispose_stack rt (dl_effect dl) (dl_scope dl - t) (apl_effects p) cx1;
          p' = p\<lparr>apl_effects := stk\<rparr>
      in case res of
           Cut n \<Rightarrow> (p' # ps, cx2, Cut n)
         | Done report \<Rightarrow>
             (let (ps', cx3, rest) = dispose_plugins rt dl started ps cx2
              in (p' # ps', cx3,
                  case rest of Cut n \<Rightarrow> Cut n | Done rs \<Rightarrow> Done ((apl_instance p, report) # rs))))"

definition scope_context :: "('x, 'h, 'w) heap \<Rightarrow> nat \<Rightarrow> ('h, 'w) context_state" where
  "scope_context h a =
     \<lparr>cx_registry = sn_registry (scope_at h a), cx_log = hp_log h, cx_world = hp_world h\<rparr>"

definition with_context ::
  "nat \<Rightarrow> 'x activated_plugin list \<Rightarrow> ('h, 'w) context_state \<Rightarrow> ('x, 'h, 'w) heap \<Rightarrow> ('x, 'h, 'w) heap" where
  "with_context a plugins cx h =
     (upd a (\<lambda>s. s\<lparr>sn_registry := cx_registry cx, sn_plugins := plugins\<rparr>) h)
       \<lparr>hp_log := cx_log cx, hp_world := cx_world cx\<rparr>"

text \<open>The end of \<open>quiesce_and_dispose\<close>: the verdict, the final state and the stored report.\<close>

definition finish_dispose ::
  "('x, 'w) runtime \<Rightarrow> nat \<Rightarrow> bool \<Rightarrow> bool \<Rightarrow> scope_dispose_report list \<Rightarrow>
   (plugin_instance_identity \<times> effect_dispose_report) list \<Rightarrow> ('x, 'h, 'w) heap \<Rightarrow>
   ('x, 'h, 'w) heap \<times> scope_dispose_report" where
  "finish_dispose rt a quiesce_timed_out child_timeout child_reports plugin_reports h =
     (let failed = quiesce_timed_out \<or> child_timeout \<or>
            list_ex (\<lambda>r. sdr_outcome r = Failed) child_reports \<or>
            list_ex (\<lambda>r. edr_outcome (snd r) = Failed) plugin_reports;
          identity = sn_identity (scope_at h a);
          h1 = upd a (\<lambda>s. s\<lparr>sn_state := as_u8 (if failed then SlFailed else SlDisposed)\<rparr>) h;
          h2 = hp_emit (scope_diagnostic (if failed then DScopeDisposeFailed else DScopeDisposed)
                 (if failed then SevError else SevInfo) identity None
                 (if failed then ''scope disposal completed with leaked resources'' else ''scope disposed'')) h1;
          h3 = observe rt a h2;
          report = ScopeDisposeReport identity (if failed then Failed else Disposed)
            (quiesce_timed_out \<or> child_timeout) (tt_len (sn_tasks (scope_at h3 a)))
            (rg_leases (sn_registry (scope_at h3 a))) child_reports plugin_reports
      in (upd a (\<lambda>s. s\<lparr>sn_report := Some report\<rparr>) h3, report))"

text \<open>\<open>timeout(quiesce_limit, join!(wait_for_idle(), tasks.wait()))\<close>.\<close>

definition drain :: "('x, 'w) runtime \<Rightarrow> lifecycle_deadlines \<Rightarrow> nat \<Rightarrow> ('x, 'h, 'w) heap \<Rightarrow> ('x, 'h, 'w) heap \<times> bool outcome" where
  "drain rt dl a h =
     (let (res, lt, w) = rt_drain rt (min (dl_quiesce dl) (dl_scope dl)) (counts (scope_at h a)) (hp_world h)
      in ((upd a (set_counts lt) h)\<lparr>hp_world := w\<rparr>, res))"

definition enter_disposing :: "nat \<Rightarrow> bool \<Rightarrow> ('x, 'h, 'w) heap \<Rightarrow> ('x, 'h, 'w) heap" where
  "enter_disposing a timed_out h =
     upd a (\<lambda>s. s\<lparr>sn_state := as_u8 SlDisposing\<rparr>)
       (if timed_out
        then hp_emit (scope_diagnostic DQuiesceTimeout SevError (sn_identity (scope_at h a)) None
               ''scope tasks or leases did not drain before the quiesce deadline'') h
        else h)"

fun quiesce_and_dispose ::
  "('x, 'w) runtime \<Rightarrow> nat \<Rightarrow> nat list \<Rightarrow> lifecycle_deadlines \<Rightarrow> nat \<Rightarrow> ('x, 'h, 'w) heap \<Rightarrow>
   (('x, 'h, 'w) heap \<times> scope_dispose_report outcome) option" where
  "quiesce_and_dispose rt 0 held dl a h = None"
| "quiesce_and_dispose rt (Suc fuel) held dl a h =
     (if a \<in> set held then None
      else
        (case sn_report (scope_at h a) of
           Some report \<Rightarrow> Some (h, Done report)
         | None \<Rightarrow>
             (let (started, h1) = hp_now rt (begin_quiesce a h) in
              case drain rt dl a h1 of
                (h2, Cut n) \<Rightarrow> Some (h2, Cut n)
              | (h2, Done timed) \<Rightarrow>
                  (let h3 = enter_disposing a timed h2 in
                   case dispose_children (quiesce_and_dispose rt fuel (a # held)) rt dl started
                          (rev (sn_children (scope_at h3 a))) h3 of
                     None \<Rightarrow> None
                   | Some (h4, Cut n) \<Rightarrow> Some (h4, Cut n)
                   | Some (h4, Done (child_reports, child_timeout)) \<Rightarrow>
                       (let (ps, cx, res) = dispose_plugins rt dl started
                              (rev (sn_plugins (scope_at h4 a))) (scope_context h4 a);
                            h5 = with_context a (rev ps) cx h4
                        in case res of
                             Cut n \<Rightarrow> Some (h5, Cut n)
                           | Done plugin_reports \<Rightarrow>
                               (let (h6, report) =
                                  finish_dispose rt a timed child_timeout child_reports plugin_reports h5
                                in Some (h6, Done report)))))))"

definition dispose_scope ::
  "('x, 'w) runtime \<Rightarrow> lifecycle_deadlines \<Rightarrow> nat \<Rightarrow> ('x, 'h, 'w) heap \<Rightarrow>
   (('x, 'h, 'w) heap \<times> scope_dispose_report outcome) option" where
  "dispose_scope rt dl a h = quiesce_and_dispose rt (Suc (length (hp_scopes h))) [] dl a h"

section \<open>The codec of states\<close>

lemma from_as_u8 [simp]: "from_u8 (as_u8 st) = st"
  by (cases st) (simp_all add: from_u8_def)

lemma as_u8_inj [simp]: "as_u8 a = as_u8 b \<longleftrightarrow> a = b"
  by (metis from_as_u8)

lemma as_u8_bound: "as_u8 st \<le> 5"
  by (cases st) (simp_all add: word_le_nat_alt)

lemmas as_u8_simps = as_u8.simps
declare as_u8.simps [simp del]

text \<open>How far a scope has come.\<close>

fun lifecycle_stage :: "scope_lifecycle_state \<Rightarrow> nat" where
  "lifecycle_stage SlReady = 0"
| "lifecycle_stage SlActive = 1"
| "lifecycle_stage SlQuiescing = 2"
| "lifecycle_stage SlDisposing = 3"
| "lifecycle_stage SlDisposed = 4"
| "lifecycle_stage SlFailed = 4"

section \<open>The invariant of a snapshot\<close>

definition disposers :: "'x activated_plugin list \<Rightarrow> 'x disposer set" where
  "disposers ps = (\<Union>p\<in>set ps. pe_disposer ` set (stk_effects (apl_effects p)))"

definition plugin_reports_of :: "'x activated_plugin list \<Rightarrow> (plugin_instance_identity \<times> effect_dispose_report) list" where
  "plugin_reports_of ps = map (\<lambda>p. (apl_instance p, the (stk_report (apl_effects p)))) ps"

definition report_ok :: "('x, 'h) scope_snapshot \<Rightarrow> scope_dispose_report \<Rightarrow> bool" where
  "report_ok s r \<longleftrightarrow>
     sdr_scope r = sn_identity s \<and>
     (sdr_outcome r = Disposed \<longleftrightarrow> state_of s = SlDisposed) \<and>
     (\<forall>p\<in>set (sn_plugins s). stk_report (apl_effects p) \<noteq> None) \<and>
     sdr_plugin_reports r = rev (plugin_reports_of (sn_plugins s)) \<and>
     (sdr_outcome r = Disposed \<longleftrightarrow>
        \<not> sdr_quiesce_timed_out r \<and> (\<forall>c\<in>set (sdr_child_reports r). sdr_outcome c = Disposed) \<and>
        (\<forall>p\<in>set (sdr_plugin_reports r). edr_outcome (snd p) = Disposed))"

definition scope_ok :: "('x, 'h) scope_snapshot \<Rightarrow> bool" where
  "scope_ok s \<longleftrightarrow>
     (\<exists>st. sn_state s = as_u8 st) \<and>
     rg_scope (sn_registry s) = sn_identity s \<and>
     (rg_routing (sn_registry s) \<longleftrightarrow> state_of s = SlActive) \<and>
     (tt_accepting (sn_tasks s) \<longleftrightarrow> state_of s \<in> {SlReady, SlActive}) \<and>
     (state_of s \<notin> {SlReady, SlActive} \<longrightarrow> sn_cancelled s) \<and>
     (sn_report s = None \<longleftrightarrow> state_of s \<notin> {SlDisposed, SlFailed}) \<and>
     (\<forall>r. sn_report s = Some r \<longrightarrow> report_ok s r) \<and>
     (\<forall>p\<in>set (sn_plugins s). stack_ok (apl_instance p) (apl_effects p)) \<and>
     accounted (sn_registry s) (disposers (sn_plugins s))"

text \<open>What no operation undoes.\<close>

definition scope_evolves :: "('x, 'h) scope_snapshot \<Rightarrow> ('x, 'h) scope_snapshot \<Rightarrow> bool" where
  "scope_evolves s s' \<longleftrightarrow>
     sn_identity s' = sn_identity s \<and> sn_plan s' = sn_plan s \<and>
     map apl_instance (sn_plugins s') = map apl_instance (sn_plugins s) \<and>
     lifecycle_stage (state_of s) \<le> lifecycle_stage (state_of s') \<and>
     (sn_report s \<noteq> None \<longrightarrow>
        sn_report s' = sn_report s \<and> sn_state s' = sn_state s \<and> sn_plugins s' = sn_plugins s) \<and>
     (\<forall>k c i. slot_owner (sn_registry s') k c = Some i \<longrightarrow> slot_owner (sn_registry s) k c = Some i)"

lemma scope_evolves_refl [simp]: "scope_evolves s s"
  by (simp add: scope_evolves_def)

lemma scope_evolves_trans: "scope_evolves a b \<Longrightarrow> scope_evolves b c \<Longrightarrow> scope_evolves a c"
  by (auto simp: scope_evolves_def intro: le_trans)

section \<open>Steps of the heap\<close>

text \<open>The same snapshot, up to its counts of leases and tasks.\<close>

definition recount :: "('x, 'h) scope_snapshot \<Rightarrow> ('x, 'h) scope_snapshot \<Rightarrow> bool" where
  "recount s s' \<longleftrightarrow> (\<exists>lt. s' = set_counts lt s)"

lemma set_counts_compose [simp]: "set_counts lt (set_counts lt' s) = set_counts lt s"
  by (simp add: set_counts_def)

lemma recount_refl [simp]: "recount s s"
  unfolding recount_def by (rule exI [of _ "counts s"]) (simp add: set_counts_def counts_def)

lemma recount_set_counts [simp]: "recount s (set_counts lt s)"
  unfolding recount_def by (rule exI) (rule refl)

lemma recount_trans: "recount a b \<Longrightarrow> recount b c \<Longrightarrow> recount a c"
  by (metis recount_def set_counts_compose)

text \<open>
  A step keeps the invariant of every snapshot and moves none backwards; it leaves the snapshots whose
  gate is held, their counts apart, and all lists of children as they are.
\<close>

definition heap_step :: "nat set \<Rightarrow> ('x, 'h, 'w) heap \<Rightarrow> ('x, 'h, 'w) heap \<Rightarrow> bool" where
  "heap_step held h h' \<longleftrightarrow>
     length (hp_scopes h') = length (hp_scopes h) \<and>
     (\<forall>b < length (hp_scopes h).
        (scope_ok (scope_at h b) \<longrightarrow> scope_ok (scope_at h' b) \<and> scope_evolves (scope_at h b) (scope_at h' b)) \<and>
        (b \<in> held \<longrightarrow> recount (scope_at h b) (scope_at h' b))) \<and>
     (\<forall>b. sn_children (scope_at h' b) = sn_children (scope_at h b))"

lemma heap_step_refl [simp]: "heap_step held h h"
  by (simp add: heap_step_def)

lemma heap_step_trans: "heap_step held a b \<Longrightarrow> heap_step held b c \<Longrightarrow> heap_step held a c"
  unfolding heap_step_def by (auto intro: scope_evolves_trans recount_trans)

lemma heap_step_mono: "heap_step held a b \<Longrightarrow> held' \<subseteq> held \<Longrightarrow> heap_step held' a b"
  unfolding heap_step_def by blast

lemma heap_step_length: "heap_step held h h' \<Longrightarrow> length (hp_scopes h') = length (hp_scopes h)"
  by (simp add: heap_step_def)

lemma scope_at_upd:
  "scope_at (upd a f h) b = (if a = b \<and> a < length (hp_scopes h) then f (scope_at h a) else scope_at h b)"
  by (cases "a = b"; cases "a < length (hp_scopes h)") (simp_all add: scope_at_def upd_def list_update_beyond)

lemma heap_sel [simp]:
  "length (hp_scopes (upd a f h)) = length (hp_scopes h)"
  "hp_scopes (hp_emit d h) = hp_scopes h"
  "scope_at (hp_emit d h) b = scope_at h b"
  "scope_at (h\<lparr>hp_world := w\<rparr>) b = scope_at h b"
  "scope_at (h\<lparr>hp_log := l\<rparr>) b = scope_at h b"
  by (simp_all add: upd_def hp_emit_def scope_at_def)

lemma heap_step_same_scopes: "hp_scopes h' = hp_scopes h \<Longrightarrow> heap_step held h h'"
  by (simp add: heap_step_def scope_at_def)

lemma heap_step_upd:
  assumes "a \<notin> held"
    and "a < length (hp_scopes h) \<Longrightarrow> sn_children (f (scope_at h a)) = sn_children (scope_at h a)"
    and "a < length (hp_scopes h) \<Longrightarrow> scope_ok (scope_at h a) \<Longrightarrow>
           scope_ok (f (scope_at h a)) \<and> scope_evolves (scope_at h a) (f (scope_at h a))"
  shows "heap_step held h (upd a f h)"
  using assms by (auto simp: heap_step_def scope_at_upd)

lemma hp_now_scopes: "hp_now rt h = (t, h') \<Longrightarrow> hp_scopes h' = hp_scopes h"
  by (auto simp: hp_now_def split: prod.splits)

section \<open>The parts of a disposal\<close>

lemma state_of_upd [simp]: "state_of (s\<lparr>sn_state := as_u8 st\<rparr>) = st"
  by (simp add: state_of_def)

lemma state_of_other [simp]:
  "state_of (s\<lparr>sn_registry := rg\<rparr>) = state_of s" "state_of (s\<lparr>sn_tasks := t\<rparr>) = state_of s"
  "state_of (s\<lparr>sn_cancelled := c\<rparr>) = state_of s" "state_of (s\<lparr>sn_plugins := ps\<rparr>) = state_of s"
  "state_of (s\<lparr>sn_report := r\<rparr>) = state_of s" "state_of (s\<lparr>sn_children := cs\<rparr>) = state_of s"
  by (simp_all add: state_of_def)

lemma report_ok_other [simp]:
  "report_ok (s\<lparr>sn_registry := rg\<rparr>) = report_ok s" "report_ok (s\<lparr>sn_tasks := t\<rparr>) = report_ok s"
  "report_ok (s\<lparr>sn_cancelled := c\<rparr>) = report_ok s" "report_ok (s\<lparr>sn_report := r\<rparr>) = report_ok s"
  "report_ok (s\<lparr>sn_children := cs\<rparr>) = report_ok s"
  by (auto simp: report_ok_def fun_eq_iff)

lemma slot_owner_leases [simp]: "slot_owner (rg\<lparr>rg_leases := n\<rparr>) k c = slot_owner rg k c"
  by (cases k) (simp_all add: owner_defs)

lemma accounted_cong: "(\<And>k c. slot_owner rg' k c = slot_owner rg k c) \<Longrightarrow> accounted rg' ds = accounted rg ds"
  by (simp add: accounted_def)

lemma accounted_other [simp]:
  "accounted (rg\<lparr>rg_leases := n\<rparr>) ds = accounted rg ds" "accounted (close_routing rg) ds = accounted rg ds"
  "accounted (open_routing rg) ds = accounted rg ds"
  by (rule accounted_cong; simp)+

lemma set_counts_ok [simp]: "scope_ok (set_counts lt s) = scope_ok s" "scope_evolves s (set_counts lt s)"
  "sn_children (set_counts lt s) = sn_children s" "state_of (set_counts lt s) = state_of s"
  "sn_report (set_counts lt s) = sn_report s"
  by (auto simp: set_counts_def scope_ok_def scope_evolves_def)

definition quiesced :: "('x, 'h) scope_snapshot \<Rightarrow> ('x, 'h) scope_snapshot" where
  "quiesced s =
     (if state_of s \<in> {SlReady, SlActive} then s\<lparr>sn_state := as_u8 SlQuiescing\<rparr> else s)
       \<lparr>sn_registry := close_routing (sn_registry s), sn_tasks := close_tasks (sn_tasks s), sn_cancelled := True\<rparr>"

lemma begin_quiesce_scopes: "hp_scopes (begin_quiesce a h) = hp_scopes (upd a quiesced h)"
  by (cases "a < length (hp_scopes h)")
    (simp_all add: begin_quiesce_def Let_def upd_def quiesced_def scope_at_def hp_emit_def list_update_beyond)

lemma scope_at_begin_quiesce:
  "scope_at (begin_quiesce a h) b =
     (if a = b \<and> a < length (hp_scopes h) then quiesced (scope_at h a) else scope_at h b)"
  using begin_quiesce_scopes [of a h] scope_at_upd [of a quiesced h b] by (simp add: scope_at_def)

lemma quiesced_ok:
  "scope_ok s \<Longrightarrow> scope_ok (quiesced s) \<and> scope_evolves s (quiesced s)"
  "state_of (quiesced s) \<notin> {SlReady, SlActive}" "sn_children (quiesced s) = sn_children s"
  "sn_report (quiesced s) = sn_report s"
  by (auto simp: quiesced_def scope_ok_def scope_evolves_def close_routing_def close_tasks_def
      accounted_other [unfolded close_routing_def] routing_owner [unfolded close_routing_def])

lemma heap_step_begin_quiesce: "a \<notin> held \<Longrightarrow> heap_step held h (begin_quiesce a h)"
proof -
  assume a: "a \<notin> held"
  have "heap_step held h (upd a quiesced h)" using a quiesced_ok by (intro heap_step_upd) auto
  moreover have "heap_step held (upd a quiesced h) (begin_quiesce a h)"
    by (rule heap_step_same_scopes) (rule begin_quiesce_scopes)
  ultimately show ?thesis by (rule heap_step_trans)
qed

lemma heap_step_set_counts: "heap_step held h ((upd a (set_counts lt) h)\<lparr>hp_world := w\<rparr>)"
  by (simp add: heap_step_def scope_at_upd)

lemma drain_eq:
  assumes "drain rt dl a h = (h', res)"
  obtains lt w where "h' = (upd a (set_counts lt) h)\<lparr>hp_world := w\<rparr>"
  using assms by (auto simp: drain_def split: prod.splits)

lemma heap_step_drain:
  assumes "drain rt dl a h = (h', res)"
  shows "heap_step held h h'" "state_of (scope_at h' a) = state_of (scope_at h a)"
    "sn_report (scope_at h' a) = sn_report (scope_at h a)"
  by (rule drain_eq [OF assms]; simp add: heap_step_set_counts scope_at_upd)+

lemma observe_eq:
  obtains lt w where "observe rt a h = (upd a (set_counts lt) h)\<lparr>hp_world := w\<rparr>"
  by (cases "rt_progress rt (counts (scope_at h a)) (hp_world h)") (auto simp: observe_def)

lemma heap_step_observe: "heap_step held h (observe rt a h)"
  by (rule observe_eq [of rt a h]) (simp add: heap_step_set_counts)

definition disposing :: "('x, 'h) scope_snapshot \<Rightarrow> ('x, 'h) scope_snapshot" where
  "disposing s = s\<lparr>sn_state := as_u8 SlDisposing\<rparr>"

lemma enter_disposing_scopes: "hp_scopes (enter_disposing a t h) = hp_scopes (upd a disposing h)"
  by (simp add: enter_disposing_def upd_def disposing_def scope_at_def hp_emit_def)

lemma disposing_ok:
  "scope_ok s \<Longrightarrow> state_of s \<notin> {SlReady, SlActive} \<Longrightarrow> sn_report s = None \<Longrightarrow>
     scope_ok (disposing s) \<and> scope_evolves s (disposing s)"
  by (cases "state_of s") (auto simp: disposing_def scope_ok_def scope_evolves_def)

lemma heap_step_enter_disposing:
  assumes "a \<notin> held"
    and "a < length (hp_scopes h) \<Longrightarrow> state_of (scope_at h a) \<notin> {SlReady, SlActive} \<and> sn_report (scope_at h a) = None"
  shows "heap_step held h (enter_disposing a t h)"
proof -
  have "heap_step held h (upd a disposing h)"
    using assms disposing_ok by (intro heap_step_upd) (auto simp: disposing_def)
  moreover have "heap_step held (upd a disposing h) (enter_disposing a t h)"
    by (rule heap_step_same_scopes) (rule enter_disposing_scopes)
  ultimately show ?thesis by (rule heap_step_trans)
qed

lemma scope_at_enter_disposing:
  "a < length (hp_scopes h) \<Longrightarrow> scope_at (enter_disposing a t h) a = disposing (scope_at h a)"
  using enter_disposing_scopes [of a t h] scope_at_upd [of a disposing h a] by (simp add: scope_at_def)

section \<open>The loop over plugins\<close>

lemma dispose_plugins_ConsE:
  assumes "dispose_plugins rt dl st (p # ps) cx = (ps', cx', res)"
  obtains (cut) t cx1 stk n where "elapsed rt st cx = (t, cx1)"
      "dispose_stack rt (dl_effect dl) (dl_scope dl - t) (apl_effects p) cx1 = (stk, cx', Cut n)"
      "ps' = p\<lparr>apl_effects := stk\<rparr> # ps" "res = Cut n"
  | (go) t cx1 stk cx2 report ps2 rest where "elapsed rt st cx = (t, cx1)"
      "dispose_stack rt (dl_effect dl) (dl_scope dl - t) (apl_effects p) cx1 = (stk, cx2, Done report)"
      "dispose_plugins rt dl st ps cx2 = (ps2, cx', rest)" "ps' = p\<lparr>apl_effects := stk\<rparr> # ps2"
      "res = (case rest of Cut n \<Rightarrow> Cut n | Done rs \<Rightarrow> Done ((apl_instance p, report) # rs))"
  using assms by (auto simp: Let_def split: prod.splits outcome.splits)

lemma disposers_Cons [simp]:
  "disposers (p # ps) = pe_disposer ` set (stk_effects (apl_effects p)) \<union> disposers ps"
  by (simp add: disposers_def)

lemma disposers_rev [simp]: "disposers (rev ps) = disposers ps"
  by (simp add: disposers_def)

lemma dispose_plugins_step:
  "dispose_plugins rt dl st ps cx = (ps', cx', res) \<Longrightarrow>
     registry_frame (cx_registry cx) (cx_registry cx') \<and>
     map apl_instance ps' = map apl_instance ps \<and>
     ((\<forall>p\<in>set ps. stack_ok (apl_instance p) (apl_effects p)) \<longrightarrow>
      (\<forall>p\<in>set ps'. stack_ok (apl_instance p) (apl_effects p))) \<and>
     (\<forall>rs. res = Done rs \<longrightarrow> (\<forall>p\<in>set ps'. stk_report (apl_effects p) \<noteq> None) \<and> rs = plugin_reports_of ps')"
proof (induction ps arbitrary: cx ps' res)
  case (Cons p ps)
  from Cons.prems show ?case
  proof (cases rule: dispose_plugins_ConsE)
    case (cut t cx1 stk n)
    with dispose_stack_step(1,3) [OF cut(2)] elapsed_registry [OF cut(1)] show ?thesis by simp
  next
    case (go t cx1 stk cx2 report ps2 rest)
    note one = dispose_stack_step(1) [OF go(2)] dispose_stack_step(3) [OF go(2)]
      dispose_stack_step(4) [OF go(2) refl] elapsed_registry [OF go(1)]
    from one go Cons.IH [OF go(3)] show ?thesis
      by (auto simp: plugin_reports_of_def intro: registry_frame_trans split: outcome.splits)
  qed
qed (simp add: plugin_reports_of_def)

lemma dispose_plugins_accounted:
  "dispose_plugins rt dl st ps cx = (ps', cx', res) \<Longrightarrow> accounted (cx_registry cx) (disposers ps \<union> A) \<Longrightarrow>
     accounted (cx_registry cx') (disposers ps' \<union> A)"
proof (induction ps arbitrary: cx ps' res A)
  case (Cons p ps)
  from Cons.prems(1) show ?case
  proof (cases rule: dispose_plugins_ConsE)
    case (cut t cx1 stk n)
    with dispose_stack_step(2) [OF cut(2), of "disposers ps \<union> A"] elapsed_registry [OF cut(1)] Cons.prems(2)
    show ?thesis by (simp add: Un_assoc)
  next
    case (go t cx1 stk cx2 report ps2 rest)
    with dispose_stack_step(2) [OF go(2), of "disposers ps \<union> A"] elapsed_registry [OF go(1)] Cons.prems(2)
      Cons.IH [OF go(3), of "pe_disposer ` set (stk_effects stk) \<union> A"]
    show ?thesis by (simp add: Un_ac)
  qed
qed simp

lemma plugins_step_ok:
  assumes "dispose_plugins rt dl st (rev (sn_plugins s)) cx = (ps, cx', res)"
    and "cx_registry cx = sn_registry s" "sn_report s = None" "scope_ok s"
  shows "scope_ok (s\<lparr>sn_registry := cx_registry cx', sn_plugins := rev ps\<rparr>) \<and>
         scope_evolves s (s\<lparr>sn_registry := cx_registry cx', sn_plugins := rev ps\<rparr>)"
proof -
  note step = dispose_plugins_step [OF assms(1)]
  have "accounted (cx_registry cx') (disposers ps \<union> {})"
    by (rule dispose_plugins_accounted [OF assms(1)]) (use assms(2,4) in \<open>simp add: scope_ok_def\<close>)
  moreover have "registry_frame (sn_registry s) (cx_registry cx')" using step assms(2) by simp
  moreover have "map apl_instance (rev ps) = map apl_instance (sn_plugins s)"
    using step by (simp add: rev_map [symmetric])
  moreover have "\<forall>p\<in>set ps. stack_ok (apl_instance p) (apl_effects p)"
    using step assms(4) by (simp add: scope_ok_def)
  ultimately show ?thesis
    using assms(3,4) by (auto simp: scope_ok_def scope_evolves_def registry_frame_def)
qed

section \<open>The verdict\<close>

definition verdict :: "scope_dispose_report \<Rightarrow> nat \<times> nat \<Rightarrow> ('x, 'h) scope_snapshot \<Rightarrow> ('x, 'h) scope_snapshot" where
  "verdict r lt s =
     (set_counts lt (s\<lparr>sn_state := as_u8 (if sdr_outcome r = Failed then SlFailed else SlDisposed)\<rparr>))
       \<lparr>sn_report := Some r\<rparr>"

lemma finish_dispose_upd:
  assumes "finish_dispose rt a qt ct crs prs h = (h', r)"
  obtains lt where "hp_scopes h' = hp_scopes (upd a (verdict r lt) h)"
    and "sdr_scope r = sn_identity (scope_at h a)" "sdr_child_reports r = crs" "sdr_plugin_reports r = prs"
    and "sdr_quiesce_timed_out r = (qt \<or> ct)"
    and "sdr_outcome r = Disposed \<longleftrightarrow> \<not> (qt \<or> ct) \<and> (\<forall>c\<in>set crs. sdr_outcome c = Disposed) \<and>
           (\<forall>p\<in>set prs. edr_outcome (snd p) = Disposed)"
proof -
  define failed where "failed \<longleftrightarrow> qt \<or> ct \<or> list_ex (\<lambda>r. sdr_outcome r = Failed) crs \<or>
    list_ex (\<lambda>r. edr_outcome (snd r) = Failed) prs"
  define h1 where "h1 = upd a (\<lambda>s. s\<lparr>sn_state := as_u8 (if failed then SlFailed else SlDisposed)\<rparr>) h"
  define h2 where "h2 = hp_emit (scope_diagnostic (if failed then DScopeDisposeFailed else DScopeDisposed)
    (if failed then SevError else SevInfo) (sn_identity (scope_at h a)) None
    (if failed then ''scope disposal completed with leaked resources'' else ''scope disposed'')) h1"
  obtain lt w where o: "observe rt a h2 = (upd a (set_counts lt) h2)\<lparr>hp_world := w\<rparr>" by (rule observe_eq)
  have out: "failed \<longleftrightarrow> \<not> (\<not> (qt \<or> ct) \<and> (\<forall>c\<in>set crs. sdr_outcome c = Disposed) \<and>
      (\<forall>p\<in>set prs. edr_outcome (snd p) = Disposed))"
  proof -
    have ne: "x = Failed \<longleftrightarrow> x \<noteq> Disposed" for x by (cases x) simp_all
    show ?thesis unfolding failed_def list_ex_iff ne by blast
  qed
  have r: "r = ScopeDisposeReport (sn_identity (scope_at h a)) (if failed then Failed else Disposed) (qt \<or> ct)
      (tt_len (sn_tasks (scope_at (observe rt a h2) a))) (rg_leases (sn_registry (scope_at (observe rt a h2) a))) crs prs"
    and h': "h' = upd a (\<lambda>s. s\<lparr>sn_report := Some r\<rparr>) (observe rt a h2)"
    using assms unfolding finish_dispose_def Let_def failed_def [symmetric] h1_def [symmetric] h2_def [symmetric]
    by auto
  have "hp_scopes h' = hp_scopes (upd a (verdict r lt) h)"
  proof (cases "a < length (hp_scopes h)")
    case True
    then show ?thesis
      unfolding h' o verdict_def using r
      by (simp add: upd_def h2_def h1_def hp_emit_def scope_at_def)
  next
    case False
    then show ?thesis unfolding h' o by (simp add: upd_def h2_def h1_def hp_emit_def list_update_beyond)
  qed
  moreover have "sdr_outcome r = Disposed \<longleftrightarrow> \<not> failed" by (simp add: r)
  ultimately show ?thesis using that [of lt] out by (simp add: r)
qed

lemma verdict_ok:
  assumes "scope_ok s" "state_of s = SlDisposing" "sdr_scope r = sn_identity s"
    and "\<forall>p\<in>set (sn_plugins s). stk_report (apl_effects p) \<noteq> None"
    and "sdr_plugin_reports r = rev (plugin_reports_of (sn_plugins s))"
    and "sdr_outcome r = Disposed \<longleftrightarrow>
        \<not> sdr_quiesce_timed_out r \<and> (\<forall>c\<in>set (sdr_child_reports r). sdr_outcome c = Disposed) \<and>
        (\<forall>p\<in>set (sdr_plugin_reports r). edr_outcome (snd p) = Disposed)"
  shows "scope_ok (verdict r lt s) \<and> scope_evolves s (verdict r lt s)"
proof -
  let ?t = "s\<lparr>sn_state := as_u8 (if sdr_outcome r = Failed then SlFailed else SlDisposed)\<rparr>"
  have st: "state_of (verdict r lt s) = (if sdr_outcome r = Failed then SlFailed else SlDisposed)"
    by (simp add: verdict_def)
  have sel: "sn_plugins (verdict r lt s) = sn_plugins s" "sn_identity (verdict r lt s) = sn_identity s"
    "sn_plan (verdict r lt s) = sn_plan s" "sn_report (verdict r lt s) = Some r"
    "sn_registry (verdict r lt s) = (sn_registry s)\<lparr>rg_leases := fst lt\<rparr>"
    "sn_tasks (verdict r lt s) = (sn_tasks s)\<lparr>tt_len := snd lt\<rparr>" "sn_cancelled (verdict r lt s) = sn_cancelled s"
    by (simp_all add: verdict_def set_counts_def)
  have "\<exists>u. sn_state (verdict r lt s) = as_u8 u" by (auto simp: verdict_def set_counts_def)
  moreover have "report_ok (verdict r lt s) r"
    unfolding report_ok_def sel st using assms(3-6) by (cases "sdr_outcome r") auto
  ultimately show ?thesis
    using assms(1,2) by (auto simp: scope_ok_def scope_evolves_def sel st)
qed

section \<open>The whole disposal\<close>

section \<open>The whole disposal\<close>

lemma dispose_children_step:
  assumes rec: "\<And>dl c h h' res. c \<in> set cs \<Longrightarrow> P h \<Longrightarrow> rec dl c h = Some (h', res) \<Longrightarrow> heap_step held h h'"
    and keep: "\<And>h h'. P h \<Longrightarrow> heap_step held h h' \<Longrightarrow> P h'"
  shows "dispose_children rec rt dl st cs h = Some (h', res) \<Longrightarrow> P h \<Longrightarrow> heap_step held h h'"
  using rec
proof (induction cs arbitrary: h res)
  case (Cons c cs)
  obtain now h1 where n: "hp_now rt h = (now, h1)" by (cases "hp_now rt h")
  have s1: "heap_step held h h1" by (rule heap_step_same_scopes [OF hp_now_scopes [OF n]])
  have P1: "P h1" by (rule keep [OF Cons.prems(2) s1])
  define go where "go = (\<lambda>h2 report timed. case dispose_children rec rt dl st cs h2 of
      None \<Rightarrow> None | Some (h3, Cut n) \<Rightarrow> Some (h3, Cut n)
    | Some (h3, Done (rs, b)) \<Rightarrow> Some (h3, Done (report # rs, timed \<or> b)))"
  have IH: "heap_step held h2 h'" if "dispose_children rec rt dl st cs h2 = Some (h', res')" "P h2" for h2 res'
    by (rule Cons.IH [OF that]) (rule Cons.prems(3), simp_all)
  have go: "heap_step held h2 h'" if "go h2 r b = Some (h', res')" "P h2" for h2 r b res'
    using that unfolding go_def by (auto split: option.splits outcome.splits dest: IH)
  have obs: "heap_step held h2 h'" if "(let h3 = observe rt c h2 in go h3 (timed_out_scope_report (scope_at h3 c)) True) = Some (h', res')" "P h2" for h2 res'
    using that heap_step_observe go keep heap_step_trans unfolding Let_def by blast
  show ?case
  proof (cases "dl_scope dl < now - st")
    case True
    then have "(let h3 = observe rt c h1 in go h3 (timed_out_scope_report (scope_at h3 c)) True) = Some (h', res)"
      using Cons.prems(1) n by (simp add: go_def Let_def)
    with obs P1 s1 show ?thesis using heap_step_trans by blast
  next
    case False
    let ?r = "rec (dl\<lparr>dl_scope := dl_scope dl - (now - st)\<rparr>) c h1"
    obtain h2 o2 where r: "?r = Some (h2, o2)"
      using Cons.prems(1) n False by (cases ?r) auto
    have s2: "heap_step held h1 h2" by (rule Cons.prems(3) [OF _ P1 r]) simp
    have P2: "P h2" by (rule keep [OF P1 s2])
    from Cons.prems(1) n False r have e: "(case o2 of Done report \<Rightarrow> go h2 report False
        | Cut 0 \<Rightarrow> (let h3 = observe rt c h2 in go h3 (timed_out_scope_report (scope_at h3 c)) True)
        | Cut (Suc n) \<Rightarrow> Some (h2, Cut n)) = Some (h', res)"
      by (simp add: go_def Let_def split: outcome.splits nat.splits)
    have "heap_step held h2 h'"
    proof (cases o2)
      case (Done report)
      with e go P2 show ?thesis by auto
    next
      case (Cut m)
      with e obs P2 show ?thesis by (cases m) auto
    qed
    with s1 s2 show ?thesis using heap_step_trans by blast
  qed
qed simp

text \<open>The five ways a disposal ends: known, or dropped at one of its three waits, or complete.\<close>

lemma quiesce_cases:
  assumes "quiesce_and_dispose rt (Suc fuel) held dl a h = Some (h', res)"
  obtains (known) report where "sn_report (scope_at h a) = Some report" "h' = h" "res = Done report"
  | (drain_cut) started h1 n where "a \<notin> set held" "sn_report (scope_at h a) = None"
      "hp_now rt (begin_quiesce a h) = (started, h1)" "drain rt dl a h1 = (h', Cut n)" "res = Cut n"
  | (child_cut) started h1 h2 timed n where "a \<notin> set held" "sn_report (scope_at h a) = None"
      "hp_now rt (begin_quiesce a h) = (started, h1)" "drain rt dl a h1 = (h2, Done timed)"
      "dispose_children (quiesce_and_dispose rt fuel (a # held)) rt dl started
         (rev (sn_children (scope_at (enter_disposing a timed h2) a))) (enter_disposing a timed h2) = Some (h', Cut n)"
      "res = Cut n"
  | (plugin_cut) started h1 h2 timed h4 crs ct ps cx n where "a \<notin> set held" "sn_report (scope_at h a) = None"
      "hp_now rt (begin_quiesce a h) = (started, h1)" "drain rt dl a h1 = (h2, Done timed)"
      "dispose_children (quiesce_and_dispose rt fuel (a # held)) rt dl started
         (rev (sn_children (scope_at (enter_disposing a timed h2) a))) (enter_disposing a timed h2) = Some (h4, Done (crs, ct))"
      "dispose_plugins rt dl started (rev (sn_plugins (scope_at h4 a))) (scope_context h4 a) = (ps, cx, Cut n)"
      "h' = with_context a (rev ps) cx h4" "res = Cut n"
  | (complete) started h1 h2 timed h4 crs ct ps cx prs report where "a \<notin> set held" "sn_report (scope_at h a) = None"
      "hp_now rt (begin_quiesce a h) = (started, h1)" "drain rt dl a h1 = (h2, Done timed)"
      "dispose_children (quiesce_and_dispose rt fuel (a # held)) rt dl started
         (rev (sn_children (scope_at (enter_disposing a timed h2) a))) (enter_disposing a timed h2) = Some (h4, Done (crs, ct))"
      "dispose_plugins rt dl started (rev (sn_plugins (scope_at h4 a))) (scope_context h4 a) = (ps, cx, Done prs)"
      "finish_dispose rt a timed ct crs prs (with_context a (rev ps) cx h4) = (h', report)" "res = Done report"
proof (cases "sn_report (scope_at h a)")
  case (Some r)
  with assms known show ?thesis by (auto split: if_splits)
next
  case None
  have a: "a \<notin> set held" using assms by (auto split: if_splits)
  obtain started h1 where n: "hp_now rt (begin_quiesce a h) = (started, h1)" by (cases "hp_now rt (begin_quiesce a h)")
  obtain h2 o2 where d: "drain rt dl a h1 = (h2, o2)" by (cases "drain rt dl a h1")
  show ?thesis
  proof (cases o2)
    case (Cut m)
    with assms None a n d drain_cut show ?thesis by auto
  next
    case (Done timed)
    let ?h3 = "enter_disposing a timed h2"
    let ?c = "dispose_children (quiesce_and_dispose rt fuel (a # held)) rt dl started (rev (sn_children (scope_at ?h3 a))) ?h3"
    obtain h4 o4 where c: "?c = Some (h4, o4)" using assms None a n d Done by (cases ?c) (auto simp: Let_def)
    show ?thesis
    proof (cases o4)
      case (Cut m)
      with assms None a n d Done c child_cut show ?thesis by (auto simp: Let_def)
    next
      case done4: (Done p)
      obtain crs ct where p: "p = (crs, ct)" by (cases p)
      obtain ps cx o5 where pl: "dispose_plugins rt dl started (rev (sn_plugins (scope_at h4 a))) (scope_context h4 a) = (ps, cx, o5)"
        by (cases "dispose_plugins rt dl started (rev (sn_plugins (scope_at h4 a))) (scope_context h4 a)") auto
      show ?thesis
      proof (cases o5)
        case (Cut m)
        with assms None a n d Done c done4 p pl plugin_cut show ?thesis by (auto simp: Let_def)
      next
        case (Done prs)
        obtain h6 r where fin: "finish_dispose rt a timed ct crs prs (with_context a (rev ps) cx h4) = (h6, r)"
          by (cases "finish_dispose rt a timed ct crs prs (with_context a (rev ps) cx h4)")
        with assms None a n d \<open>o2 = Done timed\<close> c done4 p pl Done have "h' = h6" "res = Done r" by (auto simp: Let_def)
        with complete [OF a None n d [unfolded \<open>o2 = Done timed\<close>] c [unfolded done4 p] pl [unfolded Done]] fin
        show ?thesis by simp
      qed
    qed
  qed
qed

lemma begin_phase:
  assumes "a \<notin> held" "sn_report (scope_at h a) = None"
    and "hp_now rt (begin_quiesce a h) = (started, h1)" "drain rt dl a h1 = (h2, res)"
  shows "heap_step held h h2"
    and "a < length (hp_scopes h2) \<Longrightarrow>
           state_of (scope_at h2 a) \<notin> {SlReady, SlActive} \<and> sn_report (scope_at h2 a) = None"
proof -
  have 1: "heap_step held h (begin_quiesce a h)" using assms(1) by (rule heap_step_begin_quiesce)
  have 2: "heap_step held (begin_quiesce a h) h1" by (rule heap_step_same_scopes [OF hp_now_scopes [OF assms(3)]])
  note d = heap_step_drain [OF assms(4)]
  show "heap_step held h h2" using 1 2 d(1) heap_step_trans by blast
  then have len: "length (hp_scopes h2) = length (hp_scopes h)" by (rule heap_step_length)
  have s1: "scope_at h1 a = scope_at (begin_quiesce a h) a"
    using hp_now_scopes [OF assms(3)] by (simp add: scope_at_def)
  show "state_of (scope_at h2 a) \<notin> {SlReady, SlActive} \<and> sn_report (scope_at h2 a) = None"
    if "a < length (hp_scopes h2)"
    using that assms(2) quiesced_ok(2,4) [of "scope_at h a"] by (simp add: d(2,3) s1 scope_at_begin_quiesce len)
qed

lemma recount_sel:
  "recount s s' \<Longrightarrow> state_of s' = state_of s \<and> sn_report s' = sn_report s \<and> sn_plugins s' = sn_plugins s \<and>
     sn_children s' = sn_children s \<and> sn_identity s' = sn_identity s"
  by (auto simp: recount_def set_counts_def)

text \<open>Up to the end of the loop over children.\<close>

lemma child_phase:
  assumes "a \<notin> held" "sn_report (scope_at h a) = None"
    and "hp_now rt (begin_quiesce a h) = (started, h1)" "drain rt dl a h1 = (h2, Done timed)"
    and c: "heap_step (insert a held) (enter_disposing a timed h2) h4"
  shows "heap_step held h h4"
    and "a < length (hp_scopes h4) \<Longrightarrow>
           state_of (scope_at h4 a) = SlDisposing \<and> sn_report (scope_at h4 a) = None"
proof -
  let ?h3 = "enter_disposing a timed h2"
  note b = begin_phase [OF assms(1-4)]
  have 3: "heap_step held h2 ?h3" using assms(1) b(2) by (rule heap_step_enter_disposing)
  have 4: "heap_step held ?h3 h4" using c by (rule heap_step_mono) blast
  show "heap_step held h h4" using b(1) 3 4 heap_step_trans by blast
  show "state_of (scope_at h4 a) = SlDisposing \<and> sn_report (scope_at h4 a) = None" if "a < length (hp_scopes h4)"
  proof -
    have len: "a < length (hp_scopes h2)" "a < length (hp_scopes ?h3)"
      using that heap_step_length [OF 3] heap_step_length [OF 4] by simp_all
    have "recount (scope_at ?h3 a) (scope_at h4 a)" using c len(2) by (simp add: heap_step_def)
    with scope_at_enter_disposing [OF len(1)] b(2) [OF len(1)] show ?thesis
      by (simp add: recount_sel disposing_def)
  qed
qed

lemma with_context_step:
  assumes "a \<notin> held" "dispose_plugins rt dl st (rev (sn_plugins (scope_at h a))) (scope_context h a) = (ps, cx, res)"
    and "a < length (hp_scopes h) \<Longrightarrow> sn_report (scope_at h a) = None"
  shows "heap_step held h (with_context a (rev ps) cx h)"
    and "a < length (hp_scopes h) \<Longrightarrow> scope_at (with_context a (rev ps) cx h) a =
           (scope_at h a)\<lparr>sn_registry := cx_registry cx, sn_plugins := rev ps\<rparr>"
proof -
  let ?f = "\<lambda>s. s\<lparr>sn_registry := cx_registry cx, sn_plugins := rev ps\<rparr>"
  have "heap_step held h (upd a ?f h)"
  proof (rule heap_step_upd [OF assms(1)])
    assume len: "a < length (hp_scopes h)" and ok: "scope_ok (scope_at h a)"
    show "scope_ok (?f (scope_at h a)) \<and> scope_evolves (scope_at h a) (?f (scope_at h a))"
      by (rule plugins_step_ok [OF assms(2) _ assms(3) [OF len] ok]) (simp add: scope_context_def)
  qed simp
  moreover have "heap_step held (upd a ?f h) (with_context a (rev ps) cx h)"
    by (rule heap_step_same_scopes) (simp add: with_context_def)
  ultimately show "heap_step held h (with_context a (rev ps) cx h)" by (rule heap_step_trans)
  show "a < length (hp_scopes h) \<Longrightarrow> scope_at (with_context a (rev ps) cx h) a = ?f (scope_at h a)"
    by (simp add: with_context_def scope_at_upd)
qed

lemma finish_step:
  assumes "a \<notin> held" "dispose_plugins rt dl st (rev (sn_plugins (scope_at h a))) (scope_context h a) = (ps, cx, Done prs)"
    and st: "a < length (hp_scopes h) \<Longrightarrow> state_of (scope_at h a) = SlDisposing \<and> sn_report (scope_at h a) = None"
    and fin: "finish_dispose rt a qt ct crs prs (with_context a (rev ps) cx h) = (h', r)"
  shows "heap_step held h h'" and "a < length (hp_scopes h) \<Longrightarrow> sn_report (scope_at h' a) = Some r"
proof -
  let ?h5 = "with_context a (rev ps) cx h"
  have w: "heap_step held h ?h5" by (rule with_context_step [OF assms(1,2)]) (use st in simp)
  have w2: "scope_at ?h5 a = (scope_at h a)\<lparr>sn_registry := cx_registry cx, sn_plugins := rev ps\<rparr>"
    if "a < length (hp_scopes h)"
    by (rule with_context_step [OF assms(1,2)]) (use st that in simp_all)
  obtain lt where f: "hp_scopes h' = hp_scopes (upd a (verdict r lt) ?h5)"
    "sdr_scope r = sn_identity (scope_at ?h5 a)" "sdr_child_reports r = crs" "sdr_plugin_reports r = prs"
    "sdr_quiesce_timed_out r = (qt \<or> ct)"
    "sdr_outcome r = Disposed \<longleftrightarrow> \<not> (qt \<or> ct) \<and> (\<forall>c\<in>set crs. sdr_outcome c = Disposed) \<and>
       (\<forall>p\<in>set prs. edr_outcome (snd p) = Disposed)"
    by (rule finish_dispose_upd [OF fin])
  have len: "length (hp_scopes ?h5) = length (hp_scopes h)" using w by (rule heap_step_length)
  have prs: "prs = plugin_reports_of ps" "\<forall>p\<in>set ps. stk_report (apl_effects p) \<noteq> None"
    using dispose_plugins_step [OF assms(2)] by auto
  have "heap_step held ?h5 (upd a (verdict r lt) ?h5)"
  proof (rule heap_step_upd [OF assms(1)])
    show "sn_children (verdict r lt (scope_at ?h5 a)) = sn_children (scope_at ?h5 a)"
      by (simp add: verdict_def)
    assume "a < length (hp_scopes ?h5)" and ok: "scope_ok (scope_at ?h5 a)"
    then have l: "a < length (hp_scopes h)" using len by simp
    show "scope_ok (verdict r lt (scope_at ?h5 a)) \<and> scope_evolves (scope_at ?h5 a) (verdict r lt (scope_at ?h5 a))"
    proof (rule verdict_ok [OF ok])
      show "state_of (scope_at ?h5 a) = SlDisposing" using w2 [OF l] st [OF l] by simp
      show "\<forall>p\<in>set (sn_plugins (scope_at ?h5 a)). stk_report (apl_effects p) \<noteq> None"
        using w2 [OF l] prs(2) by simp
      show "sdr_plugin_reports r = rev (plugin_reports_of (sn_plugins (scope_at ?h5 a)))"
        using w2 [OF l] prs(1) f(4) by (simp add: plugin_reports_of_def rev_map)
      show "sdr_outcome r = Disposed \<longleftrightarrow>
        \<not> sdr_quiesce_timed_out r \<and> (\<forall>c\<in>set (sdr_child_reports r). sdr_outcome c = Disposed) \<and>
        (\<forall>p\<in>set (sdr_plugin_reports r). edr_outcome (snd p) = Disposed)"
        using f(3-6) by blast
    qed (rule f(2))
  qed
  moreover have "heap_step held (upd a (verdict r lt) ?h5) h'" by (rule heap_step_same_scopes) (rule f(1))
  ultimately show "heap_step held h h'" using w heap_step_trans by blast
  show "a < length (hp_scopes h) \<Longrightarrow> sn_report (scope_at h' a) = Some r"
    using f(1) scope_at_upd [of a "verdict r lt" ?h5 a] len by (simp add: scope_at_def verdict_def)
qed

text \<open>
  What a disposal can reach: from outside \<open>H\<close> the children lead into \<open>H\<close> only through gates that are
  held, so the snapshots of \<open>H\<close> are left alone.
\<close>

definition apart :: "nat set \<Rightarrow> nat list \<Rightarrow> ('x, 'h, 'w) heap \<Rightarrow> bool" where
  "apart H held h \<longleftrightarrow> set held \<subseteq> H \<and> (\<forall>x. x \<notin> H \<longrightarrow> set (sn_children (scope_at h x)) \<inter> H \<subseteq> set held)"

lemma apart_step: "apart H held h \<Longrightarrow> heap_step H' h h' \<Longrightarrow> apart H held h'"
  by (simp add: apart_def heap_step_def)

lemma apart_insert: "apart H held h \<Longrightarrow> apart (insert a H) (a # held) h"
  unfolding apart_def by auto

lemma quiesce_frame:
  fixes h h' :: "('x, 'h, 'w) heap"
  assumes "quiesce_and_dispose rt fuel held dl a h = Some (h', res)" "apart H held h" "a \<notin> H \<or> a \<in> set held"
  shows "heap_step H h h' \<and>
     (\<forall>report. res = Done report \<longrightarrow> a < length (hp_scopes h) \<longrightarrow> sn_report (scope_at h' a) = Some report)"
  using assms
proof (induction fuel arbitrary: held dl a h h' res H)
  case (Suc fuel)
  have kids: "heap_step (insert a H) (enter_disposing a t g) g'"
    if "dispose_children (quiesce_and_dispose rt fuel (a # held)) rt dl started
          (rev (sn_children (scope_at (enter_disposing a t g) a))) (enter_disposing a t g) = Some (g', r)"
      and "heap_step H h (enter_disposing a t g)" "a \<notin> H"
    for g g' :: "('x, 'h, 'w) heap" and t started r
  proof (rule dispose_children_step [where P = "apart (insert a H) (a # held)", OF _ _ that(1)])
    show ap: "apart (insert a H) (a # held) (enter_disposing a t g)"
      using that(2) Suc.prems(2) by (intro apart_insert) (rule apart_step)
    fix dl' c r' and g1 g2 :: "('x, 'h, 'w) heap"
    assume "c \<in> set (rev (sn_children (scope_at (enter_disposing a t g) a)))" "apart (insert a H) (a # held) g1"
      and q: "quiesce_and_dispose rt fuel (a # held) dl' c g1 = Some (g2, r')"
    then have "c \<notin> insert a H \<or> c \<in> set (a # held)"
      using that(2,3) Suc.prems(2) unfolding apart_def heap_step_def by auto
    with Suc.IH [OF q \<open>apart (insert a H) (a # held) g1\<close>] show "heap_step (insert a H) g1 g2" by blast
  qed (rule apart_step)
  from Suc.prems(1) show ?case
  proof (cases rule: quiesce_cases)
    case (drain_cut started h1 n)
    with begin_phase(1) [of a H] Suc.prems(3) show ?thesis by auto
  next
    case (child_cut started h1 h2 timed n)
    have a: "a \<notin> H" using child_cut(1) Suc.prems(3) by blast
    note b = begin_phase [OF a child_cut(2-4)]
    have s3: "heap_step H h (enter_disposing a timed h2)"
      using b(1) heap_step_enter_disposing [OF a b(2)] heap_step_trans by blast
    from child_phase(1) [OF a child_cut(2-4) kids [OF child_cut(5) s3 a]] child_cut(6) show ?thesis by simp
  next
    case (plugin_cut started h1 h2 timed h4 crs ct ps cx n)
    have a: "a \<notin> H" using plugin_cut(1) Suc.prems(3) by blast
    note b = begin_phase [OF a plugin_cut(2-4)]
    have s3: "heap_step H h (enter_disposing a timed h2)"
      using b(1) heap_step_enter_disposing [OF a b(2)] heap_step_trans by blast
    note p = child_phase [OF a plugin_cut(2-4) kids [OF plugin_cut(5) s3 a]]
    have "heap_step H h4 h'" unfolding plugin_cut(7)
      by (rule with_context_step [OF a plugin_cut(6)]) (use p(2) in simp)
    with p(1) plugin_cut(8) show ?thesis using heap_step_trans by auto
  next
    case (complete started h1 h2 timed h4 crs ct ps cx prs report)
    have a: "a \<notin> H" using complete(1) Suc.prems(3) by blast
    note b = begin_phase [OF a complete(2-4)]
    have s3: "heap_step H h (enter_disposing a timed h2)"
      using b(1) heap_step_enter_disposing [OF a b(2)] heap_step_trans by blast
    note p = child_phase [OF a complete(2-4) kids [OF complete(5) s3 a]]
    note q = finish_step [OF a complete(6) p(2) complete(7)]
    have "heap_step H h h'" using p(1) q(1) heap_step_trans by blast
    moreover have "length (hp_scopes h4) = length (hp_scopes h)" using p(1) by (rule heap_step_length)
    ultimately show ?thesis using q(2) complete(8) by simp
  qed auto
qed simp

lemma quiesce_step:
  fixes h h' :: "('x, 'h, 'w) heap"
  assumes "quiesce_and_dispose rt fuel held dl a h = Some (h', res)"
  shows "heap_step (set held) h h' \<and>
     (\<forall>report. res = Done report \<longrightarrow> a < length (hp_scopes h) \<longrightarrow> sn_report (scope_at h' a) = Some report)"
  by (rule quiesce_frame [OF assms]) (auto simp: apart_def)

text \<open>However a disposal ends, the scope no longer accepts work.\<close>

lemma quiesce_closes:
  fixes h h' :: "('x, 'h, 'w) heap"
  assumes "quiesce_and_dispose rt fuel held dl a h = Some (h', res)" "a < length (hp_scopes h)" "scope_ok (scope_at h a)"
  shows "state_of (scope_at h' a) \<notin> {SlReady, SlActive}"
proof -
  obtain fuel' where fuel: "fuel = Suc fuel'" using assms(1) by (cases fuel) auto
  have rec: "heap_step (insert a (set held)) g g'"
    if "quiesce_and_dispose rt fuel' (a # held) d b g = Some (g', r)" for d b r and g g' :: "('x, 'h, 'w) heap"
    using quiesce_step [OF that] by simp
  have step: "heap_step (set held) h h'" using quiesce_step [OF assms(1)] by simp
  then have len: "length (hp_scopes h') = length (hp_scopes h)" by (rule heap_step_length)
  have ok: "scope_ok (scope_at h' a)" using step assms(2,3) by (simp add: heap_step_def)
  from assms(1) [unfolded fuel] show ?thesis
  proof (cases rule: quiesce_cases)
    case (known report)
    with assms(3) show ?thesis by (auto simp: scope_ok_def)
  next
    case (drain_cut started h1 n)
    with begin_phase(2) [OF drain_cut(1-4)] len assms(2) show ?thesis by simp
  next
    case (child_cut started h1 h2 timed n)
    have "heap_step (insert a (set held)) (enter_disposing a timed h2) h'"
      by (rule dispose_children_step [where P = "\<lambda>_. True", OF _ _ child_cut(5)]) (use rec in auto)
    from child_phase(2) [OF child_cut(1-4) this] len assms(2) show ?thesis by simp
  next
    case (plugin_cut started h1 h2 timed h4 crs ct ps cx n)
    have c: "heap_step (insert a (set held)) (enter_disposing a timed h2) h4"
      by (rule dispose_children_step [where P = "\<lambda>_. True", OF _ _ plugin_cut(5)]) (use rec in auto)
    note p = child_phase [OF plugin_cut(1-4) c]
    have l: "a < length (hp_scopes h4)" using heap_step_length [OF p(1)] assms(2) by simp
    have "scope_at h' a = (scope_at h4 a)\<lparr>sn_registry := cx_registry cx, sn_plugins := rev ps\<rparr>"
      unfolding plugin_cut(7) by (rule with_context_step(2) [OF plugin_cut(1,6)]) (use p(2) l in simp_all)
    with p(2) [OF l] show ?thesis by simp
  next
    case (complete started h1 h2 timed h4 crs ct ps cx prs report)
    with quiesce_step [OF assms(1)] assms(2) have "sn_report (scope_at h' a) = Some report" by simp
    with ok show ?thesis by (auto simp: scope_ok_def)
  qed
qed

section \<open>Disposal returns\<close>

text \<open>The children form no cycle: a rank falls from every snapshot to its children.\<close>

definition ranked :: "(nat \<Rightarrow> nat) \<Rightarrow> ('x, 'h, 'w) heap \<Rightarrow> bool" where
  "ranked rank h \<longleftrightarrow>
     (\<forall>b < length (hp_scopes h). \<forall>c \<in> set (sn_children (scope_at h b)). c < length (hp_scopes h) \<and> rank c < rank b)"

lemma ranked_step: "ranked rank h \<Longrightarrow> heap_step held h h' \<Longrightarrow> ranked rank h'"
  by (simp add: ranked_def heap_step_def)

lemma dispose_children_returns:
  assumes rec: "\<And>dl c g. c \<in> set cs \<Longrightarrow> P g \<Longrightarrow> \<exists>g' r. rec dl c g = Some (g', r) \<and> P g'"
    and now: "\<And>g g' t. P g \<Longrightarrow> hp_now rt g = (t, g') \<Longrightarrow> P g'"
    and obs: "\<And>g c. P g \<Longrightarrow> P (observe rt c g)"
    and "P h"
  shows "\<exists>h' res. dispose_children rec rt dl st cs h = Some (h', res)"
  using rec \<open>P h\<close>
proof (induction cs arbitrary: h)
  case (Cons c cs)
  obtain t h1 where n: "hp_now rt h = (t, h1)" by (cases "hp_now rt h")
  have P1: "P h1" by (rule now [OF Cons.prems(2) n])
  have go: "\<exists>h' res. dispose_children rec rt dl st cs g = Some (h', res)" if "P g" for g
    using Cons.IH [OF _ that] Cons.prems(1) by simp
  obtain h2 r where r: "rec (dl\<lparr>dl_scope := dl_scope dl - (t - st)\<rparr>) c h1 = Some (h2, r)" and P2: "P h2"
    using Cons.prems(1) [OF _ P1] by fastforce
  obtain h3 r3 where 3: "dispose_children rec rt dl st cs (observe rt c h1) = Some (h3, r3)"
    using go [OF obs [OF P1]] by blast
  obtain h4 r4 where 4: "dispose_children rec rt dl st cs (observe rt c h2) = Some (h4, r4)"
    using go [OF obs [OF P2]] by blast
  obtain h5 r5 where 5: "dispose_children rec rt dl st cs h2 = Some (h5, r5)" using go [OF P2] by blast
  show ?case
    using n r 3 4 5 by (cases r) (auto simp: Let_def split: outcome.splits nat.splits)
qed simp

lemma quiesce_returns:
  fixes h :: "('x, 'h, 'w) heap"
  assumes "rank a < fuel" "a < length (hp_scopes h)" "ranked rank h" "\<forall>b \<in> set held. rank a < rank b"
  shows "\<exists>h' res. quiesce_and_dispose rt fuel held dl a h = Some (h', res)"
  using assms
proof (induction fuel arbitrary: held dl a h)
  case (Suc fuel)
  have a: "a \<notin> set held" using Suc.prems(4) by auto
  show ?case
  proof (cases "sn_report (scope_at h a)")
    case None
    obtain started h1 where n: "hp_now rt (begin_quiesce a h) = (started, h1)" by (cases "hp_now rt (begin_quiesce a h)")
    obtain h2 o2 where d: "drain rt dl a h1 = (h2, o2)" by (cases "drain rt dl a h1")
    note b = begin_phase [OF a None n d]
    show ?thesis
    proof (cases o2)
      case (Cut m)
      with a None n d show ?thesis by simp
    next
      case (Done timed)
      let ?h3 = "enter_disposing a timed h2"
      have s3: "heap_step (set held) h ?h3"
        using b(1) heap_step_enter_disposing [OF a b(2)] heap_step_trans by blast
      let ?P = "\<lambda>g :: ('x, 'h, 'w) heap. length (hp_scopes g) = length (hp_scopes h) \<and> ranked rank g"
      have P3: "?P ?h3" using s3 Suc.prems(3) by (auto simp: heap_step_length intro: ranked_step)
      have P_step: "?P g'" if "?P g" "heap_step {} g g'" for g g'
        using that by (auto simp: heap_step_length intro: ranked_step)
      have kids: "c < length (hp_scopes h) \<and> rank c < rank a" if "c \<in> set (sn_children (scope_at ?h3 a))" for c
        using that P3 Suc.prems(2) by (auto simp: ranked_def)
      have "\<exists>h4 res. dispose_children (quiesce_and_dispose rt fuel (a # held)) rt dl started
          (rev (sn_children (scope_at ?h3 a))) ?h3 = Some (h4, res)"
      proof (rule dispose_children_returns [where P = ?P])
        fix dl' c and g :: "('x, 'h, 'w) heap"
        assume "c \<in> set (rev (sn_children (scope_at ?h3 a)))" and g: "?P g"
        then have c: "c < length (hp_scopes h)" "rank c < rank a" using kids by simp_all
        then have "\<exists>g' r. quiesce_and_dispose rt fuel (a # held) dl' c g = Some (g', r)"
          using g Suc.prems(1,4) by (intro Suc.IH) auto
        then obtain g' r where q: "quiesce_and_dispose rt fuel (a # held) dl' c g = Some (g', r)" by blast
        have "heap_step {} g g'" using quiesce_step [OF q] heap_step_mono by blast
        with P_step [OF g] q show "\<exists>g' r. quiesce_and_dispose rt fuel (a # held) dl' c g = Some (g', r) \<and> ?P g'"
          by blast
      next
        fix g g' :: "('x, 'h, 'w) heap" and t
        assume "?P g" "hp_now rt g = (t, g')"
        then show "?P g'" using P_step heap_step_same_scopes hp_now_scopes by metis
      next
        fix g :: "('x, 'h, 'w) heap" and c
        assume "?P g"
        then show "?P (observe rt c g)" using P_step heap_step_observe by blast
      qed (rule P3)
      then obtain h4 o4 where c: "dispose_children (quiesce_and_dispose rt fuel (a # held)) rt dl started
          (rev (sn_children (scope_at ?h3 a))) ?h3 = Some (h4, o4)" by blast
      with a None n d Done show ?thesis
        by (auto simp: Let_def split: outcome.splits prod.splits)
    qed
  qed (use a in simp)
qed simp

end
