(* ===== verification/Scope_Build.thy ===== *)
theory Scope_Build
  imports Scope_Snapshot Resolver_Properties
begin

text \<open>
  \<open>build_scope_candidate\<close> of \<^verbatim>\<open>lifecycle.rs\<close>: resolve the descriptors of a scope, activate its plugins in
  the resolved order, and on a failed activation dispose everything activated so far.

  What a plugin does in \<open>activate\<close> is its own code. It acts on the scope through the \<open>PluginContext\<close> it is
  given, so an activation is the tree of the calls it makes on that context: each node is a call and
  branches over the value the call returns, each leaf is how the activation ends.
\<close>

datatype ('x, 'h) activation =
  Finish "(activation_error, unit) result"
| Panic
| Abandon nat
| PushEffect 'x "u64 \<Rightarrow> ('x, 'h) activation"
| RegisterMarker capability_id "(registry_error, u64) result \<Rightarrow> ('x, 'h) activation"
| RegisterSource capability_id 'h "(registry_error, u64) result \<Rightarrow> ('x, 'h) activation"
| RegisterWorkspaceTool capability_id 'h "(registry_error, u64) result \<Rightarrow> ('x, 'h) activation"
| RegisterProjectFileViewer capability_id viewer_contribution "(registry_error, u64) result \<Rightarrow> ('x, 'h) activation"
| SpawnTask "(task_admission_error, unit) result \<Rightarrow> ('x, 'h) activation"
| EmitDiagnostic extension_diagnostic "('x, 'h) activation"

record ('x, 'h) plugin_context =
  pc_registry :: "'h registry"
  pc_effects :: "'x effect_sink"
  pc_tasks :: task_tracker
  pc_log :: "extension_diagnostic list"

definition context_register ::
  "('x effect_sink \<Rightarrow> 'h registry \<Rightarrow> 'x effect_sink \<times> 'h registry \<times> (registry_error, u64) result) \<Rightarrow>
   ('x, 'h) plugin_context \<Rightarrow> ('x, 'h) plugin_context \<times> (registry_error, u64) result" where
  "context_register reg c =
     (let (sink, rg, res) = reg (pc_effects c) (pc_registry c)
      in (c\<lparr>pc_effects := sink, pc_registry := rg\<rparr>, res))"

definition context_spawn :: "('x, 'h) plugin_context \<Rightarrow> ('x, 'h) plugin_context \<times> (task_admission_error, unit) result" where
  "context_spawn c =
     (case spawn (pc_tasks c) of Inl e \<Rightarrow> (c, Err e) | Inr t \<Rightarrow> (c\<lparr>pc_tasks := t\<rparr>, Ok ()))"

text \<open>
  Running an activation under \<open>CatchUnwindFuture\<close>: a panic becomes the error \<open>activation_panicked\<close>. The
  diagnostics a plugin emits pass the \<open>ScopedDiagnosticSink\<close> of its instance.
\<close>

primrec run_activation ::
  "plugin_instance_identity \<Rightarrow> ('x, 'h) activation \<Rightarrow> ('x, 'h) plugin_context \<Rightarrow>
   ('x, 'h) plugin_context \<times> (activation_error, unit) result outcome" where
  "run_activation inst (Finish r) c = (c, Done r)"
| "run_activation inst Panic c =
     (c, Done (Err (ActivationError_new ''activation_panicked'' ''plugin activation panicked at the host boundary'')))"
| "run_activation inst (Abandon n) c = (c, Cut n)"
| "run_activation inst (PushEffect x k) c =
     (let (sink, order) = push (pc_effects c) (External x) in run_activation inst (k order) (c\<lparr>pc_effects := sink\<rparr>))"
| "run_activation inst (RegisterMarker cap k) c =
     (let (c', res) = context_register (sink_register_marker cap) c in run_activation inst (k res) c')"
| "run_activation inst (RegisterSource cap h k) c =
     (let (c', res) = context_register (sink_register_source cap h) c in run_activation inst (k res) c')"
| "run_activation inst (RegisterWorkspaceTool cap h k) c =
     (let (c', res) = context_register (sink_register_workspace_tool cap h) c in run_activation inst (k res) c')"
| "run_activation inst (RegisterProjectFileViewer cap v k) c =
     (let (c', res) = context_register (sink_register_project_file_viewer cap v) c in run_activation inst (k res) c')"
| "run_activation inst (SpawnTask k) c =
     (let (c', res) = context_spawn c in run_activation inst (k res) c')"
| "run_activation inst (EmitDiagnostic d k) c =
     run_activation inst k (c\<lparr>pc_log := pc_log c @ [scoped_emit inst d]\<rparr>)"

section \<open>Building a candidate\<close>

record ('ver, 'x, 'h, 'w) internal_plugin =
  ip_descriptor :: "'ver plugin_descriptor"
  ip_activate :: "'w \<Rightarrow> ('x, 'h) activation \<times> 'w"

datatype build_error =
  Resolution extension_error
| Activation plugin_id activation_error scope_dispose_report

record ('x, 'h, 'w) build_state =
  bu_registry :: "'h registry"
  bu_tasks :: task_tracker
  bu_activated :: "'x activated_plugin list"
  bu_log :: "extension_diagnostic list"
  bu_world :: 'w

text \<open>The turn of the loop for a plugin that is not in the passive inventory.\<close>

definition activate_one ::
  "scope_identity \<Rightarrow> plugin_id \<Rightarrow> ('ver, 'x, 'h, 'w) internal_plugin \<Rightarrow> ('x, 'h, 'w) build_state \<Rightarrow>
   ('x, 'h, 'w) build_state \<times> (activation_error, unit) result outcome" where
  "activate_one identity pid plugin st =
     (let inst = \<lparr>pii_plugin_id = pid, pii_scope = identity\<rparr>;
          (act, w) = ip_activate plugin (bu_world st);
          (c, res) = run_activation inst act
            \<lparr>pc_registry = bu_registry st, pc_effects = EffectSink_new inst, pc_tasks = bu_tasks st,
             pc_log = bu_log st @ [scope_diagnostic DActivationStarted SevInfo identity (Some pid) ''plugin activation started'']\<rparr>;
          st' = st\<lparr>bu_registry := pc_registry c, bu_tasks := pc_tasks c, bu_log := pc_log c, bu_world := w\<rparr>;
          activated = st'\<lparr>bu_activated := bu_activated st @
            [\<lparr>apl_instance = inst, apl_effects = into_stack (pc_effects c)\<rparr>]\<rparr>
      in case res of
           Cut n \<Rightarrow> (st', Cut n)
         | Done (Inr _) \<Rightarrow>
             (activated\<lparr>bu_log := bu_log activated @
               [scope_diagnostic DActivationSucceeded SevInfo identity (Some pid) ''plugin activation succeeded'']\<rparr>,
              Done (Ok ()))
         | Done (Inl e) \<Rightarrow>
             (activated\<lparr>bu_log := bu_log activated @
               [scope_diagnostic DActivationFailed SevError identity (Some pid)
                  (''plugin activation failed: '' @ ae_code e)]\<rparr>,
              Done (Err e)))"

text \<open>The loop over the activation order; \<open>None\<close> is the failing assertion.\<close>

fun activate_plugins ::
  "scope_identity \<Rightarrow> (plugin_id, ('ver, 'x, 'h, 'w) internal_plugin) btree \<Rightarrow> plugin_id set \<Rightarrow> plugin_id list \<Rightarrow>
   ('x, 'h, 'w) build_state \<Rightarrow> (('x, 'h, 'w) build_state \<times> (plugin_id \<times> activation_error) option outcome) option" where
  "activate_plugins identity by_id passive [] st = Some (st, Done None)"
| "activate_plugins identity by_id passive (pid # pids) st =
     (case bt_get by_id pid of
        None \<Rightarrow>
          if pid \<notin> passive then None
          else
            (let inst = \<lparr>pii_plugin_id = pid, pii_scope = identity\<rparr>
             in activate_plugins identity by_id passive pids
                  (st\<lparr>bu_activated := bu_activated st @
                     [\<lparr>apl_instance = inst, apl_effects = into_stack (EffectSink_new inst)\<rparr>]\<rparr>))
      | Some plugin \<Rightarrow>
          (case activate_one identity pid plugin st of
             (st', Cut n) \<Rightarrow> Some (st', Cut n)
           | (st', Done (Inl e)) \<Rightarrow> Some (st', Done (Some (pid, e)))
           | (st', Done (Inr _)) \<Rightarrow> activate_plugins identity by_id passive pids st'))"

definition alloc :: "('x, 'h) scope_snapshot \<Rightarrow> ('x, 'h, 'w) heap \<Rightarrow> nat \<times> ('x, 'h, 'w) heap" where
  "alloc s h = (length (hp_scopes h), h\<lparr>hp_scopes := hp_scopes h @ [s]\<rparr>)"

text \<open>A failed activation: the snapshot of what was activated is disposed at once.\<close>

definition rollback ::
  "('x, 'w) runtime \<Rightarrow> lifecycle_deadlines \<Rightarrow> plugin_id \<Rightarrow> activation_error \<Rightarrow> ('x, 'h) scope_snapshot \<Rightarrow>
   ('x, 'h, 'w) heap \<Rightarrow> (('x, 'h, 'w) heap \<times> (build_error, nat) result outcome) option" where
  "rollback rt dl pid e s h =
     (let (a, h1) = alloc s h in
      case dispose_scope rt dl a h1 of
        None \<Rightarrow> None
      | Some (h2, Cut n) \<Rightarrow> Some (h2, Cut n)
      | Some (h2, Done report) \<Rightarrow>
          Some (if sdr_outcome report = Failed
                then hp_emit (scope_diagnostic DActivationRollbackFailed SevError (sn_identity s) (Some pid)
                       ''activation rollback completed with leaked resources'') h2
                else h2,
                Done (Err (Activation pid e report))))"

definition plugins_by_id :: "('ver, 'x, 'h, 'w) internal_plugin list \<Rightarrow> (plugin_id, ('ver, 'x, 'h, 'w) internal_plugin) btree" where
  "plugins_by_id plugins = foldl (\<lambda>m p. bt_insert (pd_id (ip_descriptor p)) p m) bt_empty plugins"

definition build_scope_candidate_with_passive ::
  "(dep_graph \<Rightarrow> plugin_id list list) \<Rightarrow> ('x, 'w) runtime \<Rightarrow> lifecycle_deadlines \<Rightarrow> scope_identity \<Rightarrow>
   activation_plan option \<Rightarrow> ('ver :: linorder, 'x, 'h, 'w) internal_plugin list \<Rightarrow> 'ver plugin_descriptor list \<Rightarrow>
   ('x, 'h, 'w) heap \<Rightarrow> (('x, 'h, 'w) heap \<times> (build_error, nat) result outcome) option" where
  "build_scope_candidate_with_passive scc rt dl identity parent_plan plugins passive h =
     (case phase_one of
        None \<Rightarrow> None
      | Some policy \<Rightarrow>
          (case resolve_activation_plan scc policy identity parent_plan (map ip_descriptor plugins @ passive) of
             Inl (Rejected e) \<Rightarrow> Some (h, Done (Err (Resolution e)))
           | Inl Panicked \<Rightarrow> None
           | Inr plan \<Rightarrow>
               (case activate_plugins identity (plugins_by_id plugins) (set (map pd_id passive))
                       (ap_activation_order plan)
                       \<lparr>bu_registry = RegistryHub_candidate identity, bu_tasks = ScopedTaskTracker_new,
                        bu_activated = [], bu_log = hp_log h, bu_world = hp_world h\<rparr> of
                  None \<Rightarrow> None
                | Some (st, res) \<Rightarrow>
                    (let s = ScopeSnapshot_new_ready identity plan (bu_registry st) (bu_tasks st) (bu_activated st);
                         h1 = h\<lparr>hp_log := bu_log st, hp_world := bu_world st\<rparr>
                     in case res of
                          Cut n \<Rightarrow> Some (h1, Cut n)
                        | Done (Some (pid, e)) \<Rightarrow> rollback rt dl pid e s h1
                        | Done None \<Rightarrow> (let (a, h2) = alloc s h1 in Some (h2, Done (Ok a)))))))"

definition build_scope_candidate ::
  "(dep_graph \<Rightarrow> plugin_id list list) \<Rightarrow> ('x, 'w) runtime \<Rightarrow> lifecycle_deadlines \<Rightarrow> scope_identity \<Rightarrow>
   activation_plan option \<Rightarrow> ('ver :: linorder, 'x, 'h, 'w) internal_plugin list \<Rightarrow>
   ('x, 'h, 'w) heap \<Rightarrow> (('x, 'h, 'w) heap \<times> (build_error, nat) result outcome) option" where
  "build_scope_candidate scc rt dl identity parent_plan plugins h =
     build_scope_candidate_with_passive scc rt dl identity parent_plan plugins [] h"

section \<open>What activation leaves\<close>

definition context_ok :: "plugin_instance_identity \<Rightarrow> 'x disposer set \<Rightarrow> ('x, 'h) plugin_context \<Rightarrow> bool" where
  "context_ok inst A c \<longleftrightarrow>
     sk_instance (pc_effects c) = inst \<and> stack_ok inst (into_stack (pc_effects c)) \<and>
     accounted (pc_registry c) (pe_disposer ` set (sk_effects (pc_effects c)) \<union> A) \<and>
     \<not> rg_routing (pc_registry c) \<and> rg_scope (pc_registry c) = pii_scope inst \<and> tt_accepting (pc_tasks c)"

lemma stack_ok_push:
  "stack_ok inst (into_stack sink) \<Longrightarrow> sk_instance sink = inst \<Longrightarrow> push sink d = (sink', order) \<Longrightarrow>
     stack_ok inst (into_stack sink') \<and> sk_instance sink' = inst \<and>
     pe_disposer ` set (sk_effects sink') = insert d (pe_disposer ` set (sk_effects sink))"
  by (auto simp: push_def stack_ok_def into_stack_def Let_def nth_append new_effect_def same_effect_def less_Suc_eq)

lemma accounted_mono: "accounted rg A \<Longrightarrow> A \<subseteq> B \<Longrightarrow> accounted rg B"
  unfolding accounted_def by blast

text \<open>A registration that succeeds adds one owner, and the disposer that will remove it.\<close>

definition registers ::
  "slot \<Rightarrow> capability_id \<Rightarrow> (plugin_instance_identity \<Rightarrow> 'h registry \<Rightarrow> (registry_error, 'h registry) result) \<Rightarrow> bool" where
  "registers k cap reg \<longleftrightarrow>
     (\<forall>inst rg rg'. reg inst rg = Ok rg' \<longrightarrow>
        (\<forall>j c. slot_owner rg' j c = (if j = k \<and> c = cap then Some inst else slot_owner rg j c)) \<and>
        rg_routing rg' = rg_routing rg \<and> rg_scope rg' = rg_scope rg)"

lemma registers_all:
  "registers SlotMarker cap (\<lambda>inst. register_marker inst cap)"
  "registers SlotSource cap (\<lambda>inst. register_source inst cap h)"
  "registers SlotTool cap (\<lambda>inst. register_workspace_tool inst cap h)"
  "registers SlotViewer cap (\<lambda>inst. register_project_file_viewer inst cap v)"
  unfolding registers_def
  by (auto dest: register_frame simp: register_owner(1) [THEN conjunct1] register_owner(2) [THEN conjunct1]
      register_owner(3) [THEN conjunct1] register_owner(4) [THEN conjunct1])

lemma context_register_ok:
  assumes "registers k cap reg" "context_ok inst A c"
    and "context_register (sink_register k reg cap) c = (c', res)"
  shows "context_ok inst A c'"
proof (cases "reg inst (pc_registry c)")
  case (Inl e)
  with assms(2,3) show ?thesis by (auto simp: context_register_def sink_register_def context_ok_def)
next
  case (Inr rg')
  let ?d = "Registration k (new_registration inst cap)"
  obtain sink' order where p: "push (pc_effects c) ?d = (sink', order)" by (cases "push (pc_effects c) ?d")
  from assms(2) have inst: "sk_instance (pc_effects c) = inst" by (simp add: context_ok_def)
  have c': "c' = c\<lparr>pc_effects := sink', pc_registry := rg'\<rparr>"
    using assms(3) Inr p inst by (auto simp: context_register_def sink_register_def)
  from assms(1) Inr have own: "\<And>j d. slot_owner rg' j d = (if j = k \<and> d = cap then Some inst else slot_owner (pc_registry c) j d)"
    and fr: "rg_routing rg' = rg_routing (pc_registry c)" "rg_scope rg' = rg_scope (pc_registry c)"
    unfolding registers_def by blast+
  have st: "stack_ok inst (into_stack sink') \<and> sk_instance sink' = inst \<and>
      pe_disposer ` set (sk_effects sink') = insert ?d (pe_disposer ` set (sk_effects (pc_effects c)))"
    using assms(2) p by (intro stack_ok_push) (simp_all add: context_ok_def)
  have key: "pending_key ?d = Some (k, cap, inst)" by (simp add: new_registration_def)
  from assms(2) have acc: "accounted (pc_registry c) (pe_disposer ` set (sk_effects (pc_effects c)) \<union> A)"
    by (simp add: context_ok_def)
  have "\<exists>d\<in>insert ?d (pe_disposer ` set (sk_effects (pc_effects c)) \<union> A). pending_key d = Some (j, x, i)"
    if "slot_owner rg' j x = Some i" for j x i
  proof (cases "j = k \<and> x = cap")
    case True
    with that own key show ?thesis by auto
  next
    case False
    with that own have "slot_owner (pc_registry c) j x = Some i" by metis
    with acc show ?thesis unfolding accounted_def by blast
  qed
  then have "accounted rg' (insert ?d (pe_disposer ` set (sk_effects (pc_effects c)) \<union> A))"
    unfolding accounted_def by blast
  with assms(2) st fr c' show ?thesis by (simp add: context_ok_def)
qed

lemma register_node_ok:
  assumes "registers k cap reg" "context_ok inst A c"
    and "(let (c1, r) = context_register (sink_register k reg cap) c in run_activation inst (f r) c1) = (c', res)"
    and "\<And>act c. act \<in> range f \<Longrightarrow> context_ok inst A c \<Longrightarrow> run_activation inst act c = (c', res) \<Longrightarrow> context_ok inst A c'"
  shows "context_ok inst A c'"
proof -
  obtain c1 r where c: "context_register (sink_register k reg cap) c = (c1, r)"
    by (cases "context_register (sink_register k reg cap) c")
  from assms(4) [OF rangeI context_register_ok [OF assms(1,2) c]] assms(3) c show ?thesis by simp
qed

lemma run_activation_ok:
  "context_ok inst A c \<Longrightarrow> run_activation inst act c = (c', res) \<Longrightarrow> context_ok inst A c'"
proof (induction act arbitrary: c)
  case (PushEffect x k)
  obtain sink order where p: "push (pc_effects c) (External x) = (sink, order)" by (cases "push (pc_effects c) (External x)")
  have "stack_ok inst (into_stack sink) \<and> sk_instance sink = inst \<and>
      pe_disposer ` set (sk_effects sink) = insert (External x) (pe_disposer ` set (sk_effects (pc_effects c)))"
    using PushEffect.prems(1) p by (intro stack_ok_push) (simp_all add: context_ok_def)
  then have "context_ok inst A (c\<lparr>pc_effects := sink\<rparr>)"
    using PushEffect.prems(1) by (auto simp: context_ok_def intro: accounted_mono)
  from PushEffect.IH [OF rangeI this] PushEffect.prems(2) p show ?case by simp
next
  case (RegisterMarker cap k)
  from register_node_ok [OF registers_all(1) RegisterMarker.prems(1) RegisterMarker.prems(2) [unfolded run_activation.simps sink_register_marker_def]]
    RegisterMarker.IH show ?case by blast
next
  case (RegisterSource cap h k)
  from register_node_ok [OF registers_all(2) RegisterSource.prems(1) RegisterSource.prems(2) [unfolded run_activation.simps sink_register_source_def]]
    RegisterSource.IH show ?case by blast
next
  case (RegisterWorkspaceTool cap h k)
  from register_node_ok [OF registers_all(3) RegisterWorkspaceTool.prems(1) RegisterWorkspaceTool.prems(2) [unfolded run_activation.simps sink_register_workspace_tool_def]]
    RegisterWorkspaceTool.IH show ?case by blast
next
  case (RegisterProjectFileViewer cap v k)
  from register_node_ok [OF registers_all(4) RegisterProjectFileViewer.prems(1) RegisterProjectFileViewer.prems(2) [unfolded run_activation.simps sink_register_project_file_viewer_def]]
    RegisterProjectFileViewer.IH show ?case by blast
next
  case (SpawnTask k)
  have "context_ok inst A (fst (context_spawn c))"
    using SpawnTask.prems(1) by (auto simp: context_spawn_def spawn_def context_ok_def)
  with SpawnTask show ?case by (auto split: prod.splits)
next
  case (EmitDiagnostic d k)
  from EmitDiagnostic.prems(1) have "context_ok inst A (c\<lparr>pc_log := pc_log c @ [scoped_emit inst d]\<rparr>)"
    by (simp add: context_ok_def)
  with EmitDiagnostic show ?case by simp
qed auto

section \<open>The loop\<close>

definition build_ok :: "scope_identity \<Rightarrow> ('x, 'h, 'w) build_state \<Rightarrow> bool" where
  "build_ok identity st \<longleftrightarrow>
     \<not> rg_routing (bu_registry st) \<and> rg_scope (bu_registry st) = identity \<and> tt_accepting (bu_tasks st) \<and>
     (\<forall>p\<in>set (bu_activated st). stack_ok (apl_instance p) (apl_effects p)) \<and>
     accounted (bu_registry st) (disposers (bu_activated st))"

lemma disposers_snoc [simp]:
  "disposers (ps @ [p]) = pe_disposer ` set (stk_effects (apl_effects p)) \<union> disposers ps"
  by (auto simp: disposers_def)

lemma stack_ok_new [simp]: "stack_ok inst (into_stack (EffectSink_new inst))"
  by (simp add: stack_ok_def into_stack_def EffectSink_new_def)

lemma activate_one_ok:
  fixes plugin :: "('ver, 'x, 'h, 'w) internal_plugin"
  assumes "activate_one identity pid plugin st = (st', Done res)" "build_ok identity st"
  shows "build_ok identity st'"
proof -
  let ?inst = "\<lparr>pii_plugin_id = pid, pii_scope = identity\<rparr>"
  obtain act w where a: "ip_activate plugin (bu_world st) = (act, w)" by (cases "ip_activate plugin (bu_world st)")
  define c0 :: "('x, 'h) plugin_context" where "c0 = \<lparr>pc_registry = bu_registry st, pc_effects = EffectSink_new ?inst, pc_tasks = bu_tasks st,
    pc_log = bu_log st @ [scope_diagnostic DActivationStarted SevInfo identity (Some pid) ''plugin activation started'']\<rparr>"
  obtain c o1 where r: "run_activation ?inst act c0 = (c, o1)" by (cases "run_activation ?inst act c0")
  have "context_ok ?inst (disposers (bu_activated st)) c0"
    using assms(2) by (simp add: context_ok_def c0_def build_ok_def) (simp add: EffectSink_new_def)
  from run_activation_ok [OF this r] have c: "context_ok ?inst (disposers (bu_activated st)) c" .
  have acc: "accounted (pc_registry c) (pe_disposer ` set (stk_effects (into_stack (pc_effects c))) \<union> disposers (bu_activated st))"
    using c by (simp add: context_ok_def into_stack_def)
  have "bu_registry st' = pc_registry c \<and> bu_tasks st' = pc_tasks c \<and> bu_activated st' = bu_activated st @
        [\<lparr>apl_instance = ?inst, apl_effects = into_stack (pc_effects c)\<rparr>]"
    using assms(1) a r c0_def by (auto simp: activate_one_def Let_def split: outcome.splits sum.splits)
  with assms(2) c acc show ?thesis by (simp add: build_ok_def context_ok_def)
qed

lemma activate_plugins_ok:
  assumes "activate_plugins identity by_id passive pids st = Some (st', Done res)" "build_ok identity st"
  shows "build_ok identity st'"
  using assms
proof (induction pids arbitrary: st)
  case (Cons pid pids)
  show ?case
  proof (cases "bt_get by_id pid")
    case None
    let ?inst = "\<lparr>pii_plugin_id = pid, pii_scope = identity\<rparr>"
    let ?st = "st\<lparr>bu_activated := bu_activated st @
      [\<lparr>apl_instance = ?inst, apl_effects = into_stack (EffectSink_new ?inst)\<rparr>]\<rparr>"
    have "build_ok identity ?st" using Cons.prems(2) by (auto simp: build_ok_def intro: accounted_mono)
    with Cons None show ?thesis by (auto simp: Let_def split: if_splits)
  next
    case (Some plugin)
    obtain st1 o1 where a: "activate_one identity pid plugin st = (st1, o1)" by (cases "activate_one identity pid plugin st")
    with Cons.prems Some obtain r where o1: "o1 = Done r" by (cases o1) auto
    have ok: "build_ok identity st1" by (rule activate_one_ok [OF a [unfolded o1] Cons.prems(2)])
    with Cons.prems Some a o1 Cons.IH [of st1] show ?thesis by (cases r) auto
  qed
qed simp

text \<open>The assertion of the loop holds when every resolved plugin is active or passive.\<close>

lemma activate_plugins_no_panic:
  "set pids \<subseteq> set (bt_keys by_id) \<union> passive \<Longrightarrow> activate_plugins identity by_id passive pids st \<noteq> None"
proof (induction pids arbitrary: st)
  case (Cons pid pids)
  then show ?case
    by (auto simp: Let_def bt_get_None_iff split: option.splits prod.splits outcome.splits sum.splits)
qed simp

lemma keys_plugins_by_id: "set (bt_keys (plugins_by_id ps)) = (\<lambda>p. pd_id (ip_descriptor p)) ` set ps"
proof -
  have "set (map fst (foldl (\<lambda>m p. bt_insert (pd_id (ip_descriptor p)) p m) m ps)) =
      set (map fst m) \<union> (\<lambda>p. pd_id (ip_descriptor p)) ` set ps" for m
    by (induction ps arbitrary: m) (auto simp: keys_bt_insert simp del: set_map)
  from this [of bt_empty] show ?thesis by (simp add: bt_keys_def plugins_by_id_def bt_empty_def)
qed

section \<open>What building a candidate does to the heap\<close>

text \<open>A new snapshot: ready, childless, with the identity it was built for.\<close>

definition fresh_scope :: "scope_identity \<Rightarrow> ('x, 'h) scope_snapshot \<Rightarrow> bool" where
  "fresh_scope identity s \<longleftrightarrow>
     scope_ok s \<and> state_of s = SlReady \<and> sn_children s = [] \<and> sn_identity s = identity"

lemma fresh_snapshot:
  assumes "build_ok identity st"
  shows "fresh_scope identity (ScopeSnapshot_new_ready identity plan (bu_registry st) (bu_tasks st) (bu_activated st))"
proof -
  let ?s = "ScopeSnapshot_new_ready identity plan (bu_registry st) (bu_tasks st) (bu_activated st)"
  have "state_of ?s = SlReady" "\<exists>u. sn_state ?s = as_u8 u" by (auto simp: ScopeSnapshot_new_ready_def state_of_def)
  then show ?thesis using assms by (simp add: fresh_scope_def scope_ok_def build_ok_def ScopeSnapshot_new_ready_def)
qed

definition plan_before :: "nat \<Rightarrow> activation_plan \<Rightarrow> bool" where
  "plan_before g plan \<longleftrightarrow>
     bt_ok (ap_effective_providers plan) \<and>
     (\<forall>cap p. bt_get (ap_effective_providers plan) cap = Some p \<longrightarrow> unat (si_generation (pv_scope p)) < g)"

lemma plan_before_mono: "plan_before g plan \<Longrightarrow> g \<le> g' \<Longrightarrow> plan_before g' plan"
  unfolding plan_before_def by (meson less_le_trans)

lemma resolved_plan_before:
  assumes "resolve_activation_plan scc policy identity parent ds = Ok plan" "scc_spec scc"
    and "\<And>p. parent = Some p \<Longrightarrow> plan_before g p" "unat (si_generation identity) < g"
  shows "plan_before g plan" "ap_scope plan = identity" "set (ap_activation_order plan) = set (map pd_id ds)"
proof -
  have inh: "bt_ok (inherited_providers parent)"
    using assms(3) by (auto simp: inherited_providers_def plan_before_def split: option.splits)
  have prep: "resolve_prepared scc identity (inherited_providers parent) (prepare ds) = Ok plan"
    using resolve_Ok_prepared [OF assms(1)] by blast
  note r = resolve_prepared_Ok [OF prep]
  have p: "plan_ok identity (inherited_providers parent) ds plan" by (rule resolve_prepared_plan [OF prep assms(2) inh])
  then show "ap_scope plan = identity" "set (ap_activation_order plan) = set (map pd_id ds)"
    by (simp_all add: plan_ok_def)
  have ok: "bt_ok (ap_effective_providers plan)"
    unfolding r(5) by (rule merge_providers_get [OF inh current_providers_get(1), THEN conjunct1])
  have "unat (si_generation (pv_scope q)) < g" if "bt_get (ap_effective_providers plan) cap = Some q" for cap q
  proof -
    from p have "providers_ok identity (inherited_providers parent) ds (ap_effective_providers plan)"
      by (simp add: plan_ok_def)
    with that consider "bt_get (inherited_providers parent) cap = Some q"
      | x where "q = mk_provider identity x"
      unfolding providers_ok_def by blast
    then show ?thesis
    proof cases
      case 1
      with assms(3) show ?thesis by (auto simp: inherited_providers_def plan_before_def split: option.splits)
    qed (use assms(4) in \<open>simp add: mk_provider_def\<close>)
  qed
  with ok show "plan_before g plan" by (simp add: plan_before_def)
qed

lemma resolve_no_panic:
  assumes "scc_spec scc" "\<And>p. parent = Some p \<Longrightarrow> plan_before (unat (si_generation identity)) p"
  shows "resolve_activation_plan scc policy identity parent ds \<noteq> Err Panicked"
proof -
  have "foreign identity (inherited_providers parent)"
    using assms(2) by (fastforce simp: foreign_def inherited_providers_def plan_before_def split: option.splits)
  from resolve_prepared_no_panic [OF assms(1) this] show ?thesis
    by (cases "validate_identity policy identity (map_option ap_scope parent)")
      (auto simp: resolve_activation_plan_def inherited_providers_def)
qed

lemma dispose_scope_step: "dispose_scope rt dl a h = Some (h', res) \<Longrightarrow> heap_step {} h h'"
  unfolding dispose_scope_def by (drule quiesce_step) simp

lemma dispose_scope_report:
  "dispose_scope rt dl a h = Some (h', Done report) \<Longrightarrow> a < length (hp_scopes h) \<Longrightarrow> sn_report (scope_at h' a) = Some report"
  unfolding dispose_scope_def by (drule quiesce_step) simp

lemma dispose_scope_closes:
  "dispose_scope rt dl a h = Some (h', res) \<Longrightarrow> a < length (hp_scopes h) \<Longrightarrow> scope_ok (scope_at h a) \<Longrightarrow>
     state_of (scope_at h' a) \<notin> {SlReady, SlActive}"
  unfolding dispose_scope_def by (rule quiesce_closes)

definition with_scope :: "('x, 'h) scope_snapshot \<Rightarrow> ('x, 'h, 'w) heap \<Rightarrow> ('x, 'h, 'w) heap" where
  "with_scope s h = h\<lparr>hp_scopes := hp_scopes h @ [s]\<rparr>"

lemma scope_at_with_scope:
  "b < length (hp_scopes h) \<Longrightarrow> scope_at (with_scope s h) b = scope_at h b"
  "scope_at (with_scope s h) (length (hp_scopes h)) = s"
  "length (hp_scopes (with_scope s h)) = Suc (length (hp_scopes h))"
  by (simp_all add: scope_at_def with_scope_def nth_append)

lemma heap_step_from_scopes: "heap_step held h h' \<Longrightarrow> hp_scopes g = hp_scopes h \<Longrightarrow> heap_step held g h'"
  by (simp add: heap_step_def scope_at_def)

lemma heap_step_to_scopes: "heap_step held h h' \<Longrightarrow> hp_scopes g = hp_scopes h' \<Longrightarrow> heap_step held h g"
  by (simp add: heap_step_def scope_at_def)

text \<open>Nothing is allocated, or a fresh snapshot that is returned, or one that is disposed at once.\<close>

lemma build_cases:
  assumes "build_scope_candidate_with_passive scc rt dl identity parent plugins passive h = Some (h', res)"
  obtains (none) "hp_scopes h' = hp_scopes h" "\<And>a. res \<noteq> Done (Ok a)"
      "\<And>pid e r. res \<noteq> Done (Err (Activation pid e r))"
  | (built) s policy where "fresh_scope identity s" "hp_scopes h' = hp_scopes (with_scope s h)"
      "res = Done (Ok (length (hp_scopes h)))"
      "resolve_activation_plan scc policy identity parent (map ip_descriptor plugins @ passive) = Ok (sn_plan s)"
  | (rolled) s policy where "fresh_scope identity s" "heap_step {} (with_scope s h) h'"
      "state_of (scope_at h' (length (hp_scopes h))) \<notin> {SlReady, SlActive}" "\<And>a. res \<noteq> Done (Ok a)"
      "\<And>pid e r. res = Done (Err (Activation pid e r)) \<Longrightarrow> sn_report (scope_at h' (length (hp_scopes h))) = Some r"
      "resolve_activation_plan scc policy identity parent (map ip_descriptor plugins @ passive) = Ok (sn_plan s)"
proof -
  obtain policy where pol: "phase_one = Some policy" using phase_one_Some by blast
  let ?ds = "map ip_descriptor plugins @ passive"
  show thesis
  proof (cases "resolve_activation_plan scc policy identity parent ?ds")
    case (Inl e)
    show thesis
      using assms [unfolded build_scope_candidate_with_passive_def pol option.case Inl sum.case]
      by (intro none) (auto split: resolve_error.splits)
  next
    case (Inr plan)
    let ?st0 = "\<lparr>bu_registry = RegistryHub_candidate identity, bu_tasks = ScopedTaskTracker_new,
      bu_activated = [], bu_log = hp_log h, bu_world = hp_world h\<rparr>"
    obtain st o1 where act: "activate_plugins identity (plugins_by_id plugins) (set (map pd_id passive))
        (ap_activation_order plan) ?st0 = Some (st, o1)"
      using assms [unfolded build_scope_candidate_with_passive_def pol option.case Inr sum.case]
      by (auto split: option.splits)
    let ?s = "ScopeSnapshot_new_ready identity plan (bu_registry st) (bu_tasks st) (bu_activated st)"
    let ?h1 = "h\<lparr>hp_log := bu_log st, hp_world := bu_world st\<rparr>"
    note b = assms [unfolded build_scope_candidate_with_passive_def pol option.case Inr sum.case act prod.case Let_def]
    show thesis
    proof (cases o1)
      case (Cut n)
      with b show thesis by (intro none) auto
    next
      case (Done f)
      have "build_ok identity ?st0"
        by (simp add: build_ok_def RegistryHub_candidate_def ScopedTaskTracker_new_def accounted_def)
          (simp add: RegistryHub_candidate_def [symmetric])
      then have "build_ok identity st" using activate_plugins_ok act Done by blast
      then have fresh: "fresh_scope identity ?s" by (rule fresh_snapshot)
      have plan: "sn_plan ?s = plan" by (simp add: ScopeSnapshot_new_ready_def)
      show thesis
      proof (cases f)
        case None
        with b Done have "res = Done (Ok (length (hp_scopes h)))" "hp_scopes h' = hp_scopes (with_scope ?s h)"
          by (auto simp: alloc_def with_scope_def)
        with fresh Inr plan built show thesis by metis
      next
        case (Some pe)
        obtain pid e where pe: "pe = (pid, e)" by (cases pe)
        let ?g = "with_scope ?s ?h1"
        have al: "alloc ?s ?h1 = (length (hp_scopes h), ?g)" by (simp add: alloc_def with_scope_def)
        from b Done Some pe have rb: "rollback rt dl pid e ?s ?h1 = Some (h', res)" by simp
        obtain h2 o2 where d: "dispose_scope rt dl (length (hp_scopes h)) ?g = Some (h2, o2)"
          using rb al by (auto simp: rollback_def split: option.splits)
        have len: "length (hp_scopes h) < length (hp_scopes ?g)" by (simp add: with_scope_def)
        have "scope_at ?g (length (hp_scopes h)) = ?s" by (simp add: scope_at_def with_scope_def)
        then have ok: "scope_ok (scope_at ?g (length (hp_scopes h)))" using fresh by (simp add: fresh_scope_def)
        have scopes: "hp_scopes h' = hp_scopes h2" and nok: "\<And>a. res \<noteq> Done (Ok a)"
          and rep: "\<And>pid e r. res = Done (Err (Activation pid e r)) \<Longrightarrow> o2 = Done r"
          using rb al d by (auto simp: rollback_def split: outcome.splits if_splits)
        have "heap_step {} (with_scope ?s h) h2"
          by (rule heap_step_from_scopes [OF dispose_scope_step [OF d]]) (simp add: with_scope_def)
        then have st: "heap_step {} (with_scope ?s h) h'" using scopes by (rule heap_step_to_scopes)
        have at: "scope_at h' b = scope_at h2 b" for b using scopes by (simp add: scope_at_def)
        show thesis
        proof (rule rolled [OF fresh st _ nok])
          show "state_of (scope_at h' (length (hp_scopes h))) \<notin> {SlReady, SlActive}"
            unfolding at by (rule dispose_scope_closes [OF d len ok])
          show "sn_report (scope_at h' (length (hp_scopes h))) = Some r"
            if "res = Done (Err (Activation pid e r))" for pid e r
            unfolding at using dispose_scope_report [OF d [unfolded rep [OF that]] len] .
          show "resolve_activation_plan scc policy identity parent ?ds = Ok (sn_plan ?s)" using Inr plan by simp
        qed
      qed
    qed
  qed
qed

text \<open>Building never panics: the resolver does not, and the assertion of the activation loop holds.\<close>

lemma build_returns:
  fixes h :: "('x, 'h, 'w) heap"
  assumes "scc_spec scc" "\<And>p. parent = Some p \<Longrightarrow> plan_before (unat (si_generation identity)) p"
    and "\<And>s :: ('x, 'h) scope_snapshot. \<And>h1 :: ('x, 'h, 'w) heap. fresh_scope identity s \<Longrightarrow> hp_scopes h1 = hp_scopes h \<Longrightarrow>
           dispose_scope rt dl (length (hp_scopes h)) (with_scope s h1) \<noteq> None"
  shows "build_scope_candidate_with_passive scc rt dl identity parent plugins passive h \<noteq> None"
proof -
  obtain policy where pol: "phase_one = Some policy" using phase_one_Some by blast
  let ?ds = "map ip_descriptor plugins @ passive"
  let ?r = "resolve_activation_plan scc policy identity parent ?ds"
  show ?thesis
  proof (cases ?r)
    case (Inl e)
    have "?r \<noteq> Err Panicked" using assms(1,2) by (rule resolve_no_panic)
    with Inl obtain x where e: "e = Rejected x" by (cases e) auto
    show ?thesis unfolding build_scope_candidate_with_passive_def pol option.case Inl e by simp
  next
    case (Inr plan)
    let ?st0 = "\<lparr>bu_registry = RegistryHub_candidate identity, bu_tasks = ScopedTaskTracker_new,
      bu_activated = [], bu_log = hp_log h, bu_world = hp_world h\<rparr>"
    have "plan_before (Suc (unat (si_generation identity))) p" if "parent = Some p" for p
      using assms(2) [OF that] by (rule plan_before_mono) simp
    from resolved_plan_before(3) [OF Inr assms(1) this] have "set (ap_activation_order plan) = set (map pd_id ?ds)" by simp
    then have "activate_plugins identity (plugins_by_id plugins) (set (map pd_id passive)) (ap_activation_order plan) ?st0 \<noteq> None"
      by (intro activate_plugins_no_panic) (auto simp: keys_plugins_by_id)
    then obtain st o1 where act: "activate_plugins identity (plugins_by_id plugins) (set (map pd_id passive))
        (ap_activation_order plan) ?st0 = Some (st, o1)" by auto
    have b0: "build_ok identity ?st0"
      by (simp add: build_ok_def RegistryHub_candidate_def ScopedTaskTracker_new_def accounted_def)
        (simp add: RegistryHub_candidate_def [symmetric])
    have "rollback rt dl pid e (ScopeSnapshot_new_ready identity plan (bu_registry st) (bu_tasks st) (bu_activated st))
        (h\<lparr>hp_log := bu_log st, hp_world := bu_world st\<rparr>) \<noteq> None" if "o1 = Done (Some (pid, e))" for pid e
    proof -
      have "build_ok identity st" using activate_plugins_ok act that b0 by blast
      from assms(3) [OF fresh_snapshot [OF this]] show ?thesis
        by (auto simp: rollback_def alloc_def with_scope_def split: option.splits outcome.splits)
    qed
    then show ?thesis
      unfolding build_scope_candidate_with_passive_def pol option.case Inr sum.case act prod.case Let_def
      by (auto simp: alloc_def split: outcome.splits option.splits prod.splits)
  qed
qed

end
