(* ===== verification/Scope_Manager.thy ===== *)
theory Scope_Manager
  imports Scope_Build
begin

text \<open>
  \<open>ScopeSlot\<close>, \<open>ScopeManager\<close> and \<open>ExtensionHost\<close> of \<^verbatim>\<open>lifecycle.rs\<close>. A slot (\<open>ArcSwapOption\<close>) holds the address
  of a snapshot or nothing, and \<open>compare_and_swap\<close> compares addresses. The publications of the
  manager are serialised by its publication gate, so they are modelled one after the other, each a
  function from the host to the host and its result. \<open>None\<close> is an operation that never returns (a gate
  waited for by its own holder) or panics; \<open>Cut\<close> is one whose future was dropped while it waited.
\<close>

section \<open>State\<close>

datatype slot_kind = ProjectSlot | WorkspaceSlot

record manager =
  mg_policy :: scope_policy
  mg_next_generation :: u64
  mg_application :: nat
  mg_project :: "nat option"
  mg_workspace :: "nat option"

record ('x, 'h, 'w) host =
  ho_mode :: runtime_mode
  ho_manager :: manager
  ho_deadlines :: lifecycle_deadlines
  ho_heap :: "('x, 'h, 'w) heap"

fun slot_current :: "manager \<Rightarrow> slot_kind \<Rightarrow> nat option" where
  "slot_current m ProjectSlot = mg_project m"
| "slot_current m WorkspaceSlot = mg_workspace m"

fun slot_store :: "manager \<Rightarrow> slot_kind \<Rightarrow> nat option \<Rightarrow> manager" where
  "slot_store m ProjectSlot v = m\<lparr>mg_project := v\<rparr>"
| "slot_store m WorkspaceSlot v = m\<lparr>mg_workspace := v\<rparr>"

text \<open>The previous value, and the manager with the new one when the previous was the expected.\<close>

definition compare_and_swap :: "manager \<Rightarrow> slot_kind \<Rightarrow> nat option \<Rightarrow> nat option \<Rightarrow> nat option \<times> manager" where
  "compare_and_swap m k expected new =
     (slot_current m k, if slot_current m k = expected then slot_store m k new else m)"

definition identity_at :: "('x, 'h, 'w) host \<Rightarrow> nat \<Rightarrow> scope_identity" where
  "identity_at ho a = sn_identity (scope_at (ho_heap ho) a)"

definition identities :: "('x, 'h, 'w) host \<Rightarrow> nat option \<Rightarrow> scope_identity option" where
  "identities ho v = map_option (identity_at ho) v"

section \<open>Results\<close>

fun scope_state_debug :: "scope_lifecycle_state \<Rightarrow> string" where
  "scope_state_debug SlReady = ''Ready''"
| "scope_state_debug SlActive = ''Active''"
| "scope_state_debug SlQuiescing = ''Quiescing''"
| "scope_state_debug SlDisposing = ''Disposing''"
| "scope_state_debug SlDisposed = ''Disposed''"
| "scope_state_debug SlFailed = ''Failed''"

fun scope_state_error_display :: "scope_state_error \<Rightarrow> string" where
  "scope_state_error_display (InvalidTransition e a) =
     ''invalid scope lifecycle transition: expected '' @ scope_state_debug e @ '', actual '' @ scope_state_debug a"
| "scope_state_error_display InvalidChildParent = ''child scope parent does not match''"

record publish_report =
  pub_published :: scope_identity
  pub_previous :: "scope_identity option"
  pub_previous_dispose :: "scope_dispose_report option"

record publish_error =
  pue_expected :: "scope_identity option"
  pue_actual :: "scope_identity option"
  pue_rejected :: scope_identity
  pue_rejected_dispose :: scope_dispose_report
  pue_reason :: string

record tree_report =
  tr_project :: scope_identity
  tr_workspace :: scope_identity
  tr_previous_project :: "scope_identity option"
  tr_previous_workspace :: "scope_identity option"
  tr_previous_dispose :: "scope_dispose_report option"

record tree_error =
  tre_expected_project :: "scope_identity option"
  tre_actual_project :: "scope_identity option"
  tre_expected_workspace :: "scope_identity option"
  tre_actual_workspace :: "scope_identity option"
  tre_rejected_project :: scope_identity
  tre_rejected_workspace :: scope_identity
  tre_rejected_dispose :: scope_dispose_report
  tre_rejected_workspace_dispose :: scope_dispose_report
  tre_reason :: string

record stale_generation_error =
  sg_completed :: scope_identity
  sg_actual :: "scope_identity option"

text \<open>Sequencing of operations that await: the rest runs only when the future was not dropped.\<close>

definition and_then ::
  "('s \<times> 'a outcome) option \<Rightarrow> ('s \<Rightarrow> 'a \<Rightarrow> ('s \<times> 'b outcome) option) \<Rightarrow> ('s \<times> 'b outcome) option" where
  "and_then m k =
     (case m of None \<Rightarrow> None | Some (s, Cut n) \<Rightarrow> Some (s, Cut n) | Some (s, Done a) \<Rightarrow> k s a)"

definition host_dispose ::
  "('x, 'w) runtime \<Rightarrow> nat \<Rightarrow> ('x, 'h, 'w) host \<Rightarrow> (('x, 'h, 'w) host \<times> scope_dispose_report outcome) option" where
  "host_dispose rt a ho =
     map_option (\<lambda>(h, res). (ho\<lparr>ho_heap := h\<rparr>, res)) (dispose_scope rt (ho_deadlines ho) a (ho_heap ho))"

section \<open>Slots\<close>

definition validate_current ::
  "('x, 'h, 'w) host \<Rightarrow> slot_kind \<Rightarrow> scope_identity \<Rightarrow> (stale_generation_error, unit) result" where
  "validate_current ho k completed =
     (let actual = identities ho (slot_current (ho_manager ho) k) in
      if actual = Some completed then Ok () else Err \<lparr>sg_completed = completed, sg_actual = actual\<rparr>)"

definition reject_candidate ::
  "('x, 'w) runtime \<Rightarrow> nat option \<Rightarrow> nat option \<Rightarrow> nat \<Rightarrow> string \<Rightarrow> ('x, 'h, 'w) host \<Rightarrow>
   (('x, 'h, 'w) host \<times> (publish_error, publish_report) result outcome) option" where
  "reject_candidate rt expected actual candidate reason ho =
     and_then (host_dispose rt candidate ho) (\<lambda>ho' dispose.
       Some (ho', Done (Err \<lparr>pue_expected = identities ho' expected, pue_actual = identities ho' actual,
         pue_rejected = identity_at ho' candidate, pue_rejected_dispose = dispose, pue_reason = reason\<rparr>)))"

text \<open>The disposal of the replaced snapshot, after the new one is in place.\<close>

definition dispose_previous ::
  "('x, 'w) runtime \<Rightarrow> nat option \<Rightarrow> ('x, 'h, 'w) host \<Rightarrow>
   (('x, 'h, 'w) host \<times> scope_dispose_report option outcome) option" where
  "dispose_previous rt previous ho =
     (case previous of
        None \<Rightarrow> Some (ho, Done None)
      | Some p \<Rightarrow> and_then (host_dispose rt p ho) (\<lambda>ho' report. Some (ho', Done (Some report))))"

text \<open>
  The end of \<open>publish_with\<close> once the candidate is active: quiesce the previous snapshot, hand the
  candidate to the closure \<open>on_published\<close>, dispose the previous one.
\<close>

definition complete_publish ::
  "('x, 'w) runtime \<Rightarrow> (nat option \<Rightarrow> nat \<Rightarrow> ('x, 'h, 'w) heap \<Rightarrow> ('x, 'h, 'w) heap) \<Rightarrow> nat option \<Rightarrow> nat \<Rightarrow>
   ('x, 'h, 'w) host \<Rightarrow> (('x, 'h, 'w) host \<times> (publish_error, publish_report) result outcome) option" where
  "complete_publish rt on_published previous candidate ho =
     (let h1 = hp_emit (scope_diagnostic DCandidatePublished SevInfo (identity_at ho candidate) None
                 ''candidate scope published'') (ho_heap ho);
          h2 = (case previous of None \<Rightarrow> h1 | Some p \<Rightarrow> begin_quiesce p h1);
          h3 = on_published previous candidate h2
      in and_then (dispose_previous rt previous (ho\<lparr>ho_heap := h3\<rparr>)) (\<lambda>ho' dispose.
           Some (ho', Done (Ok \<lparr>pub_published = identity_at ho' candidate,
             pub_previous = identities ho' previous, pub_previous_dispose = dispose\<rparr>))))"

definition publish_with ::
  "('x, 'w) runtime \<Rightarrow> slot_kind \<Rightarrow> (nat option \<Rightarrow> nat \<Rightarrow> ('x, 'h, 'w) heap \<Rightarrow> ('x, 'h, 'w) heap) \<Rightarrow>
   nat option \<Rightarrow> nat \<Rightarrow> ('x, 'h, 'w) host \<Rightarrow>
   (('x, 'h, 'w) host \<times> (publish_error, publish_report) result outcome) option" where
  "publish_with rt k on_published expected candidate ho =
     (let st = state_of (scope_at (ho_heap ho) candidate) in
      if st \<noteq> SlReady
      then reject_candidate rt expected (slot_current (ho_manager ho) k) candidate
             (scope_state_error_display (InvalidTransition SlReady st)) ho
      else
        (let (previous, m) = compare_and_swap (ho_manager ho) k expected (Some candidate) in
         if previous \<noteq> expected
         then reject_candidate rt expected previous candidate ''expected_old_mismatch''
                (ho\<lparr>ho_heap := hp_emit (scope_diagnostic DCandidateCasRejected SevWarning (identity_at ho candidate) None
                   ''candidate publication lost the expected-old CAS race'') (ho_heap ho)\<rparr>)
         else
           (case mark_active candidate (ho_heap ho) of
              Inl e \<Rightarrow> reject_candidate rt expected previous candidate (scope_state_error_display e)
                (ho\<lparr>ho_manager := snd (compare_and_swap m k (Some candidate) previous)\<rparr>)
            | Inr h \<Rightarrow> complete_publish rt on_published previous candidate (ho\<lparr>ho_manager := m, ho_heap := h\<rparr>))))"

text \<open>\<open>ScopeSlot::publish\<close>, which hands the candidate to nobody; the manager does not use it.\<close>

definition slot_publish ::
  "('x, 'w) runtime \<Rightarrow> slot_kind \<Rightarrow> nat option \<Rightarrow> nat \<Rightarrow> ('x, 'h, 'w) host \<Rightarrow>
   (('x, 'h, 'w) host \<times> (publish_error, publish_report) result outcome) option" where
  "slot_publish rt k expected candidate ho = publish_with rt k (\<lambda>_ _ h. h) expected candidate ho"

section \<open>The manager\<close>

definition next_identity ::
  "('x, 'h, 'w) host \<Rightarrow> scope_kind_id \<Rightarrow> scope_id \<Rightarrow> nat option \<Rightarrow>
   ('x, 'h, 'w) host \<times> (extension_error, scope_identity) result" where
  "next_identity ho kind i parent =
     (let m = ho_manager ho; g = mg_next_generation m in
      if g = - 1 then (ho, Err ActivationGenerationExhausted)
      else
        (ho\<lparr>ho_manager := m\<lparr>mg_next_generation := g + 1\<rparr>\<rparr>,
         try_res (ActivationGeneration_new g) (\<lambda>generation.
           let identity = \<lparr>si_kind = kind, si_id = i, si_parent_id = map_option si_id (identities ho parent),
                           si_generation = generation\<rparr>
           in try_res (validate_identity (mg_policy m) identity (identities ho parent)) (\<lambda>_. Ok identity))))"

definition publish_project ::
  "('x, 'w) runtime \<Rightarrow> nat option \<Rightarrow> nat \<Rightarrow> ('x, 'h, 'w) host \<Rightarrow>
   (('x, 'h, 'w) host \<times> (publish_error, publish_report) result outcome) option" where
  "publish_project rt expected candidate ho =
     (let m = ho_manager ho in
      if mg_workspace m \<noteq> None
      then reject_candidate rt expected (mg_project m) candidate ''workspace_tree_publication_required'' ho
      else publish_with rt ProjectSlot (replace_child (mg_application m)) expected candidate ho)"

definition publish_workspace ::
  "('x, 'w) runtime \<Rightarrow> nat option \<Rightarrow> nat \<Rightarrow> ('x, 'h, 'w) host \<Rightarrow>
   (('x, 'h, 'w) host \<times> (publish_error, publish_report) result outcome) option" where
  "publish_workspace rt expected candidate ho =
     (let m = ho_manager ho in
      case mg_project m of
        None \<Rightarrow> reject_candidate rt expected (mg_workspace m) candidate ''workspace_parent_project_missing'' ho
      | Some project \<Rightarrow>
          if si_parent_id (identity_at ho candidate) \<noteq> Some (si_id (identity_at ho project))
          then reject_candidate rt expected (mg_workspace m) candidate
                 (scope_state_error_display InvalidChildParent) ho
          else publish_with rt WorkspaceSlot (replace_child project) expected candidate ho)"

text \<open>The error of \<open>publish_project_tree\<close>: both candidates are disposed, the Workspace first.\<close>

definition reject_tree ::
  "('x, 'w) runtime \<Rightarrow> nat option \<Rightarrow> nat option \<Rightarrow> nat option \<Rightarrow> nat option \<Rightarrow> nat \<Rightarrow> nat \<Rightarrow> string \<Rightarrow> ('x, 'h, 'w) host \<Rightarrow>
   (('x, 'h, 'w) host \<times> (tree_error, tree_report) result outcome) option" where
  "reject_tree rt expected_project actual_project expected_workspace actual_workspace project workspace reason ho =
     and_then (host_dispose rt workspace ho) (\<lambda>ho1 workspace_report.
     and_then (host_dispose rt project ho1) (\<lambda>ho2 project_report.
       Some (ho2, Done (Err
         \<lparr>tre_expected_project = identities ho2 expected_project, tre_actual_project = identities ho2 actual_project,
          tre_expected_workspace = identities ho2 expected_workspace,
          tre_actual_workspace = identities ho2 actual_workspace,
          tre_rejected_project = identity_at ho2 project, tre_rejected_workspace = identity_at ho2 workspace,
          tre_rejected_dispose = project_report, tre_rejected_workspace_dispose = workspace_report,
          tre_reason = reason\<rparr>))))"

text \<open>The end of \<open>publish_project_tree\<close>, after both slots were swapped; an \<open>expect\<close> that fails is \<open>None\<close>.\<close>

definition complete_tree ::
  "('x, 'w) runtime \<Rightarrow> nat option \<Rightarrow> nat option \<Rightarrow> nat \<Rightarrow> nat \<Rightarrow> ('x, 'h, 'w) host \<Rightarrow>
   (('x, 'h, 'w) host \<times> (tree_error, tree_report) result outcome) option" where
  "complete_tree rt previous_project previous_workspace project workspace ho =
     (case mark_active project (ho_heap ho) of
        Inl _ \<Rightarrow> None
      | Inr h1 \<Rightarrow>
          (case mark_active workspace h1 of
             Inl _ \<Rightarrow> None
           | Inr h2 \<Rightarrow>
               (let h3 = replace_child (mg_application (ho_manager ho)) previous_project project h2;
                    h4 = (case previous_project of None \<Rightarrow> h3 | Some p \<Rightarrow> begin_quiesce p h3)
                in and_then (dispose_previous rt previous_project (ho\<lparr>ho_heap := h4\<rparr>)) (\<lambda>ho' dispose.
                     Some (ho', Done (Ok
                       \<lparr>tr_project = identity_at ho' project, tr_workspace = identity_at ho' workspace,
                        tr_previous_project = identities ho' previous_project,
                        tr_previous_workspace = identities ho' previous_workspace,
                        tr_previous_dispose = dispose\<rparr>))))))"

definition publish_project_tree ::
  "('x, 'w) runtime \<Rightarrow> nat option \<Rightarrow> nat \<Rightarrow> nat option \<Rightarrow> nat \<Rightarrow> ('x, 'h, 'w) host \<Rightarrow>
   (('x, 'h, 'w) host \<times> (tree_error, tree_report) result outcome) option" where
  "publish_project_tree rt expected_project project expected_workspace workspace ho =
     (let m = ho_manager ho;
          reject = (\<lambda>actual_project actual_workspace reason.
            reject_tree rt expected_project actual_project expected_workspace actual_workspace project workspace reason);
          states = map (\<lambda>a. state_of (scope_at (ho_heap ho) a)) [project, workspace]
      in
      if project = workspace then None
      else
        (case find (\<lambda>st. st \<noteq> SlReady) states of
           Some actual \<Rightarrow>
             reject (mg_project m) (mg_workspace m) (scope_state_error_display (InvalidTransition SlReady actual)) ho
         | None \<Rightarrow>
             if si_parent_id (identity_at ho workspace) \<noteq> Some (si_id (identity_at ho project))
             then reject (mg_project m) (mg_workspace m) (scope_state_error_display InvalidChildParent) ho
             else
               (case attach_child project workspace (ho_heap ho) of
                  Inl e \<Rightarrow> reject (mg_project m) (mg_workspace m) (scope_state_error_display e) ho
                | Inr h \<Rightarrow>
                    (let ho1 = ho\<lparr>ho_heap := h\<rparr>;
                         (previous_project, m1) = compare_and_swap m ProjectSlot expected_project (Some project) in
                     if previous_project \<noteq> expected_project
                     then reject previous_project (mg_workspace m) ''project_expected_old_mismatch'' ho1
                     else
                       (let (previous_workspace, m2) =
                              compare_and_swap m1 WorkspaceSlot expected_workspace (Some workspace) in
                        if previous_workspace \<noteq> expected_workspace
                        then reject previous_project previous_workspace ''workspace_expected_old_mismatch''
                               (ho1\<lparr>ho_manager := snd (compare_and_swap m1 ProjectSlot (Some project) previous_project)\<rparr>)
                        else complete_tree rt previous_project previous_workspace project workspace
                               (ho1\<lparr>ho_manager := m2\<rparr>))))))"

definition clear_slot ::
  "('x, 'w) runtime \<Rightarrow> slot_kind \<Rightarrow> nat option \<Rightarrow> nat \<Rightarrow> ('x, 'h, 'w) host \<Rightarrow>
   (('x, 'h, 'w) host \<times> (stale_generation_error, scope_dispose_report option) result outcome) option" where
  "clear_slot rt k parent expected ho =
     (let (previous, m) = compare_and_swap (ho_manager ho) k (Some expected) None in
      if previous \<noteq> Some expected
      then Some (ho, Done (Err \<lparr>sg_completed = identity_at ho expected, sg_actual = identities ho previous\<rparr>))
      else
        (let h1 = begin_quiesce expected (ho_heap ho);
             h2 = (case parent of None \<Rightarrow> h1 | Some p \<Rightarrow> remove_child p expected h1)
         in and_then (host_dispose rt expected (ho\<lparr>ho_manager := m, ho_heap := h2\<rparr>)) (\<lambda>ho' report.
              Some (ho', Done (Ok (Some report))))))"

definition clear_project_scope ::
  "('x, 'w) runtime \<Rightarrow> nat option \<Rightarrow> ('x, 'h, 'w) host \<Rightarrow>
   (('x, 'h, 'w) host \<times> (stale_generation_error, scope_dispose_report option) result outcome) option" where
  "clear_project_scope rt expected ho =
     (case expected of
        None \<Rightarrow> Some (ho, Done (Ok None))
      | Some e \<Rightarrow>
          (case mg_workspace (ho_manager ho) of
             Some w \<Rightarrow> Some (ho, Done (Err \<lparr>sg_completed = identity_at ho e, sg_actual = Some (identity_at ho w)\<rparr>))
           | None \<Rightarrow> clear_slot rt ProjectSlot (Some (mg_application (ho_manager ho))) e ho))"

definition clear_workspace_scope ::
  "('x, 'w) runtime \<Rightarrow> nat option \<Rightarrow> ('x, 'h, 'w) host \<Rightarrow>
   (('x, 'h, 'w) host \<times> (stale_generation_error, scope_dispose_report option) result outcome) option" where
  "clear_workspace_scope rt expected ho =
     (case expected of
        None \<Rightarrow> Some (ho, Done (Ok None))
      | Some e \<Rightarrow> clear_slot rt WorkspaceSlot (mg_project (ho_manager ho)) e ho)"

definition shutdown ::
  "('x, 'w) runtime \<Rightarrow> ('x, 'h, 'w) host \<Rightarrow> (('x, 'h, 'w) host \<times> scope_dispose_report outcome) option" where
  "shutdown rt ho = host_dispose rt (mg_application (ho_manager ho)) ho"

section \<open>The extension host\<close>

definition build_in_host ::
  "(dep_graph \<Rightarrow> plugin_id list list) \<Rightarrow> ('x, 'w) runtime \<Rightarrow> scope_kind_id \<Rightarrow> nat \<Rightarrow> scope_id \<Rightarrow>
   ('ver :: linorder, 'x, 'h, 'w) internal_plugin list \<Rightarrow> ('x, 'h, 'w) host \<Rightarrow>
   (('x, 'h, 'w) host \<times> (build_error, nat) result outcome) option" where
  "build_in_host scc rt kind parent i plugins ho =
     (case next_identity ho kind i (Some parent) of
        (ho1, Inl e) \<Rightarrow> Some (ho1, Done (Err (Resolution e)))
      | (ho1, Inr identity) \<Rightarrow>
          map_option (\<lambda>(h, res). (ho1\<lparr>ho_heap := h\<rparr>, res))
            (build_scope_candidate scc rt (ho_deadlines ho1) identity
               (Some (sn_plan (scope_at (ho_heap ho1) parent))) plugins (ho_heap ho1)))"

definition build_project_candidate ::
  "(dep_graph \<Rightarrow> plugin_id list list) \<Rightarrow> ('x, 'w) runtime \<Rightarrow> scope_id \<Rightarrow>
   ('ver :: linorder, 'x, 'h, 'w) internal_plugin list \<Rightarrow> ('x, 'h, 'w) host \<Rightarrow>
   (('x, 'h, 'w) host \<times> (build_error, nat) result outcome) option" where
  "build_project_candidate scc rt i plugins ho =
     build_in_host scc rt ''project'' (mg_application (ho_manager ho)) i plugins ho"

definition build_workspace_candidate ::
  "(dep_graph \<Rightarrow> plugin_id list list) \<Rightarrow> ('x, 'w) runtime \<Rightarrow> nat \<Rightarrow> scope_id \<Rightarrow>
   ('ver :: linorder, 'x, 'h, 'w) internal_plugin list \<Rightarrow> ('x, 'h, 'w) host \<Rightarrow>
   (('x, 'h, 'w) host \<times> (build_error, nat) result outcome) option" where
  "build_workspace_candidate scc rt parent i plugins ho = build_in_host scc rt ''workspace'' parent i plugins ho"

text \<open>\<open>version_one\<close> is \<open>PluginVersion::parse("1.0.0")\<close>.\<close>

definition host_capability_descriptor :: "'ver \<Rightarrow> capability_declaration list \<Rightarrow> 'ver plugin_descriptor option" where
  "host_capability_descriptor version_one capabilities =
     (if capabilities = [] then None
      else Some ((PluginDescriptor_new ''org.yulab.rho.host'' version_one [''application''])\<lparr>pd_provides := capabilities\<rparr>))"

definition application_identity :: scope_identity where
  "application_identity =
     \<lparr>si_kind = ''application'', si_id = ''application'', si_parent_id = None, si_generation = 1\<rparr>"

datatype extension_host_error =
  ApplicationGraph extension_error
| ApplicationBuild build_error
| ApplicationState scope_state_error

text \<open>\<open>ScopeManager::new\<close> on the application snapshot, and the host around it.\<close>

definition host_around ::
  "runtime_mode \<Rightarrow> lifecycle_deadlines \<Rightarrow> nat \<Rightarrow> ('x, 'h, 'w) heap \<Rightarrow>
   (extension_host_error, ('x, 'h, 'w) host) result option" where
  "host_around mode dl application h =
     (case phase_one of
        None \<Rightarrow> None
      | Some policy \<Rightarrow>
          Some (case mark_active application h of
             Inl e \<Rightarrow> Err (ApplicationState e)
           | Inr h' \<Rightarrow> Ok \<lparr>ho_mode = mode,
               ho_manager = \<lparr>mg_policy = policy, mg_next_generation = 2, mg_application = application,
                             mg_project = None, mg_workspace = None\<rparr>,
               ho_deadlines = dl, ho_heap = h'\<rparr>))"

definition new_with_application_plugins ::
  "(dep_graph \<Rightarrow> plugin_id list list) \<Rightarrow> ('x, 'w) runtime \<Rightarrow> 'ver \<Rightarrow> runtime_mode \<Rightarrow> capability_declaration list \<Rightarrow>
   ('ver :: linorder, 'x, 'h, 'w) internal_plugin list \<Rightarrow> lifecycle_deadlines \<Rightarrow> 'w \<Rightarrow>
   (extension_host_error, ('x, 'h, 'w) host) result outcome option" where
  "new_with_application_plugins scc rt version_one mode capabilities plugins dl w =
     (case build_scope_candidate_with_passive scc rt dl application_identity None plugins
             (case host_capability_descriptor version_one capabilities of None \<Rightarrow> [] | Some d \<Rightarrow> [d])
             \<lparr>hp_scopes = [], hp_log = [], hp_world = w\<rparr> of
        None \<Rightarrow> None
      | Some (h, Cut n) \<Rightarrow> Some (Cut n)
      | Some (h, Done (Inl e)) \<Rightarrow> Some (Done (Err (ApplicationBuild e)))
      | Some (h, Done (Inr a)) \<Rightarrow> map_option Done (host_around mode dl a h))"

definition new_with_host_capabilities ::
  "(dep_graph \<Rightarrow> plugin_id list list) \<Rightarrow> ('ver :: linorder) \<Rightarrow> runtime_mode \<Rightarrow> capability_declaration list \<Rightarrow>
   lifecycle_deadlines \<Rightarrow> 'w \<Rightarrow> (extension_host_error, ('x, 'h, 'w) host) result option" where
  "new_with_host_capabilities scc version_one mode capabilities dl w =
     (case phase_one of
        None \<Rightarrow> None
      | Some policy \<Rightarrow>
          (case resolve_activation_plan scc policy application_identity None
                  (case host_capability_descriptor version_one capabilities of None \<Rightarrow> [] | Some d \<Rightarrow> [d]) of
             Inl (Rejected e) \<Rightarrow> Some (Err (ApplicationGraph e))
           | Inl Panicked \<Rightarrow> None
           | Inr plan \<Rightarrow>
               (let inst = \<lparr>pii_plugin_id = ''org.yulab.rho.host'', pii_scope = application_identity\<rparr>;
                    plugins = (if ap_activation_order plan = [] then []
                      else [\<lparr>apl_instance = inst, apl_effects = into_stack (EffectSink_new inst)\<rparr>]);
                    (a, h) = alloc (ScopeSnapshot_new_ready application_identity plan
                               (RegistryHub_candidate application_identity) ScopedTaskTracker_new plugins)
                             \<lparr>hp_scopes = [], hp_log = [], hp_world = w\<rparr>
                in host_around mode dl a h)))"

end
