(* ===== verification/Scope_Invariant.thy ===== *)
theory Scope_Invariant
  imports Scope_Manager
begin

text \<open>
  The operations of \<open>ExtensionHost\<close> as a step relation, and the invariant of every reachable host: each
  snapshot is well formed, generations are unique and below the counter, and the children of the
  snapshots form no cycle, so that every disposal ends.
\<close>

section \<open>Operations\<close>

datatype ('ver, 'x, 'h, 'w) host_op =
  OpBuildProject scope_id "('ver, 'x, 'h, 'w) internal_plugin list"
| OpBuildWorkspace nat scope_id "('ver, 'x, 'h, 'w) internal_plugin list"
| OpRollback nat
| OpPublishProject "nat option" nat
| OpPublishWorkspace "nat option" nat
| OpPublishTree "nat option" nat "nat option" nat
| OpClearProject "nat option"
| OpClearWorkspace "nat option"
| OpShutdown
| OpLease nat
| OpDropLease nat

text \<open>The addresses a caller must hold to make the call.\<close>

fun op_addresses :: "('ver, 'x, 'h, 'w) host_op \<Rightarrow> nat set" where
  "op_addresses (OpBuildWorkspace a _ _) = {a}"
| "op_addresses (OpRollback a) = {a}"
| "op_addresses (OpPublishProject e c) = insert c (set_option e)"
| "op_addresses (OpPublishWorkspace e c) = insert c (set_option e)"
| "op_addresses (OpPublishTree e p f w) = {p, w} \<union> set_option e \<union> set_option f"
| "op_addresses (OpClearProject e) = set_option e"
| "op_addresses (OpClearWorkspace e) = set_option e"
| "op_addresses (OpLease a) = {a}"
| "op_addresses (OpDropLease a) = {a}"
| "op_addresses _ = {}"

text \<open>Taking a lease of a snapshot's registry, and giving one back.\<close>

definition host_lease :: "nat \<Rightarrow> ('x, 'h, 'w) host \<Rightarrow> ('x, 'h, 'w) host \<times> (routing_error, unit) result" where
  "host_lease a ho =
     (case lease (sn_registry (scope_at (ho_heap ho) a)) of
        Inl e \<Rightarrow> (ho, Err e)
      | Inr rg \<Rightarrow> (ho\<lparr>ho_heap := upd a (\<lambda>s. s\<lparr>sn_registry := rg\<rparr>) (ho_heap ho)\<rparr>, Ok ()))"

definition host_drop_lease :: "nat \<Rightarrow> ('x, 'h, 'w) host \<Rightarrow> ('x, 'h, 'w) host" where
  "host_drop_lease a ho =
     ho\<lparr>ho_heap := upd a (\<lambda>s. s\<lparr>sn_registry := drop_lease (sn_registry s)\<rparr>) (ho_heap ho)\<rparr>"

text \<open>The host an operation leaves; \<open>None\<close> when it does not return.\<close>

fun exec_op ::
  "(dep_graph \<Rightarrow> plugin_id list list) \<Rightarrow> ('x, 'w) runtime \<Rightarrow> ('ver :: linorder, 'x, 'h, 'w) host_op \<Rightarrow>
   ('x, 'h, 'w) host \<Rightarrow> ('x, 'h, 'w) host option" where
  "exec_op scc rt (OpBuildProject i ps) ho = map_option fst (build_project_candidate scc rt i ps ho)"
| "exec_op scc rt (OpBuildWorkspace p i ps) ho = map_option fst (build_workspace_candidate scc rt p i ps ho)"
| "exec_op scc rt (OpRollback a) ho = map_option fst (host_dispose rt a ho)"
| "exec_op scc rt (OpPublishProject e c) ho = map_option fst (publish_project rt e c ho)"
| "exec_op scc rt (OpPublishWorkspace e c) ho = map_option fst (publish_workspace rt e c ho)"
| "exec_op scc rt (OpPublishTree e p f w) ho = map_option fst (publish_project_tree rt e p f w ho)"
| "exec_op scc rt (OpClearProject e) ho = map_option fst (clear_project_scope rt e ho)"
| "exec_op scc rt (OpClearWorkspace e) ho = map_option fst (clear_workspace_scope rt e ho)"
| "exec_op scc rt OpShutdown ho = map_option fst (shutdown rt ho)"
| "exec_op scc rt (OpLease a) ho = Some (fst (host_lease a ho))"
| "exec_op scc rt (OpDropLease a) ho = Some (host_drop_lease a ho)"

definition op_valid :: "('x, 'h, 'w) host \<Rightarrow> ('ver, 'x, 'h, 'w) host_op \<Rightarrow> bool" where
  "op_valid ho op \<longleftrightarrow> op_addresses op \<subseteq> {..< length (hp_scopes (ho_heap ho))}"

inductive runs ::
  "(dep_graph \<Rightarrow> plugin_id list list) \<Rightarrow> ('x, 'w) runtime \<Rightarrow> ('ver :: linorder, 'x, 'h, 'w) host_op list \<Rightarrow>
   ('x, 'h, 'w) host \<Rightarrow> ('x, 'h, 'w) host \<Rightarrow> bool"
  for scc rt where
  nothing: "runs scc rt [] ho ho"
| operation: "op_valid ho op \<Longrightarrow> exec_op scc rt op ho = Some ho1 \<Longrightarrow> runs scc rt ops ho1 ho' \<Longrightarrow>
    runs scc rt (op # ops) ho ho'"

inductive_cases runs_ConsE: "runs scc rt (op # ops) ho ho'"
inductive_cases runs_NilE: "runs scc rt [] ho ho'"

section \<open>Children without cycles\<close>

text \<open>
  An abstract view of the heap: which snapshots are ready, which are in a slot, and who is whose child.
  The ready ones belong to a set of snapshots that were never published; it is closed under children and
  apart from the slots, and no snapshot is ready while it is somebody's child.
\<close>

definition forest :: "nat set \<Rightarrow> nat set \<Rightarrow> (nat \<times> nat) set \<Rightarrow> bool" where
  "forest ready slots E \<longleftrightarrow>
     acyclic E \<and> (\<exists>U. ready \<subseteq> U \<and> U \<inter> slots = {} \<and> E `` U \<subseteq> U) \<and> Range E \<inter> ready = {}"

lemma forest_mono:
  "forest ready slots E \<Longrightarrow> ready' \<subseteq> ready \<Longrightarrow> slots' \<subseteq> slots \<Longrightarrow> E' \<subseteq> E \<Longrightarrow> forest ready' slots' E'"
  unfolding forest_def by (elim conjE exE, intro conjI)
    (blast intro: acyclic_subset, rule_tac x = U in exI, blast, blast)

lemma rtrancl_stays: "(x, y) \<in> E\<^sup>* \<Longrightarrow> E `` U \<subseteq> U \<Longrightarrow> x \<in> U \<Longrightarrow> y \<in> U"
  by (induction rule: rtrancl_induct) blast+

text \<open>A published snapshot becomes the child of one in a slot.\<close>

lemma forest_publish:
  assumes "forest ready slots E" "c \<in> ready" "p \<in> slots"
  shows "forest (ready - {c}) (insert c slots) (insert (p, c) E)"
proof -
  obtain U where ac: "acyclic E" and U: "ready \<subseteq> U" "U \<inter> slots = {}" "E `` U \<subseteq> U" and r: "Range E \<inter> ready = {}"
    using assms(1) unfolding forest_def by blast
  have "(c, p) \<notin> E\<^sup>*" using rtrancl_stays [OF _ U(3)] U(1,2) assms(2,3) by blast
  moreover have "ready - {c} \<subseteq> U - {c}" "(U - {c}) \<inter> insert c slots = {}"
    "insert (p, c) E `` (U - {c}) \<subseteq> U - {c}"
    using U r assms(2,3) by blast+
  ultimately show ?thesis
    unfolding forest_def using ac r acyclic_insert by (intro conjI exI [of _ "U - {c}"]) auto
qed

text \<open>A candidate tree whose publication failed: its Workspace is no longer ready.\<close>

lemma forest_attach:
  assumes "forest ready slots E" "p \<in> ready" "w \<in> ready" "p \<noteq> w"
  shows "forest (ready - {w}) slots (insert (p, w) E)"
proof -
  obtain U where ac: "acyclic E" and U: "ready \<subseteq> U" "U \<inter> slots = {}" "E `` U \<subseteq> U" and r: "Range E \<inter> ready = {}"
    using assms(1) unfolding forest_def by blast
  have "(w, p) \<notin> E\<^sup>*"
  proof
    assume "(w, p) \<in> E\<^sup>*"
    then have "p \<in> Range E" using assms(4) by (metis Range_iff rtranclE)
    with r assms(2) show False by blast
  qed
  with ac U r assms(2,3) show ?thesis
    unfolding forest_def using acyclic_insert by (intro conjI exI [of _ U]) auto
qed

text \<open>A published tree.\<close>

lemma forest_tree:
  assumes "forest ready slots E" "p \<in> ready" "w \<in> ready" "p \<noteq> w" "a \<in> slots"
  shows "forest (ready - {p, w}) (insert p (insert w slots)) (insert (a, p) (insert (p, w) E))"
proof -
  obtain U where U: "ready \<subseteq> U" "U \<inter> slots = {}" "E `` U \<subseteq> U" and r: "Range E \<inter> ready = {}"
    using assms(1) unfolding forest_def by blast
  have ac: "acyclic (insert (p, w) E)" using forest_attach [OF assms(1-4)] by (simp add: forest_def)
  have "insert (p, w) E `` U \<subseteq> U" using U assms(2,3) by blast
  from rtrancl_stays [OF _ this] have "(p, a) \<notin> (insert (p, w) E)\<^sup>*" using U(1,2) assms(2,5) by blast
  with ac have "acyclic (insert (a, p) (insert (p, w) E))" by (simp add: acyclic_insert)
  moreover have "ready - {p, w} \<subseteq> U - {p, w}" "(U - {p, w}) \<inter> insert p (insert w slots) = {}"
    "insert (a, p) (insert (p, w) E) `` (U - {p, w}) \<subseteq> U - {p, w}"
    using U r assms(2,3,5) by blast+
  ultimately show ?thesis
    unfolding forest_def using r by (intro conjI exI [of _ "U - {p, w}"]) auto
qed

lemma forest_alloc:
  assumes "forest ready slots E" "n \<notin> slots" "n \<notin> Field E"
  shows "forest (insert n ready) slots E"
proof -
  obtain U where ac: "acyclic E" and U: "ready \<subseteq> U" "U \<inter> slots = {}" "E `` U \<subseteq> U" and r: "Range E \<inter> ready = {}"
    using assms(1) unfolding forest_def by blast
  have "E `` insert n U \<subseteq> insert n U" using U(3) assms(3) by (auto simp: Field_def)
  with ac U r assms(2,3) show ?thesis
    unfolding forest_def by (intro conjI exI [of _ "insert n U"]) (auto simp: Field_def)
qed

section \<open>The invariant\<close>

definition ready_set :: "('x, 'h, 'w) heap \<Rightarrow> nat set" where
  "ready_set h = {b. b < length (hp_scopes h) \<and> state_of (scope_at h b) = SlReady}"

definition child_edges :: "('x, 'h, 'w) heap \<Rightarrow> (nat \<times> nat) set" where
  "child_edges h = {(b, c). b < length (hp_scopes h) \<and> c \<in> set (sn_children (scope_at h b))}"

definition slot_set :: "manager \<Rightarrow> nat set" where
  "slot_set m = insert (mg_application m) (set_option (mg_project m) \<union> set_option (mg_workspace m))"

definition generation_at :: "('x, 'h, 'w) heap \<Rightarrow> nat \<Rightarrow> nat" where
  "generation_at h b = unat (si_generation (sn_identity (scope_at h b)))"

definition generations_ok :: "nat \<Rightarrow> ('x, 'h, 'w) heap \<Rightarrow> bool" where
  "generations_ok g h \<longleftrightarrow>
     (\<forall>b < length (hp_scopes h). 0 < generation_at h b \<and> generation_at h b < g \<and> plan_before g (sn_plan (scope_at h b))) \<and>
     inj_on (generation_at h) {..< length (hp_scopes h)}"

text \<open>The snapshots in the slots are linked: application to project, project to Workspace.\<close>

definition chained :: "manager \<Rightarrow> ('x, 'h, 'w) heap \<Rightarrow> bool" where
  "chained m h \<longleftrightarrow>
     (\<forall>p. mg_project m = Some p \<longrightarrow> p \<in> set (sn_children (scope_at h (mg_application m)))) \<and>
     (\<forall>w. mg_workspace m = Some w \<longrightarrow> (\<exists>p. mg_project m = Some p \<and> w \<in> set (sn_children (scope_at h p))))"

definition ext_host_inv :: "('x, 'h, 'w) host \<Rightarrow> bool" where
  "ext_host_inv ho \<longleftrightarrow>
     (\<forall>b < length (hp_scopes (ho_heap ho)). scope_ok (scope_at (ho_heap ho) b)) \<and>
     generations_ok (unat (mg_next_generation (ho_manager ho))) (ho_heap ho) \<and>
     0 < unat (mg_next_generation (ho_manager ho)) \<and>
     slot_set (ho_manager ho) \<subseteq> {..< length (hp_scopes (ho_heap ho))} \<and>
     Field (child_edges (ho_heap ho)) \<subseteq> {..< length (hp_scopes (ho_heap ho))} \<and>
     forest (ready_set (ho_heap ho)) (slot_set (ho_manager ho)) (child_edges (ho_heap ho)) \<and>
     chained (ho_manager ho) (ho_heap ho)"

text \<open>Every snapshot stays well formed and moves forward; the lists of children may change.\<close>

definition heap_evolves :: "('x, 'h, 'w) heap \<Rightarrow> ('x, 'h, 'w) heap \<Rightarrow> bool" where
  "heap_evolves h h' \<longleftrightarrow>
     length (hp_scopes h') = length (hp_scopes h) \<and>
     (\<forall>b < length (hp_scopes h). scope_ok (scope_at h b) \<longrightarrow>
        scope_ok (scope_at h' b) \<and> scope_evolves (scope_at h b) (scope_at h' b))"

lemma heap_evolves_refl [simp]: "heap_evolves h h"
  by (simp add: heap_evolves_def)

lemma heap_evolves_trans: "heap_evolves a b \<Longrightarrow> heap_evolves b c \<Longrightarrow> heap_evolves a c"
  unfolding heap_evolves_def by (auto intro: scope_evolves_trans)

lemma heap_step_evolves: "heap_step held h h' \<Longrightarrow> heap_evolves h h' \<and> child_edges h' = child_edges h"
  by (auto simp: heap_evolves_def heap_step_def child_edges_def)

lemma stage_zero: "lifecycle_stage st = 0 \<longleftrightarrow> st = SlReady"
  by (cases st) simp_all

lemma ready_set_evolves:
  assumes "heap_evolves h h'" "\<forall>b < length (hp_scopes h). scope_ok (scope_at h b)"
  shows "ready_set h' \<subseteq> ready_set h"
proof
  fix b assume "b \<in> ready_set h'"
  then have b: "b < length (hp_scopes h)" "lifecycle_stage (state_of (scope_at h' b)) = 0"
    using assms(1) by (simp_all add: ready_set_def heap_evolves_def)
  then have "lifecycle_stage (state_of (scope_at h b)) \<le> 0" using assms by (auto simp: heap_evolves_def scope_evolves_def)
  with b(1) show "b \<in> ready_set h" using stage_zero by (simp add: ready_set_def)
qed

lemma generations_evolve:
  assumes "heap_evolves h h'" "\<forall>b < length (hp_scopes h). scope_ok (scope_at h b)" "generations_ok g h" "g \<le> g'"
  shows "generations_ok g' h'"
proof -
  have same: "generation_at h' b = generation_at h b \<and> sn_plan (scope_at h' b) = sn_plan (scope_at h b)"
    if "b < length (hp_scopes h)" for b
    using assms(1,2) that by (simp add: heap_evolves_def scope_evolves_def generation_at_def)
  have len: "length (hp_scopes h') = length (hp_scopes h)" using assms(1) by (simp add: heap_evolves_def)
  have "inj_on (generation_at h') {..< length (hp_scopes h)}"
    using assms(3) same inj_on_cong [of "{..< length (hp_scopes h)}" "generation_at h'" "generation_at h"]
    by (simp add: generations_ok_def)
  with assms(3,4) same len show ?thesis
    by (auto simp: generations_ok_def intro: plan_before_mono less_le_trans)
qed

text \<open>The general step: the heap evolves, and the abstract view of the new host is a forest.\<close>

lemma host_inv_step:
  assumes "ext_host_inv ho" "heap_evolves (ho_heap ho) (ho_heap ho')"
    and "unat (mg_next_generation (ho_manager ho)) \<le> unat (mg_next_generation (ho_manager ho'))"
    and "slot_set (ho_manager ho') \<subseteq> {..< length (hp_scopes (ho_heap ho))}"
    and "Field (child_edges (ho_heap ho')) \<subseteq> {..< length (hp_scopes (ho_heap ho))}"
    and "forest (ready_set (ho_heap ho')) (slot_set (ho_manager ho')) (child_edges (ho_heap ho'))"
    and "chained (ho_manager ho') (ho_heap ho')"
  shows "ext_host_inv ho'"
proof -
  have ok: "\<forall>b < length (hp_scopes (ho_heap ho)). scope_ok (scope_at (ho_heap ho) b)"
    and g: "generations_ok (unat (mg_next_generation (ho_manager ho))) (ho_heap ho)"
    and p: "0 < unat (mg_next_generation (ho_manager ho))"
    using assms(1) by (simp_all add: ext_host_inv_def)
  have len: "length (hp_scopes (ho_heap ho')) = length (hp_scopes (ho_heap ho))" using assms(2) by (simp add: heap_evolves_def)
  have "\<forall>b < length (hp_scopes (ho_heap ho)). scope_ok (scope_at (ho_heap ho') b)"
    using assms(2) ok by (simp add: heap_evolves_def)
  with generations_evolve [OF assms(2) ok g assms(3)] p assms(3-7) len show ?thesis by (simp add: ext_host_inv_def)
qed

lemma host_inv_heap_step:
  assumes "ext_host_inv ho" "heap_step held (ho_heap ho) h"
  shows "ext_host_inv (ho\<lparr>ho_heap := h\<rparr>)"
proof -
  note e = heap_step_evolves [OF assms(2)]
  have ok: "\<forall>b < length (hp_scopes (ho_heap ho)). scope_ok (scope_at (ho_heap ho) b)"
    using assms(1) by (simp add: ext_host_inv_def)
  have "forest (ready_set h) (slot_set (ho_manager ho)) (child_edges h)"
    using assms(1) ready_set_evolves [OF conjunct1 [OF e] ok] e
    by (auto simp: ext_host_inv_def intro: forest_mono)
  moreover have "chained (ho_manager ho) h"
    using assms by (simp add: ext_host_inv_def chained_def heap_step_def)
  ultimately show ?thesis
    using e assms(1) by (intro host_inv_step [OF assms(1)]) (auto simp: ext_host_inv_def)
qed

section \<open>Good steps\<close>

definition host_moves :: "('x, 'h, 'w) host \<Rightarrow> ('x, 'h, 'w) host \<Rightarrow> bool" where
  "host_moves ho ho' \<longleftrightarrow>
     length (hp_scopes (ho_heap ho)) \<le> length (hp_scopes (ho_heap ho')) \<and>
     (\<forall>b < length (hp_scopes (ho_heap ho)). scope_evolves (scope_at (ho_heap ho) b) (scope_at (ho_heap ho') b)) \<and>
     unat (mg_next_generation (ho_manager ho)) \<le> unat (mg_next_generation (ho_manager ho')) \<and>
     mg_application (ho_manager ho') = mg_application (ho_manager ho)"

definition good_step :: "('x, 'h, 'w) host \<Rightarrow> ('x, 'h, 'w) host \<Rightarrow> bool" where
  "good_step ho ho' \<longleftrightarrow> (ext_host_inv ho \<longrightarrow> ext_host_inv ho' \<and> host_moves ho ho')"

lemma good_step_refl [simp]: "good_step ho ho"
  by (simp add: good_step_def host_moves_def)

lemma good_step_trans: "good_step a b \<Longrightarrow> good_step b c \<Longrightarrow> good_step a c"
  unfolding good_step_def host_moves_def by (auto intro: scope_evolves_trans)

lemma host_inv_ok: "ext_host_inv ho \<Longrightarrow> \<forall>b < length (hp_scopes (ho_heap ho)). scope_ok (scope_at (ho_heap ho) b)"
  by (simp add: ext_host_inv_def)

lemma moves_of_evolves:
  assumes "ext_host_inv ho" "heap_evolves (ho_heap ho) (ho_heap ho')"
    and "unat (mg_next_generation (ho_manager ho)) \<le> unat (mg_next_generation (ho_manager ho'))"
    and "mg_application (ho_manager ho') = mg_application (ho_manager ho)"
  shows "host_moves ho ho'"
  using assms host_inv_ok [OF assms(1)] by (auto simp: host_moves_def heap_evolves_def)

lemma good_heap_step:
  assumes "heap_step held (ho_heap ho) h"
  shows "good_step ho (ho\<lparr>ho_heap := h\<rparr>)"
  unfolding good_step_def
proof
  assume inv: "ext_host_inv ho"
  show "ext_host_inv (ho\<lparr>ho_heap := h\<rparr>) \<and> host_moves ho (ho\<lparr>ho_heap := h\<rparr>)"
    using host_inv_heap_step [OF inv assms] moves_of_evolves [OF inv, of "ho\<lparr>ho_heap := h\<rparr>"]
      heap_step_evolves [OF assms] by simp
qed

lemma host_dispose_good:
  assumes "host_dispose rt a ho = Some (ho', res)"
  shows "good_step ho ho'" "ho_manager ho' = ho_manager ho"
    and "length (hp_scopes (ho_heap ho')) = length (hp_scopes (ho_heap ho))"
proof -
  obtain h where d: "dispose_scope rt (ho_deadlines ho) a (ho_heap ho) = Some (h, res)" and ho': "ho' = ho\<lparr>ho_heap := h\<rparr>"
    using assms by (auto simp: host_dispose_def)
  show "good_step ho ho'" unfolding ho' by (rule good_heap_step [OF dispose_scope_step [OF d]])
  show "ho_manager ho' = ho_manager ho" by (simp add: ho')
  show "length (hp_scopes (ho_heap ho')) = length (hp_scopes (ho_heap ho))"
    using heap_step_length [OF dispose_scope_step [OF d]] by (simp add: ho')
qed

lemma and_then_Some:
  "and_then m k = Some (s', res) \<longleftrightarrow>
     (\<exists>s n. m = Some (s, Cut n) \<and> s' = s \<and> res = Cut n) \<or> (\<exists>s a. m = Some (s, Done a) \<and> k s a = Some (s', res))"
  by (auto simp: and_then_def split: option.splits prod.splits outcome.splits)

lemma reject_candidate_good:
  assumes "reject_candidate rt e a c reason ho = Some (ho', res)"
  shows "good_step ho ho'" "ho_manager ho' = ho_manager ho"
  using assms host_dispose_good by (auto simp: reject_candidate_def and_then_Some)

lemma dispose_previous_good:
  assumes "dispose_previous rt p ho = Some (ho', res)"
  shows "good_step ho ho'" "ho_manager ho' = ho_manager ho"
  using assms host_dispose_good by (auto simp: dispose_previous_def and_then_Some split: option.splits)

lemma host_dispose_both: "host_dispose rt a ho = Some (ho', res) \<Longrightarrow> good_step ho ho' \<and> ho_manager ho' = ho_manager ho"
  using host_dispose_good by blast

lemma reject_tree_good:
  assumes "reject_tree rt ep ap ew aw p w reason ho = Some (ho', res)"
  shows "good_step ho ho'" "ho_manager ho' = ho_manager ho"
proof -
  have "good_step ho ho' \<and> ho_manager ho' = ho_manager ho"
    using assms unfolding reject_tree_def and_then_Some
    by (auto dest!: host_dispose_both intro: good_step_trans)
  then show "good_step ho ho'" "ho_manager ho' = ho_manager ho" by simp_all
qed

section \<open>Changes of children and slots\<close>

lemma mark_active_Ok:
  assumes "mark_active a h = Ok h'"
  shows "heap_evolves h h'" "child_edges h' = child_edges h" "sn_state (scope_at h a) = as_u8 SlReady"
    and "a < length (hp_scopes h) \<Longrightarrow> state_of (scope_at h' a) = SlActive"
    and "\<And>b. b \<noteq> a \<Longrightarrow> scope_at h' b = scope_at h b"
proof -
  let ?f = "\<lambda>s. s\<lparr>sn_state := as_u8 SlActive, sn_registry := open_routing (sn_registry s)\<rparr>"
  have st: "sn_state (scope_at h a) = as_u8 SlReady" and h': "h' = upd a ?f h"
    using assms by (auto simp: mark_active_def split: if_splits)
  then have ready: "state_of (scope_at h a) = SlReady" by (simp add: state_of_def)
  have "scope_ok (?f s) \<and> scope_evolves s (?f s)" if "scope_ok s" "state_of s = SlReady" for s :: "('a, 'b) scope_snapshot"
    using that by (auto simp: scope_ok_def scope_evolves_def open_routing_def
        accounted_other [unfolded open_routing_def] routing_owner [unfolded open_routing_def])
  with ready show "heap_evolves h h'" by (auto simp: heap_evolves_def h' scope_at_upd)
  show "child_edges h' = child_edges h" by (auto simp: child_edges_def h' scope_at_upd split: if_splits)
  show "sn_state (scope_at h a) = as_u8 SlReady" by (rule st)
  show "a < length (hp_scopes h) \<Longrightarrow> state_of (scope_at h' a) = SlActive" by (simp add: h' scope_at_upd)
  show "\<And>b. b \<noteq> a \<Longrightarrow> scope_at h' b = scope_at h b" by (simp add: h' scope_at_upd)
qed

lemma mark_active_ready:
  "scope_ok (scope_at h a) \<Longrightarrow> state_of (scope_at h a) = SlReady \<Longrightarrow> \<exists>h'. mark_active a h = Ok h'"
  by (auto simp: mark_active_def state_of_def scope_ok_def)

text \<open>Rewriting the children of one snapshot.\<close>

lemma children_evolves: "heap_evolves h (upd a (\<lambda>s. s\<lparr>sn_children := f s\<rparr>) h)"
proof -
  have "scope_ok (s\<lparr>sn_children := cs\<rparr>) = scope_ok s \<and> scope_evolves s (s\<lparr>sn_children := cs\<rparr>)" for s :: "('a, 'b) scope_snapshot" and cs
    by (simp add: scope_ok_def scope_evolves_def)
  then show ?thesis by (auto simp: heap_evolves_def scope_at_upd)
qed

lemma replace_child_edges:
  "heap_evolves h (replace_child a e c h)" "child_edges (replace_child a e c h) \<subseteq> insert (a, c) (child_edges h)"
proof -
  show "heap_evolves h (replace_child a e c h)" unfolding replace_child_def by (rule children_evolves)
  have r: "x \<in> set (remove1 y xs) \<Longrightarrow> x \<in> set xs" for x y :: nat and xs using notin_set_remove1 by metis
  show "child_edges (replace_child a e c h) \<subseteq> insert (a, c) (child_edges h)"
    unfolding replace_child_def by (auto simp: child_edges_def scope_at_upd split: if_splits option.splits dest: r)
qed

lemma remove_child_edges:
  "heap_evolves h (remove_child a e h)" "child_edges (remove_child a e h) \<subseteq> child_edges h"
proof -
  show "heap_evolves h (remove_child a e h)" unfolding remove_child_def by (rule children_evolves)
  show "child_edges (remove_child a e h) \<subseteq> child_edges h"
    unfolding remove_child_def by (auto simp: child_edges_def scope_at_upd split: if_splits)
qed

lemma begin_quiesce_evolves: "heap_evolves h (begin_quiesce a h)" "child_edges (begin_quiesce a h) = child_edges h"
  using heap_step_evolves [OF heap_step_begin_quiesce [of a "{}" h]] by simp_all

lemma emit_evolves [simp]: "heap_evolves h (hp_emit d h)" "child_edges (hp_emit d h) = child_edges h"
  by (simp_all add: heap_evolves_def child_edges_def)

lemma not_ready_later:
  assumes "heap_evolves h h'" "scope_ok (scope_at h b)" "state_of (scope_at h b) \<noteq> SlReady" "b < length (hp_scopes h)"
  shows "b \<notin> ready_set h'"
proof -
  have "lifecycle_stage (state_of (scope_at h b)) \<le> lifecycle_stage (state_of (scope_at h' b))"
    using assms(1,2,4) by (simp add: heap_evolves_def scope_evolves_def)
  moreover have "lifecycle_stage (state_of (scope_at h b)) \<noteq> 0" using assms(3) by (simp add: stage_zero)
  ultimately show ?thesis by (auto simp: ready_set_def)
qed

section \<open>Publication\<close>

lemma edges_closed:
  "ext_host_inv ho \<Longrightarrow> (b, c) \<in> child_edges (ho_heap ho) \<Longrightarrow> b < length (hp_scopes (ho_heap ho)) \<and> c < length (hp_scopes (ho_heap ho))"
  by (auto simp: ext_host_inv_def Field_def)

lemma slots_not_ready:
  assumes "ext_host_inv ho" "a \<in> slot_set (ho_manager ho)"
  shows "a < length (hp_scopes (ho_heap ho))" "state_of (scope_at (ho_heap ho) a) \<noteq> SlReady"
proof -
  show len: "a < length (hp_scopes (ho_heap ho))" using assms by (auto simp: ext_host_inv_def)
  have "a \<notin> ready_set (ho_heap ho)" using assms unfolding ext_host_inv_def forest_def by blast
  with len show "state_of (scope_at (ho_heap ho) a) \<noteq> SlReady" by (simp add: ready_set_def)
qed

lemma project_apart:
  assumes "ext_host_inv ho" "mg_project (ho_manager ho) = Some p"
  shows "p \<noteq> mg_application (ho_manager ho)"
proof -
  have "mg_application (ho_manager ho) < length (hp_scopes (ho_heap ho))"
    using assms(1) by (auto simp: ext_host_inv_def slot_set_def)
  then have "(mg_application (ho_manager ho), p) \<in> child_edges (ho_heap ho)"
    using assms by (auto simp: ext_host_inv_def chained_def child_edges_def)
  moreover have "acyclic (child_edges (ho_heap ho))" using assms(1) by (simp add: ext_host_inv_def forest_def)
  ultimately show ?thesis by (auto simp: acyclic_def)
qed

text \<open>
  The commit of a publication: the candidate becomes active, takes the slot and becomes a child of
  the parent, while the heap evolves otherwise.
\<close>

lemma commit_good:
  assumes inv: "ext_host_inv ho" and ready: "state_of (scope_at (ho_heap ho) c) = SlReady" "c < length (hp_scopes (ho_heap ho))"
    and p: "p \<in> slot_set (ho_manager ho)"
    and h: "heap_evolves (ho_heap ho) h" "c \<notin> ready_set h" "child_edges h \<subseteq> insert (p, c) (child_edges (ho_heap ho))"
    and m: "slot_set m \<subseteq> insert c (slot_set (ho_manager ho))"
      "mg_next_generation m = mg_next_generation (ho_manager ho)" "mg_application m = mg_application (ho_manager ho)"
    and ch: "chained m h"
  shows "ext_host_inv (ho\<lparr>ho_manager := m, ho_heap := h\<rparr>) \<and> host_moves ho (ho\<lparr>ho_manager := m, ho_heap := h\<rparr>)"
proof -
  let ?ho' = "ho\<lparr>ho_manager := m, ho_heap := h\<rparr>"
  have c: "c \<in> ready_set (ho_heap ho)" using ready by (simp add: ready_set_def)
  have old: "forest (ready_set (ho_heap ho)) (slot_set (ho_manager ho)) (child_edges (ho_heap ho))"
    "slot_set (ho_manager ho) \<subseteq> {..< length (hp_scopes (ho_heap ho))}"
    "Field (child_edges (ho_heap ho)) \<subseteq> {..< length (hp_scopes (ho_heap ho))}"
    using inv by (simp_all add: ext_host_inv_def)
  have "ready_set h \<subseteq> ready_set (ho_heap ho) - {c}" using ready_set_evolves [OF h(1) host_inv_ok [OF inv]] h(2) by blast
  with forest_publish [OF old(1) c p] have "forest (ready_set h) (slot_set m) (child_edges h)"
    using m(1) h(3) by (rule forest_mono)
  moreover have "slot_set m \<subseteq> {..< length (hp_scopes (ho_heap ho))}" using m(1) old(2) ready(2) by auto
  moreover have "Field (child_edges h) \<subseteq> {..< length (hp_scopes (ho_heap ho))}"
  proof -
    have "Field (child_edges h) \<subseteq> Field (insert (p, c) (child_edges (ho_heap ho)))" using h(3) by (rule mono_Field)
    also have "\<dots> \<subseteq> {..< length (hp_scopes (ho_heap ho))}" using old(2,3) p ready(2) by (auto simp: Field_def)
    finally show ?thesis .
  qed
  ultimately have "ext_host_inv ?ho'" using h(1) m(2) ch by (intro host_inv_step [OF inv]) simp_all
  moreover have "host_moves ho ?ho'" by (rule moves_of_evolves [OF inv]) (use h(1) m in simp_all)
  ultimately show ?thesis by blast
qed

definition quiesce_previous :: "nat option \<Rightarrow> ('x, 'h, 'w) heap \<Rightarrow> ('x, 'h, 'w) heap" where
  "quiesce_previous previous h = (case previous of None \<Rightarrow> h | Some p \<Rightarrow> begin_quiesce p h)"

lemma quiesce_previous_facts:
  "heap_evolves h (quiesce_previous previous h)" "child_edges (quiesce_previous previous h) = child_edges h"
  "sn_children (scope_at (quiesce_previous previous h) b) = sn_children (scope_at h b)"
  "previous \<noteq> Some b \<Longrightarrow> scope_at (quiesce_previous previous h) b = scope_at h b"
  by (auto simp: quiesce_previous_def begin_quiesce_evolves scope_at_begin_quiesce quiesced_ok(3) split: option.splits)

lemma replace_child_at:
  "b \<noteq> a \<Longrightarrow> scope_at (replace_child a e c h) b = scope_at h b"
  "a < length (hp_scopes h) \<Longrightarrow> c \<in> set (sn_children (scope_at (replace_child a e c h) a))"
  "state_of (scope_at (replace_child a e c h) b) = state_of (scope_at h b)"
  by (auto simp: replace_child_def scope_at_upd)

lemma published_heap:
  assumes "mark_active c h = Ok hm" "c < length (hp_scopes h)" "previous \<noteq> Some c" "a \<noteq> c"
    and H: "H = replace_child a previous c (quiesce_previous previous (hp_emit d hm))"
  shows "heap_evolves h H" "child_edges H \<subseteq> insert (a, c) (child_edges h)" "state_of (scope_at H c) = SlActive"
    and "a < length (hp_scopes h) \<Longrightarrow> c \<in> set (sn_children (scope_at H a))"
    and "b \<noteq> a \<Longrightarrow> sn_children (scope_at H b) = sn_children (scope_at h b)"
proof -
  note ma = mark_active_Ok [OF assms(1)]
  have len: "length (hp_scopes hm) = length (hp_scopes h)" using ma(1) by (simp add: heap_evolves_def)
  have e: "heap_evolves h (quiesce_previous previous (hp_emit d hm))"
    using ma(1) quiesce_previous_facts(1) heap_evolves_trans by (metis emit_evolves(1))
  show "heap_evolves h H" unfolding H using e replace_child_edges(1) heap_evolves_trans by blast
  show "child_edges H \<subseteq> insert (a, c) (child_edges h)"
    unfolding H using replace_child_edges(2) by (metis emit_evolves(2) ma(2) quiesce_previous_facts(2))
  show "state_of (scope_at H c) = SlActive"
    unfolding H replace_child_at(3) quiesce_previous_facts(4) [OF assms(3)] using ma(4) [OF assms(2)] by simp
  have len': "length (hp_scopes (quiesce_previous previous (hp_emit d hm))) = length (hp_scopes h)"
    using e by (simp add: heap_evolves_def)
  show "a < length (hp_scopes h) \<Longrightarrow> c \<in> set (sn_children (scope_at H a))"
    unfolding H by (rule replace_child_at(2)) (simp add: len')
  have "sn_children (scope_at hm b) = sn_children (scope_at h b)" if "b \<noteq> c" using ma(5) [OF that] by simp
  moreover have "sn_children (scope_at hm c) = sn_children (scope_at h c)"
    using assms(1,2) by (auto simp: mark_active_def scope_at_upd split: if_splits)
  ultimately have "sn_children (scope_at hm b) = sn_children (scope_at h b)" by blast
  then show "b \<noteq> a \<Longrightarrow> sn_children (scope_at H b) = sn_children (scope_at h b)"
    unfolding H by (simp add: replace_child_at(1) quiesce_previous_facts(3))
qed

text \<open>How a publication ends: the candidate is rejected and disposed, or it is committed.\<close>

lemma publish_with_cases:
  assumes "publish_with rt k (replace_child a) expected c ho = Some (ho', res)"
    and inv: "ext_host_inv ho" and c: "c < length (hp_scopes (ho_heap ho))"
  obtains (rejected) actual reason ho1 where
      "reject_candidate rt expected actual c reason ho1 = Some (ho', res)"
      "ho_manager ho1 = ho_manager ho" "heap_step {} (ho_heap ho) (ho_heap ho1)" "ho_deadlines ho1 = ho_deadlines ho"
      "state_of (scope_at (ho_heap ho) c) \<noteq> SlReady \<or> slot_current (ho_manager ho) k \<noteq> expected"
  | (committed) hm d ho1 where "state_of (scope_at (ho_heap ho) c) = SlReady" "slot_current (ho_manager ho) k = expected"
      "mark_active c (ho_heap ho) = Ok hm"
      "ho1 = ho\<lparr>ho_manager := slot_store (ho_manager ho) k (Some c),
                ho_heap := replace_child a expected c (quiesce_previous expected (hp_emit d hm))\<rparr>"
      "and_then (dispose_previous rt expected ho1) (\<lambda>ho2 dispose.
         Some (ho2, Done (Ok \<lparr>pub_published = identity_at ho2 c, pub_previous = identities ho2 expected,
           pub_previous_dispose = dispose\<rparr>))) = Some (ho', res)"
proof (cases "state_of (scope_at (ho_heap ho) c) = SlReady")
  case False
  with assms(1) show thesis
    by (intro rejected [of _ _ ho]) (auto simp: publish_with_def Let_def)
next
  case ready: True
  have ok: "scope_ok (scope_at (ho_heap ho) c)" using host_inv_ok [OF inv] c by blast
  show thesis
  proof (cases "slot_current (ho_manager ho) k = expected")
    case False
    let ?h = "hp_emit (scope_diagnostic DCandidateCasRejected SevWarning (identity_at ho c) None
      ''candidate publication lost the expected-old CAS race'') (ho_heap ho)"
    have "heap_step {} (ho_heap ho) ?h" by (rule heap_step_same_scopes) simp
    with False ready assms(1) show thesis
      by (intro rejected [of _ _ "ho\<lparr>ho_heap := ?h\<rparr>"]) (auto simp: publish_with_def compare_and_swap_def Let_def)
  next
    case True
    obtain hm where "mark_active c (ho_heap ho) = Ok hm" using mark_active_ready [OF ok ready] by blast
    with assms(1) ready True show thesis
      by (intro committed)
        (auto simp: publish_with_def compare_and_swap_def complete_publish_def Let_def quiesce_previous_def)
  qed
qed

lemma slot_set_store: "slot_set (slot_store m k (Some c)) \<subseteq> insert c (slot_set m)"
  by (cases k) (auto simp: slot_set_def)

lemma slot_store_sel [simp]:
  "mg_next_generation (slot_store m k v) = mg_next_generation m" "mg_application (slot_store m k v) = mg_application m"
  by (cases k; simp)+

text \<open>The parent that receives the candidate, for each slot.\<close>

definition publish_parent :: "manager \<Rightarrow> slot_kind \<Rightarrow> nat \<Rightarrow> bool" where
  "publish_parent m k a \<longleftrightarrow>
     (case k of ProjectSlot \<Rightarrow> mg_workspace m = None \<and> a = mg_application m
              | WorkspaceSlot \<Rightarrow> mg_project m = Some a)"

lemma publish_parent_slot: "publish_parent m k a \<Longrightarrow> a \<in> slot_set m"
  by (cases k) (auto simp: publish_parent_def slot_set_def)

lemma slot_current_slot: "slot_current m k = Some p \<Longrightarrow> p \<in> slot_set m"
  by (cases k) (auto simp: slot_set_def)

lemma committed_good:
  assumes inv: "ext_host_inv ho" and c: "c < length (hp_scopes (ho_heap ho))"
    and ready: "state_of (scope_at (ho_heap ho) c) = SlReady" and cur: "slot_current (ho_manager ho) k = expected"
    and a: "publish_parent (ho_manager ho) k a" and ma: "mark_active c (ho_heap ho) = Ok hm"
    and ho1: "ho1 = ho\<lparr>ho_manager := slot_store (ho_manager ho) k (Some c),
                ho_heap := replace_child a expected c (quiesce_previous expected (hp_emit d hm))\<rparr>"
  shows "ext_host_inv ho1" "host_moves ho ho1" "state_of (scope_at (ho_heap ho1) c) = SlActive"
    "slot_current (ho_manager ho1) k = Some c" "length (hp_scopes (ho_heap ho1)) = length (hp_scopes (ho_heap ho))"
proof -
  have as: "a \<in> slot_set (ho_manager ho)" using a by (rule publish_parent_slot)
  have ac: "a \<noteq> c" using slots_not_ready(2) [OF inv as] ready by blast
  have ec: "expected \<noteq> Some c"
    using slots_not_ready(2) [OF inv slot_current_slot] cur ready by metis
  let ?H = "replace_child a expected c (quiesce_previous expected (hp_emit d hm))"
  note P = published_heap [where d = d, OF ma c ec ac refl]
  have alen: "a < length (hp_scopes (ho_heap ho))" using slots_not_ready(1) [OF inv as] .
  have "c \<notin> ready_set ?H" using P(3) by (simp add: ready_set_def)
  moreover have "chained (slot_store (ho_manager ho) k (Some c)) ?H"
  proof (cases k)
    case ProjectSlot
    with a P(4) [OF alen] show ?thesis by (simp add: chained_def publish_parent_def)
  next
    case WorkspaceSlot
    then have pa: "mg_project (ho_manager ho) = Some a" using a by (simp add: publish_parent_def)
    have "sn_children (scope_at ?H (mg_application (ho_manager ho))) =
        sn_children (scope_at (ho_heap ho) (mg_application (ho_manager ho)))"
      by (rule P(5)) (use project_apart [OF inv pa] in simp)
    moreover have "a \<in> set (sn_children (scope_at (ho_heap ho) (mg_application (ho_manager ho))))"
      using inv pa by (simp add: ext_host_inv_def chained_def)
    ultimately show ?thesis using WorkspaceSlot pa P(4) [OF alen] by (simp add: chained_def)
  qed
  ultimately have "ext_host_inv ho1 \<and> host_moves ho ho1"
    unfolding ho1 by (intro commit_good [OF inv ready c as P(1) _ P(2) slot_set_store]) simp_all
  then show "ext_host_inv ho1" "host_moves ho ho1" by simp_all
  show "state_of (scope_at (ho_heap ho1) c) = SlActive" by (simp add: ho1 P(3))
  show "slot_current (ho_manager ho1) k = Some c" by (cases k) (simp_all add: ho1)
  show "length (hp_scopes (ho_heap ho1)) = length (hp_scopes (ho_heap ho))"
    using P(1) by (simp add: ho1 heap_evolves_def)
qed

lemma publish_with_good:
  assumes "publish_with rt k (replace_child a) expected c ho = Some (ho', res)"
    and inv: "ext_host_inv ho" and c: "c < length (hp_scopes (ho_heap ho))" and a: "publish_parent (ho_manager ho) k a"
  shows "ext_host_inv ho' \<and> host_moves ho ho'"
  using assms(1) inv c
proof (cases rule: publish_with_cases)
  case (rejected actual reason ho1)
  let ?ho1 = "ho\<lparr>ho_heap := ho_heap ho1\<rparr>"
  have g: "good_step ho ?ho1" by (rule good_heap_step [OF rejected(3)])
  have "ext_host_inv ho1 \<and> host_moves ho ho1" using g inv rejected(2) by (simp add: good_step_def ext_host_inv_def host_moves_def)
  moreover have "good_step ho1 ho'" by (rule reject_candidate_good [OF rejected(1)])
  ultimately show ?thesis using good_step_trans inv unfolding good_step_def by blast
next
  case (committed hm d ho1)
  note g = committed_good [OF inv c committed(1,2) a committed(3,4)]
  from committed(5) have "good_step ho1 ho'"
    by (auto simp: and_then_Some dest: dispose_previous_good)
  with g(1,2) show ?thesis using good_step_trans [of ho ho1 ho'] inv by (simp add: good_step_def)
qed

section \<open>Publication of a tree\<close>

lemma attach_child_Ok:
  assumes "attach_child p w h = Ok g"
  shows "heap_evolves h g" "child_edges g \<subseteq> insert (p, w) (child_edges h)"
    and "\<And>b. b \<noteq> p \<Longrightarrow> scope_at g b = scope_at h b" "\<And>b. state_of (scope_at g b) = state_of (scope_at h b)"
    and "p < length (hp_scopes h) \<Longrightarrow> w \<in> set (sn_children (scope_at g p))"
proof -
  have g: "g = upd p (\<lambda>s. s\<lparr>sn_children := sn_children s @ [w]\<rparr>) h"
    using assms by (auto simp: attach_child_def Let_def split: if_splits)
  show "heap_evolves h g" unfolding g by (rule children_evolves)
  show "child_edges g \<subseteq> insert (p, w) (child_edges h)"
    unfolding g by (auto simp: child_edges_def scope_at_upd split: if_splits)
  show "\<And>b. b \<noteq> p \<Longrightarrow> scope_at g b = scope_at h b" "\<And>b. state_of (scope_at g b) = state_of (scope_at h b)"
    "p < length (hp_scopes h) \<Longrightarrow> w \<in> set (sn_children (scope_at g p))"
    by (simp_all add: g scope_at_upd)
qed

lemma attach_child_ready:
  "state_of (scope_at h p) = SlReady \<Longrightarrow>
   si_parent_id (sn_identity (scope_at h w)) = Some (si_id (sn_identity (scope_at h p))) \<Longrightarrow> \<exists>g. attach_child p w h = Ok g"
  by (simp add: attach_child_def)

lemma tree_cases:
  assumes "publish_project_tree rt ep p ew w ho = Some (ho', res)"
  obtains (rejected) ap aw reason where "reject_tree rt ep ap ew aw p w reason ho = Some (ho', res)" "p \<noteq> w"
      "state_of (scope_at (ho_heap ho) p) \<noteq> SlReady \<or> state_of (scope_at (ho_heap ho) w) \<noteq> SlReady \<or>
       si_parent_id (identity_at ho w) \<noteq> Some (si_id (identity_at ho p))"
  | (detached) ap aw reason g where "reject_tree rt ep ap ew aw p w reason (ho\<lparr>ho_heap := g\<rparr>) = Some (ho', res)" "p \<noteq> w"
      "state_of (scope_at (ho_heap ho) p) = SlReady" "state_of (scope_at (ho_heap ho) w) = SlReady"
      "attach_child p w (ho_heap ho) = Ok g"
      "mg_project (ho_manager ho) \<noteq> ep \<or> mg_workspace (ho_manager ho) \<noteq> ew"
  | (committed) g where "p \<noteq> w" "state_of (scope_at (ho_heap ho) p) = SlReady" "state_of (scope_at (ho_heap ho) w) = SlReady"
      "si_parent_id (identity_at ho w) = Some (si_id (identity_at ho p))"
      "attach_child p w (ho_heap ho) = Ok g" "mg_project (ho_manager ho) = ep" "mg_workspace (ho_manager ho) = ew"
      "complete_tree rt ep ew p w (ho\<lparr>ho_heap := g,
         ho_manager := (ho_manager ho)\<lparr>mg_project := Some p, mg_workspace := Some w\<rparr>\<rparr>) = Some (ho', res)"
proof -
  let ?m = "ho_manager ho"
  have pw: "p \<noteq> w" using assms by (auto simp: publish_project_tree_def Let_def)
  consider (state) "state_of (scope_at (ho_heap ho) p) \<noteq> SlReady \<or> state_of (scope_at (ho_heap ho) w) \<noteq> SlReady"
    | (parent) "state_of (scope_at (ho_heap ho) p) = SlReady" "state_of (scope_at (ho_heap ho) w) = SlReady"
        "si_parent_id (identity_at ho w) \<noteq> Some (si_id (identity_at ho p))"
    | (fine) g where "state_of (scope_at (ho_heap ho) p) = SlReady" "state_of (scope_at (ho_heap ho) w) = SlReady"
        "si_parent_id (identity_at ho w) = Some (si_id (identity_at ho p))" "attach_child p w (ho_heap ho) = Ok g"
    using attach_child_ready [of "ho_heap ho" p w] unfolding identity_at_def by blast
  then show thesis
  proof cases
    case state
    with assms pw have "\<exists>ap aw reason. reject_tree rt ep ap ew aw p w reason ho = Some (ho', res)"
      by (cases "state_of (scope_at (ho_heap ho) p) = SlReady")
        (auto simp: publish_project_tree_def Let_def simp del: scope_state_error_display.simps)
    with pw state rejected show thesis by blast
  next
    case parent
    with assms pw have "\<exists>ap aw reason. reject_tree rt ep ap ew aw p w reason ho = Some (ho', res)"
      by (auto simp: publish_project_tree_def Let_def simp del: scope_state_error_display.simps)
    with pw parent rejected show thesis by blast
  next
    case (fine g)
    note u = assms [unfolded publish_project_tree_def Let_def compare_and_swap_def]
    consider "mg_project ?m \<noteq> ep" | "mg_project ?m = ep" "mg_workspace ?m \<noteq> ew" | "mg_project ?m = ep" "mg_workspace ?m = ew"
      by blast
    then show thesis
    proof cases
      case 1
      with u pw fine show thesis by (intro detached) auto
    next
      case 2
      have "ho\<lparr>ho_heap := g, ho_manager := ?m\<lparr>mg_project := ep\<rparr>\<rparr> = ho\<lparr>ho_heap := g\<rparr>" using 2(1) by auto
      with u pw fine 2 show thesis by (intro detached) auto
    next
      case 3
      with u pw fine show thesis by (intro committed) auto
    qed
  qed
qed

text \<open>After a failed tree publication the Workspace candidate is closed, so the invariant is restored.\<close>

lemma detached_good:
  assumes inv: "ext_host_inv ho" and "p \<noteq> w" "p < length (hp_scopes (ho_heap ho))" "w < length (hp_scopes (ho_heap ho))"
    and ready: "state_of (scope_at (ho_heap ho) p) = SlReady" "state_of (scope_at (ho_heap ho) w) = SlReady"
    and at: "attach_child p w (ho_heap ho) = Ok g"
    and d: "host_dispose rt w (ho\<lparr>ho_heap := g\<rparr>) = Some (ho1, o1)"
  shows "ext_host_inv ho1 \<and> host_moves ho ho1"
proof -
  note A = attach_child_Ok [OF at]
  obtain h1 where ds: "dispose_scope rt (ho_deadlines ho) w g = Some (h1, o1)" and ho1: "ho1 = ho\<lparr>ho_heap := h1\<rparr>"
    using d by (auto simp: host_dispose_def)
  note st = dispose_scope_step [OF ds]
  note e = heap_step_evolves [OF st]
  have len: "length (hp_scopes g) = length (hp_scopes (ho_heap ho))" using A(1) by (simp add: heap_evolves_def)
  have ok: "scope_ok (scope_at g w)" using A(1) host_inv_ok [OF inv] assms(4) by (simp add: heap_evolves_def)
  have closed: "state_of (scope_at h1 w) \<notin> {SlReady, SlActive}"
    by (rule dispose_scope_closes [OF ds]) (use len assms(4) ok in simp_all)
  have ev: "heap_evolves (ho_heap ho) h1" using A(1) e heap_evolves_trans by blast
  have pr: "p \<in> ready_set (ho_heap ho)" and wr: "w \<in> ready_set (ho_heap ho)"
    using ready assms(3,4) by (simp_all add: ready_set_def)
  have "ready_set h1 \<subseteq> ready_set (ho_heap ho) - {w}"
    using ready_set_evolves [OF ev host_inv_ok [OF inv]] closed by (auto simp: ready_set_def)
  moreover have "child_edges h1 \<subseteq> insert (p, w) (child_edges (ho_heap ho))" using e A(2) by simp
  moreover have old: "forest (ready_set (ho_heap ho)) (slot_set (ho_manager ho)) (child_edges (ho_heap ho))"
    using inv by (simp add: ext_host_inv_def)
  ultimately have "forest (ready_set h1) (slot_set (ho_manager ho)) (child_edges h1)"
    using forest_mono [OF forest_attach [OF old pr wr assms(2)]] by blast
  moreover have "Field (child_edges h1) \<subseteq> {..< length (hp_scopes (ho_heap ho))}"
  proof -
    have "Field (child_edges h1) \<subseteq> Field (insert (p, w) (child_edges (ho_heap ho)))"
      using e A(2) by (intro mono_Field) simp
    also have "\<dots> \<subseteq> {..< length (hp_scopes (ho_heap ho))}"
      using inv assms(3,4) by (auto simp: Field_def ext_host_inv_def)
    finally show ?thesis .
  qed
  moreover have "chained (ho_manager ho) h1"
  proof -
    have same: "sn_children (scope_at h1 b) = sn_children (scope_at (ho_heap ho) b)" if "b \<in> slot_set (ho_manager ho)" for b
    proof -
      have "b \<noteq> p" using slots_not_ready(2) [OF inv that] ready by blast
      with A(3) have "scope_at g b = scope_at (ho_heap ho) b" by blast
      with st show ?thesis by (simp add: heap_step_def)
    qed
    have "chained (ho_manager ho) (ho_heap ho)" using inv by (simp add: ext_host_inv_def)
    moreover have "mg_application (ho_manager ho) \<in> slot_set (ho_manager ho)" by (simp add: slot_set_def)
    moreover have "mg_project (ho_manager ho) = Some q \<Longrightarrow> q \<in> slot_set (ho_manager ho)" for q by (simp add: slot_set_def)
    ultimately show ?thesis using same unfolding chained_def by metis
  qed
  ultimately have "ext_host_inv ho1"
    using ev inv unfolding ho1 by (intro host_inv_step [OF inv]) (auto simp: ext_host_inv_def)
  moreover have "host_moves ho ho1" by (rule moves_of_evolves [OF inv]) (use ev ho1 in simp_all)
  ultimately show ?thesis by blast
qed

lemma tree_commit_good:
  assumes inv: "ext_host_inv ho" and pw: "p \<noteq> w" "p < length (hp_scopes (ho_heap ho))" "w < length (hp_scopes (ho_heap ho))"
    and ready: "state_of (scope_at (ho_heap ho) p) = SlReady" "state_of (scope_at (ho_heap ho) w) = SlReady"
    and at: "attach_child p w (ho_heap ho) = Ok g"
    and m1: "mark_active p g = Ok h1" and m2: "mark_active w h1 = Ok h2"
    and ep: "mg_project (ho_manager ho) = ep"
    and ho1: "ho1 = ho\<lparr>ho_manager := (ho_manager ho)\<lparr>mg_project := Some p, mg_workspace := Some w\<rparr>,
                ho_heap := quiesce_previous ep (replace_child (mg_application (ho_manager ho)) ep p h2)\<rparr>"
  shows "ext_host_inv ho1" "host_moves ho ho1" "length (hp_scopes (ho_heap ho1)) = length (hp_scopes (ho_heap ho))"
    "state_of (scope_at (ho_heap ho1) p) = SlActive" "state_of (scope_at (ho_heap ho1) w) = SlActive"
proof -
  let ?a = "mg_application (ho_manager ho)"
  let ?h3 = "replace_child ?a ep p h2" and ?h4 = "quiesce_previous ep (replace_child ?a ep p h2)"
  note A = attach_child_Ok [OF at] and M1 = mark_active_Ok [OF m1] and M2 = mark_active_Ok [OF m2]
  have as: "?a \<in> slot_set (ho_manager ho)" by (simp add: slot_set_def)
  have alen: "?a < length (hp_scopes (ho_heap ho))" and "state_of (scope_at (ho_heap ho) ?a) \<noteq> SlReady"
    using slots_not_ready [OF inv as] by blast+
  with ready have ap: "?a \<noteq> p" "?a \<noteq> w" by auto
  have epp: "ep \<noteq> Some p" "ep \<noteq> Some w"
    using slots_not_ready(2) [OF inv slot_current_slot, of ProjectSlot] ep ready by auto
  have ev2: "heap_evolves (ho_heap ho) h2" using A(1) M1(1) M2(1) heap_evolves_trans by blast
  have ev: "heap_evolves (ho_heap ho) ?h4"
    by (rule heap_evolves_trans [OF heap_evolves_trans [OF ev2 replace_child_edges(1)] quiesce_previous_facts(1)])
  have len: "length (hp_scopes g) = length (hp_scopes (ho_heap ho))" "length (hp_scopes h1) = length (hp_scopes (ho_heap ho))"
    "length (hp_scopes h2) = length (hp_scopes (ho_heap ho))"
    using A(1) M1(1) M2(1) by (simp_all add: heap_evolves_def)
  have edges: "child_edges ?h4 \<subseteq> insert (?a, p) (insert (p, w) (child_edges (ho_heap ho)))"
    using replace_child_edges(2) [of ?a ep p h2] A(2) by (auto simp: quiesce_previous_facts(2) M1(2) M2(2))
  have st: "state_of (scope_at ?h4 p) = SlActive" "state_of (scope_at ?h4 w) = SlActive"
    using M1(4) M2(4) M2(5) [OF pw(1)] pw(2,3) epp len
    by (simp_all add: quiesce_previous_facts(4) replace_child_at(3))
  then show "state_of (scope_at (ho_heap ho1) p) = SlActive" "state_of (scope_at (ho_heap ho1) w) = SlActive"
    by (simp_all add: ho1)
  have kids: "sn_children (scope_at h2 b) = sn_children (scope_at g b)" for b
    using m1 m2 by (auto simp: mark_active_def scope_at_upd split: if_splits)
  have old: "forest (ready_set (ho_heap ho)) (slot_set (ho_manager ho)) (child_edges (ho_heap ho))"
    using inv by (simp add: ext_host_inv_def)
  have "ready_set ?h4 \<subseteq> ready_set (ho_heap ho) - {p, w}"
    using ready_set_evolves [OF ev host_inv_ok [OF inv]] st by (auto simp: ready_set_def)
  moreover have "p \<in> ready_set (ho_heap ho)" "w \<in> ready_set (ho_heap ho)" using ready pw by (simp_all add: ready_set_def)
  moreover have sl: "slot_set ((ho_manager ho)\<lparr>mg_project := Some p, mg_workspace := Some w\<rparr>) \<subseteq>
      insert p (insert w (slot_set (ho_manager ho)))" by (auto simp: slot_set_def)
  ultimately have "forest (ready_set ?h4) (slot_set (ho_manager ho1)) (child_edges ?h4)"
    using forest_mono [OF forest_tree [OF old _ _ pw(1) as]] edges by (simp add: ho1)
  moreover have "Field (child_edges ?h4) \<subseteq> {..< length (hp_scopes (ho_heap ho))}"
  proof -
    have "Field (child_edges ?h4) \<subseteq> Field (insert (?a, p) (insert (p, w) (child_edges (ho_heap ho))))"
      using edges by (rule mono_Field)
    also have "\<dots> \<subseteq> {..< length (hp_scopes (ho_heap ho))}"
      using inv pw(2,3) alen by (auto simp: Field_def ext_host_inv_def)
    finally show ?thesis .
  qed
  moreover have "chained (ho_manager ho1) ?h4"
    using replace_child_at(2) [of ?a h2 p ep] replace_child_at(1) [of p ?a ep p h2] A(5) pw(2) alen len(3) ap(1) kids
    by (simp add: chained_def ho1 quiesce_previous_facts(3))
  moreover have "slot_set (ho_manager ho1) \<subseteq> {..< length (hp_scopes (ho_heap ho))}"
    using sl inv pw(2,3) by (auto simp: ho1 ext_host_inv_def)
  ultimately show "ext_host_inv ho1" using ev by (intro host_inv_step [OF inv]) (simp_all add: ho1)
  show "host_moves ho ho1" by (rule moves_of_evolves [OF inv]) (use ev ho1 in simp_all)
  show "length (hp_scopes (ho_heap ho1)) = length (hp_scopes (ho_heap ho))" using ev by (simp add: ho1 heap_evolves_def)
qed

lemma complete_tree_cases:
  assumes "complete_tree rt ep ew p w (ho\<lparr>ho_heap := g, ho_manager := (ho_manager ho)\<lparr>mg_project := Some p, mg_workspace := Some w\<rparr>\<rparr>)
      = Some (ho', res)"
  obtains h1 h2 ho1 where "mark_active p g = Ok h1" "mark_active w h1 = Ok h2"
    "ho1 = ho\<lparr>ho_manager := (ho_manager ho)\<lparr>mg_project := Some p, mg_workspace := Some w\<rparr>,
       ho_heap := quiesce_previous ep (replace_child (mg_application (ho_manager ho)) ep p h2)\<rparr>"
    "and_then (dispose_previous rt ep ho1) (\<lambda>ho' dispose. Some (ho', Done (Ok
       \<lparr>tr_project = identity_at ho' p, tr_workspace = identity_at ho' w, tr_previous_project = identities ho' ep,
        tr_previous_workspace = identities ho' ew, tr_previous_dispose = dispose\<rparr>))) = Some (ho', res)"
  using assms by (auto simp: complete_tree_def Let_def quiesce_previous_def split: sum.splits)

lemma publish_tree_good:
  assumes "publish_project_tree rt ep p ew w ho = Some (ho', res)"
    and inv: "ext_host_inv ho" and len: "p < length (hp_scopes (ho_heap ho))" "w < length (hp_scopes (ho_heap ho))"
  shows "ext_host_inv ho' \<and> host_moves ho ho'"
  using assms(1)
proof (cases rule: tree_cases)
  case (rejected ap aw reason)
  with reject_tree_good(1) [OF rejected(1)] inv show ?thesis by (simp add: good_step_def)
next
  case (detached ap aw reason g)
  from detached(1) obtain ho1 o1 where d: "host_dispose rt w (ho\<lparr>ho_heap := g\<rparr>) = Some (ho1, o1)"
    and rest: "ho' = ho1 \<or> (\<exists>o2. host_dispose rt p ho1 = Some (ho', o2))"
    by (auto simp: reject_tree_def and_then_Some)
  have 1: "ext_host_inv ho1 \<and> host_moves ho ho1" by (rule detached_good [OF inv detached(2) len detached(3,4,5) d])
  from rest have "good_step ho1 ho'" using host_dispose_good(1) by auto
  with 1 show ?thesis using good_step_trans [of ho ho1 ho'] inv by (simp add: good_step_def)
next
  case (committed g)
  from committed(8) obtain h1 h2 ho1 where c: "mark_active p g = Ok h1" "mark_active w h1 = Ok h2"
    and ho1: "ho1 = ho\<lparr>ho_manager := (ho_manager ho)\<lparr>mg_project := Some p, mg_workspace := Some w\<rparr>,
       ho_heap := quiesce_previous ep (replace_child (mg_application (ho_manager ho)) ep p h2)\<rparr>"
    and d: "and_then (dispose_previous rt ep ho1) (\<lambda>ho' dispose. Some (ho', Done (Ok
       \<lparr>tr_project = identity_at ho' p, tr_workspace = identity_at ho' w, tr_previous_project = identities ho' ep,
        tr_previous_workspace = identities ho' ew, tr_previous_dispose = dispose\<rparr>))) = Some (ho', res)"
    by (rule complete_tree_cases)
  note g = tree_commit_good [OF inv committed(1) len committed(2,3,5) c committed(6) ho1]
  from d have "good_step ho1 ho'" by (auto simp: and_then_Some dest: dispose_previous_good)
  with g(1,2) show ?thesis using good_step_trans [of ho ho1 ho'] inv by (simp add: good_step_def)
qed

section \<open>Clearing, building, leasing\<close>

lemma clear_slot_good:
  assumes "clear_slot rt k parent e ho = Some (ho', res)"
    and inv: "ext_host_inv ho" and kp: "k = ProjectSlot \<Longrightarrow> mg_workspace (ho_manager ho) = None"
    and par: "parent = (case k of ProjectSlot \<Rightarrow> Some (mg_application (ho_manager ho)) | WorkspaceSlot \<Rightarrow> mg_project (ho_manager ho))"
  shows "ext_host_inv ho' \<and> host_moves ho ho'"
proof (cases "slot_current (ho_manager ho) k = Some e")
  case False
  with assms(1) have "ho' = ho" by (auto simp: clear_slot_def compare_and_swap_def)
  with inv good_step_refl [of ho] show ?thesis by (simp add: good_step_def del: good_step_refl)
next
  case True
  let ?h1 = "begin_quiesce e (ho_heap ho)"
  let ?h2 = "case parent of None \<Rightarrow> ?h1 | Some p \<Rightarrow> remove_child p e ?h1"
  let ?ho1 = "ho\<lparr>ho_manager := slot_store (ho_manager ho) k None, ho_heap := ?h2\<rparr>"
  have ev: "heap_evolves (ho_heap ho) ?h2" "child_edges ?h2 \<subseteq> child_edges (ho_heap ho)"
    using begin_quiesce_evolves [where h = "ho_heap ho" and a = e] remove_child_edges [where h = ?h1]
    by (auto split: option.splits intro: heap_evolves_trans)
  have sub: "slot_set (slot_store (ho_manager ho) k None) \<subseteq> slot_set (ho_manager ho)"
    by (cases k) (auto simp: slot_set_def)
  have old: "forest (ready_set (ho_heap ho)) (slot_set (ho_manager ho)) (child_edges (ho_heap ho))"
    "slot_set (ho_manager ho) \<subseteq> {..< length (hp_scopes (ho_heap ho))}"
    "Field (child_edges (ho_heap ho)) \<subseteq> {..< length (hp_scopes (ho_heap ho))}" "chained (ho_manager ho) (ho_heap ho)"
    using inv by (simp_all add: ext_host_inv_def)
  have "forest (ready_set ?h2) (slot_set (slot_store (ho_manager ho) k None)) (child_edges ?h2)"
    by (rule forest_mono [OF old(1) ready_set_evolves [OF ev(1) host_inv_ok [OF inv]] sub ev(2)])
  moreover have "chained (slot_store (ho_manager ho) k None) ?h2"
  proof (cases k)
    case ProjectSlot
    with kp show ?thesis by (simp add: chained_def)
  next
    case WorkspaceSlot
    then have "sn_children (scope_at ?h2 (mg_application (ho_manager ho))) =
        sn_children (scope_at (ho_heap ho) (mg_application (ho_manager ho)))"
      using par project_apart [OF inv]
      by (auto simp: remove_child_def scope_at_upd scope_at_begin_quiesce quiesced_ok(3) split: option.splits)
    with WorkspaceSlot old(4) show ?thesis by (simp add: chained_def)
  qed
  moreover have "Field (child_edges ?h2) \<subseteq> {..< length (hp_scopes (ho_heap ho))}"
    using mono_Field [OF ev(2)] old(3) by blast
  ultimately have inv1: "ext_host_inv ?ho1"
    using sub old(2) ev(1) by (intro host_inv_step [OF inv]) auto
  have mv: "host_moves ho ?ho1" by (rule moves_of_evolves [OF inv]) (use ev(1) in simp_all)
  from assms(1) True have "good_step ?ho1 ho'"
    by (auto simp: clear_slot_def compare_and_swap_def Let_def and_then_Some dest: host_dispose_good)
  with inv1 mv show ?thesis using good_step_trans [of ho ?ho1 ho'] inv by (simp add: good_step_def)
qed

lemma lease_good: "good_step ho (fst (host_lease a ho))" "good_step ho (host_drop_lease a ho)"
proof -
  have "heap_step {} h (upd a (\<lambda>s. s\<lparr>sn_registry := (sn_registry s)\<lparr>rg_leases := n s\<rparr>\<rparr>) h)" for h and n :: "('a, 'b) scope_snapshot \<Rightarrow> nat"
    by (rule heap_step_upd) (auto simp: scope_ok_def scope_evolves_def)
  note st = this
  show "good_step ho (fst (host_lease a ho))"
  proof (cases "lease (sn_registry (scope_at (ho_heap ho) a))")
    case (Inr rg)
    then have "upd a (\<lambda>s. s\<lparr>sn_registry := rg\<rparr>) (ho_heap ho) =
        upd a (\<lambda>s. s\<lparr>sn_registry := (sn_registry s)\<lparr>rg_leases := rg_leases (sn_registry s) + 1\<rparr>\<rparr>) (ho_heap ho)"
      by (auto simp: lease_def upd_def split: if_splits)
    with Inr good_heap_step [OF st] show ?thesis by (simp add: host_lease_def)
  qed (simp add: host_lease_def)
  show "good_step ho (host_drop_lease a ho)"
    unfolding host_drop_lease_def drop_lease_def by (rule good_heap_step [OF st])
qed

end
