(* ===== verification/Scope_Runs.thy ===== *)
theory Scope_Runs
  imports Scope_Invariant
begin

text \<open>
  Building a candidate keeps the host's invariant, and so does every operation and every run. Disposal
  returns in a host that satisfies it, because the children form no cycle.
\<close>

section \<open>Building\<close>

lemma next_identity_Ok:
  assumes "next_identity ho kind i parent = (ho1, r)" "ext_host_inv ho"
  shows "good_step ho ho1" "ho_heap ho1 = ho_heap ho"
    and "r = Ok identity \<Longrightarrow> unat (mg_next_generation (ho_manager ho1)) = Suc (unat (mg_next_generation (ho_manager ho))) \<and>
           si_generation identity = mg_next_generation (ho_manager ho) \<and>
           si_kind identity = kind \<and> si_id identity = i"
    and "r = Err e \<Longrightarrow> ho1 \<noteq> ho \<or> e = ActivationGenerationExhausted \<and> mg_next_generation (ho_manager ho) = - 1"
proof -
  let ?m = "ho_manager ho"
  let ?g = "mg_next_generation ?m"
  have inc: "unat (?g + 1) = Suc (unat ?g)" if "?g \<noteq> - 1"
    using that by (metis add.commute eq_neg_iff_add_eq_0 unatSuc)
  show "ho_heap ho1 = ho_heap ho" using assms(1) by (auto simp: next_identity_def Let_def split: if_splits)
  show "r = Ok identity \<Longrightarrow> unat (mg_next_generation (ho_manager ho1)) = Suc (unat ?g) \<and>
           si_generation identity = ?g \<and> si_kind identity = kind \<and> si_id identity = i"
    using assms(1) inc
    by (auto simp: next_identity_def Let_def try_res_Ok_iff ActivationGeneration_new_def split: if_splits)
  show "r = Err e \<Longrightarrow> ho1 \<noteq> ho \<or> e = ActivationGenerationExhausted \<and> ?g = - 1"
  proof (cases "?g = - 1")
    case False
    then have "mg_next_generation (ho_manager ho1) = ?g + 1"
      using assms(1) by (auto simp: next_identity_def Let_def)
    then have "ho1 \<noteq> ho" by auto
    then show ?thesis by blast
  qed (use assms(1) in \<open>auto simp: next_identity_def\<close>)
  show "good_step ho ho1"
  proof (cases "?g = - 1")
    case False
    then have ho1: "ho1 = ho\<lparr>ho_manager := ?m\<lparr>mg_next_generation := ?g + 1\<rparr>\<rparr>"
      using assms(1) by (simp add: next_identity_def Let_def)
    have sl: "slot_set (?m\<lparr>mg_next_generation := ?g + 1\<rparr>) = slot_set ?m" by (simp add: slot_set_def)
    have le: "unat ?g \<le> unat (?g + 1)" using inc [OF False] by simp
    have "chained (?m\<lparr>mg_next_generation := ?g + 1\<rparr>) (ho_heap ho) = chained ?m (ho_heap ho)" by (simp add: chained_def)
    then have "ext_host_inv ho1"
      using assms(2) le sl by (intro host_inv_step [OF assms(2)]) (simp_all add: ho1 ext_host_inv_def)
    moreover have "host_moves ho ho1" by (rule moves_of_evolves [OF assms(2)]) (use le in \<open>simp_all add: ho1\<close>)
    ultimately show ?thesis by (simp add: good_step_def)
  qed (use assms(1) in \<open>simp add: next_identity_def\<close>)
qed

text \<open>A new snapshot whose generation is the last one handed out.\<close>

lemma with_scope_inv:
  assumes inv: "ext_host_inv ho" and fresh: "fresh_scope identity s"
    and g: "Suc (unat (si_generation identity)) = unat (mg_next_generation (ho_manager ho))" "0 < unat (si_generation identity)"
    and old: "generations_ok (unat (si_generation identity)) (ho_heap ho)"
    and plan: "plan_before (unat (mg_next_generation (ho_manager ho))) (sn_plan s)"
  shows "ext_host_inv (ho\<lparr>ho_heap := with_scope s (ho_heap ho)\<rparr>)" "host_moves ho (ho\<lparr>ho_heap := with_scope s (ho_heap ho)\<rparr>)"
proof -
  let ?h = "ho_heap ho" and ?n = "length (hp_scopes (ho_heap ho))"
  let ?h' = "with_scope s ?h"
  note at = scope_at_with_scope [where h = ?h and s = s]
  have s: "scope_ok s" "state_of s = SlReady" "sn_children s = []" "sn_identity s = identity"
    using fresh by (simp_all add: fresh_scope_def)
  have "\<forall>b < Suc ?n. scope_ok (scope_at ?h' b)" using host_inv_ok [OF inv] s(1) at by (simp add: less_Suc_eq)
  moreover have "generations_ok (unat (mg_next_generation (ho_manager ho))) ?h'"
  proof -
    have gen: "generation_at ?h' b = (if b = ?n then unat (si_generation identity) else generation_at ?h b)" if "b < Suc ?n" for b
      using that s(4) at by (auto simp: generation_at_def less_Suc_eq)
    have lt: "generation_at ?h b < unat (si_generation identity)" if "b < ?n" for b
      using old that by (simp add: generations_ok_def)
    have "inj_on (generation_at ?h') {..< Suc ?n}"
    proof (rule inj_onI)
      fix x y assume "x \<in> {..< Suc ?n}" "y \<in> {..< Suc ?n}" and e: "generation_at ?h' x = generation_at ?h' y"
      then have xy: "x < Suc ?n" "y < Suc ?n" by simp_all
      show "x = y"
      proof (cases "x = ?n \<or> y = ?n")
        case True
        with xy e gen lt show ?thesis by (metis less_SucE less_irrefl)
      next
        case False
        with xy have "x \<in> {..< ?n}" "y \<in> {..< ?n}" by auto
        moreover have "inj_on (generation_at ?h) {..< ?n}" using old by (simp add: generations_ok_def)
        ultimately show ?thesis using e gen xy False by (simp add: inj_on_eq_iff)
      qed
    qed
    moreover have "0 < generation_at ?h' b \<and> generation_at ?h' b < unat (mg_next_generation (ho_manager ho)) \<and>
        plan_before (unat (mg_next_generation (ho_manager ho))) (sn_plan (scope_at ?h' b))" if "b < Suc ?n" for b
    proof (cases "b = ?n")
      case True
      with gen [OF that] g plan at show ?thesis by simp
    next
      case False
      with that have b: "b < ?n" by simp
      then have "generations_ok (unat (mg_next_generation (ho_manager ho))) ?h" using inv by (simp add: ext_host_inv_def)
      with b at gen [OF that] False show ?thesis by (simp add: generations_ok_def)
    qed
    ultimately show ?thesis using at(3) by (simp add: generations_ok_def)
  qed
  moreover have edges: "child_edges ?h' = child_edges ?h"
    using at s(3) by (auto simp: child_edges_def less_Suc_eq)
  moreover have sl: "slot_set (ho_manager ho) \<subseteq> {..< ?n}" "Field (child_edges ?h) \<subseteq> {..< ?n}"
    and f: "forest (ready_set ?h) (slot_set (ho_manager ho)) (child_edges ?h)" and ch: "chained (ho_manager ho) ?h"
    and ng: "0 < unat (mg_next_generation (ho_manager ho))"
    using inv by (simp_all add: ext_host_inv_def)
  moreover have "ready_set ?h' = insert ?n (ready_set ?h)"
    using at s(2) by (auto simp: ready_set_def less_Suc_eq)
  moreover have "forest (insert ?n (ready_set ?h)) (slot_set (ho_manager ho)) (child_edges ?h)"
    by (rule forest_alloc [OF f]) (use sl in auto)
  moreover have "chained (ho_manager ho) ?h'"
  proof -
    have a: "mg_application (ho_manager ho) < ?n" using sl(1) by (simp add: slot_set_def)
    have p: "q < ?n" if "mg_project (ho_manager ho) = Some q" for q using sl(1) that by (simp add: slot_set_def)
    show ?thesis using ch at(1) [OF a] at(1) [OF p] unfolding chained_def by metis
  qed
  ultimately show "ext_host_inv (ho\<lparr>ho_heap := ?h'\<rparr>)"
    using at(3) by (auto simp: ext_host_inv_def)
  show "host_moves ho (ho\<lparr>ho_heap := ?h'\<rparr>)" using at by (simp add: host_moves_def)
qed

lemma rescope_good: "hp_scopes h = hp_scopes (ho_heap ho) \<Longrightarrow> good_step ho (ho\<lparr>ho_heap := h\<rparr>)"
  by (rule good_heap_step [of "{}"], rule heap_step_same_scopes)

text \<open>
  A candidate is built in the next generation: it is a new snapshot, ready, of the asked kind and name.
  A failed build leaves nothing behind that is ready.
\<close>

lemma build_in_host_cases:
  assumes b: "build_in_host scc rt kind parent i plugins ho = Some (ho', res)" and scc: "scc_spec scc"
    and inv: "ext_host_inv ho" and parent: "parent < length (hp_scopes (ho_heap ho))"
  obtains (refused) e ho1 where "res = Done (Err (Resolution e))" "next_identity ho kind i (Some parent) = (ho1, Err e)" "ho' = ho1"
      "good_step ho ho'" "ho_heap ho' = ho_heap ho"
  | (attempted) ho1 identity h where
      "next_identity ho kind i (Some parent) = (ho1, Ok identity)" "ho' = ho1\<lparr>ho_heap := h\<rparr>" "good_step ho ho1"
      "ext_host_inv ho1" "ho_heap ho1 = ho_heap ho" "good_step ho1 ho'"
      "build_scope_candidate_with_passive scc rt (ho_deadlines ho1) identity
         (Some (sn_plan (scope_at (ho_heap ho) parent))) plugins [] (ho_heap ho) = Some (h, res)"
proof -
  obtain ho1 r where n: "next_identity ho kind i (Some parent) = (ho1, r)" by (cases "next_identity ho kind i (Some parent)")
  note ni = next_identity_Ok [OF n inv]
  show thesis
  proof (cases r)
    case (Inl e)
    with n b show thesis by (intro refused [of e ho1]) (use ni(1,2) in \<open>auto simp: build_in_host_def\<close>)
  next
    case (Inr identity)
    let ?h = "ho_heap ho" and ?p = "sn_plan (scope_at (ho_heap ho) parent)"
    obtain h where h: "build_scope_candidate_with_passive scc rt (ho_deadlines ho1) identity (Some ?p) plugins [] ?h = Some (h, res)"
      and ho': "ho' = ho1\<lparr>ho_heap := h\<rparr>"
      using b n Inr ni(2) by (auto simp: build_in_host_def build_scope_candidate_def)
    have inv1: "ext_host_inv ho1" using ni(1) inv by (simp add: good_step_def)
    let ?g = "unat (mg_next_generation (ho_manager ho1))"
    have g: "?g = Suc (unat (mg_next_generation (ho_manager ho)))" "si_generation identity = mg_next_generation (ho_manager ho)"
      using ni(3) Inr by auto
    have old: "generations_ok (unat (si_generation identity)) ?h" and pos: "0 < unat (si_generation identity)"
      using inv g(2) by (simp_all add: ext_host_inv_def)
    have "plan_before (unat (si_generation identity)) ?p" using old parent by (simp add: generations_ok_def)
    then have pp: "plan_before ?g q" if "Some ?p = Some q" for q using that g by (auto intro: plan_before_mono)
    have new: "good_step ho1 (ho1\<lparr>ho_heap := with_scope s ?h\<rparr>)"
      if "fresh_scope identity s" "resolve_activation_plan scc policy identity (Some ?p) (map ip_descriptor plugins @ []) = Ok (sn_plan s)"
      for s policy
    proof -
      have "plan_before ?g (sn_plan s)" by (rule resolved_plan_before(1) [OF that(2) scc pp]) (use g in simp_all)
      from with_scope_inv [of ho1, OF inv1 that(1) _ pos _ this] g old ni(2) show ?thesis by (simp add: good_step_def)
    qed
    have "good_step ho1 ho'"
      using h
    proof (cases rule: build_cases)
      case none
      then show ?thesis unfolding ho' by (intro rescope_good) (simp add: ni(2))
    next
      case (built s policy)
      from good_step_trans [OF new [OF built(1,4)] rescope_good [of h]] built(2) show ?thesis by (simp add: ho')
    next
      case (rolled s policy)
      from good_step_trans [OF new [OF rolled(1,6)] good_heap_step [of "{}" _ h]] rolled(2) show ?thesis by (simp add: ho')
    qed
    with n Inr h ho' ni(1,2) inv1 show thesis by (intro attempted) simp_all
  qed
qed

lemma build_in_host_good:
  assumes "build_in_host scc rt kind parent i plugins ho = Some (ho', res)" "scc_spec scc" "ext_host_inv ho"
    and "parent < length (hp_scopes (ho_heap ho))"
  shows "good_step ho ho'"
  using assms by (cases rule: build_in_host_cases) (auto intro: good_step_trans)

section \<open>Every operation\<close>

lemma application_valid: "ext_host_inv ho \<Longrightarrow> mg_application (ho_manager ho) < length (hp_scopes (ho_heap ho))"
  by (auto simp: ext_host_inv_def slot_set_def)

lemma publish_project_good:
  assumes "publish_project rt e c ho = Some (ho', res)" "ext_host_inv ho" "c < length (hp_scopes (ho_heap ho))"
  shows "good_step ho ho'"
proof (cases "mg_workspace (ho_manager ho)")
  case None
  then have par: "publish_parent (ho_manager ho) ProjectSlot (mg_application (ho_manager ho))" by (simp add: publish_parent_def)
  from None assms(1) have "publish_with rt ProjectSlot (replace_child (mg_application (ho_manager ho))) e c ho = Some (ho', res)"
    by (simp add: publish_project_def)
  from publish_with_good [OF this assms(2,3) par] show ?thesis by (simp add: good_step_def)
qed (use assms(1) in \<open>auto simp: publish_project_def dest: reject_candidate_good\<close>)

lemma publish_workspace_good:
  assumes "publish_workspace rt e c ho = Some (ho', res)" "ext_host_inv ho" "c < length (hp_scopes (ho_heap ho))"
  shows "good_step ho ho'"
proof (cases "mg_project (ho_manager ho)")
  case (Some p)
  then have par: "publish_parent (ho_manager ho) WorkspaceSlot p" by (simp add: publish_parent_def)
  from Some assms(1) consider "publish_with rt WorkspaceSlot (replace_child p) e c ho = Some (ho', res)"
    | r where "reject_candidate rt e (mg_workspace (ho_manager ho)) c r ho = Some (ho', res)"
    by (auto simp: publish_workspace_def simp del: scope_state_error_display.simps split: if_splits)
  then show ?thesis
  proof cases
    case 1
    from publish_with_good [OF this assms(2,3) par] show ?thesis by (simp add: good_step_def)
  qed (rule reject_candidate_good)
qed (use assms(1) in \<open>auto simp: publish_workspace_def dest: reject_candidate_good\<close>)

lemma clear_project_good: "clear_project_scope rt e ho = Some (ho', res) \<Longrightarrow> good_step ho ho'"
  by (auto simp: clear_project_scope_def good_step_def split: option.splits dest: clear_slot_good)
    (auto simp: host_moves_def)

lemma clear_workspace_good: "clear_workspace_scope rt e ho = Some (ho', res) \<Longrightarrow> good_step ho ho'"
  by (auto simp: clear_workspace_scope_def good_step_def split: option.splits dest: clear_slot_good)
    (auto simp: host_moves_def)

lemma exec_good:
  assumes "exec_op scc rt op ho = Some ho'" "scc_spec scc" "ext_host_inv ho" "op_valid ho op"
  shows "ext_host_inv ho' \<and> host_moves ho ho'"
proof -
  have good: "good_step ho ho' \<Longrightarrow> ?thesis" using assms(3) by (simp add: good_step_def)
  note app = application_valid [OF assms(3)]
  show ?thesis
  proof (cases op)
    case (OpBuildProject i ps)
    with assms app show ?thesis by (auto simp: build_project_candidate_def intro!: good dest: build_in_host_good)
  next
    case (OpBuildWorkspace p i ps)
    with assms show ?thesis by (auto simp: build_workspace_candidate_def op_valid_def intro!: good dest: build_in_host_good)
  next
    case (OpRollback a)
    with assms show ?thesis by (auto intro!: good dest: host_dispose_good)
  next
    case (OpPublishProject e c)
    then obtain res where p: "publish_project rt e c ho = Some (ho', res)" using assms(1) by auto
    with assms(3,4) OpPublishProject show ?thesis
      by (auto simp: op_valid_def intro!: good publish_project_good)
  next
    case (OpPublishWorkspace e c)
    then obtain res where p: "publish_workspace rt e c ho = Some (ho', res)" using assms(1) by auto
    with assms(3,4) OpPublishWorkspace show ?thesis
      by (auto simp: op_valid_def intro!: good publish_workspace_good)
  next
    case (OpPublishTree e p f w)
    with assms show ?thesis by (auto simp: op_valid_def dest: publish_tree_good)
  next
    case (OpClearProject e)
    with assms(1) show ?thesis by (auto intro!: good dest: clear_project_good)
  next
    case (OpClearWorkspace e)
    with assms(1) show ?thesis by (auto intro!: good dest: clear_workspace_good)
  next
    case OpShutdown
    with assms show ?thesis by (auto simp: shutdown_def intro!: good dest: host_dispose_good)
  next
    case (OpLease a)
    with assms(1) have "ho' = fst (host_lease a ho)" by simp
    then show ?thesis using lease_good(1) by (intro good) simp
  next
    case (OpDropLease a)
    with assms(1) have "ho' = host_drop_lease a ho" by simp
    then show ?thesis using lease_good(2) by (intro good) simp
  qed
qed

lemma host_moves_trans: "host_moves a b \<Longrightarrow> host_moves b c \<Longrightarrow> host_moves a c"
  unfolding host_moves_def by (auto intro: scope_evolves_trans)

lemma runs_good:
  assumes "runs scc rt ops ho ho'" "scc_spec scc" "ext_host_inv ho"
  shows "ext_host_inv ho' \<and> host_moves ho ho'"
  using assms
proof (induction rule: runs.induct)
  case (nothing ho)
  then show ?case using good_step_refl [of ho] by (simp add: good_step_def del: good_step_refl)
next
  case (operation ho op ho1 ops ho')
  from exec_good [OF operation(2,5,6,1)] have "ext_host_inv ho1" "host_moves ho ho1" by simp_all
  with operation.IH [OF operation(5)] show ?case using host_moves_trans by blast
qed

section \<open>Every operation returns\<close>

lemma acyclic_ranked:
  assumes "acyclic (child_edges h)" "Field (child_edges h) \<subseteq> {..< length (hp_scopes h)}"
  defines "rank \<equiv> \<lambda>b. card ((child_edges h)\<^sup>+ `` {b})"
  shows "ranked rank h" "rank a \<le> length (hp_scopes h)"
proof -
  have sub: "(child_edges h)\<^sup>+ `` {b} \<subseteq> {..< length (hp_scopes h)}" for b
    using assms(2) trancl_subset_Field2 [of "child_edges h"] trancl_range [of "child_edges h"] by (auto simp: Field_def)
  then have fin: "finite ((child_edges h)\<^sup>+ `` {b})" for b using finite_subset by blast
  show "rank a \<le> length (hp_scopes h)" unfolding rank_def using card_mono [OF _ sub [of a]] by simp
  show "ranked rank h"
    unfolding ranked_def
  proof (intro allI impI ballI conjI)
    fix b c assume "b < length (hp_scopes h)" "c \<in> set (sn_children (scope_at h b))"
    then have e: "(b, c) \<in> child_edges h" by (simp add: child_edges_def)
    with assms(2) show "c < length (hp_scopes h)" by (auto simp: Field_def)
    have "(child_edges h)\<^sup>+ `` {c} \<subset> (child_edges h)\<^sup>+ `` {b}"
    proof (rule psubsetI)
      show "(child_edges h)\<^sup>+ `` {c} \<subseteq> (child_edges h)\<^sup>+ `` {b}" using e by (auto intro: trancl_into_trancl2)
      show "(child_edges h)\<^sup>+ `` {c} \<noteq> (child_edges h)\<^sup>+ `` {b}" using e assms(1) by (auto simp: acyclic_def)
    qed
    then show "rank c < rank b" unfolding rank_def by (rule psubset_card_mono [OF fin])
  qed
qed

lemma dispose_returns:
  assumes "acyclic (child_edges h)" "Field (child_edges h) \<subseteq> {..< length (hp_scopes h)}" "a < length (hp_scopes h)"
  shows "\<exists>h' res. dispose_scope rt dl a h = Some (h', res)"
  unfolding dispose_scope_def
  by (rule quiesce_returns [OF _ assms(3) acyclic_ranked(1) [OF assms(1,2)]])
    (use acyclic_ranked(2) [OF assms(1,2), of a] in simp_all)

lemma host_dispose_returns:
  assumes "ext_host_inv ho" "a < length (hp_scopes (ho_heap ho))"
  shows "\<exists>ho' res. host_dispose rt a ho = Some (ho', res)"
proof -
  have "\<exists>h res. dispose_scope rt (ho_deadlines ho) a (ho_heap ho) = Some (h, res)"
    using assms by (intro dispose_returns) (simp_all add: ext_host_inv_def forest_def)
  then show ?thesis by (auto simp: host_dispose_def)
qed

text \<open>An operation returns, or is dropped by its caller, when it is not \<open>None\<close>.\<close>

lemma and_then_returns:
  "m \<noteq> None \<Longrightarrow> (\<And>s a. m = Some (s, Done a) \<Longrightarrow> k s a \<noteq> None) \<Longrightarrow> and_then m k \<noteq> None"
  by (auto simp: and_then_def split: outcome.splits)

lemma host_dispose_not_None:
  "ext_host_inv ho \<Longrightarrow> a < length (hp_scopes (ho_heap ho)) \<Longrightarrow> host_dispose rt a ho \<noteq> None"
  using host_dispose_returns by fastforce

lemma reject_candidate_returns:
  "ext_host_inv ho \<Longrightarrow> c < length (hp_scopes (ho_heap ho)) \<Longrightarrow> reject_candidate rt e a c r ho \<noteq> None"
  unfolding reject_candidate_def by (rule and_then_returns) (auto simp: host_dispose_not_None)

lemma dispose_previous_returns:
  "ext_host_inv ho \<Longrightarrow> set_option v \<subseteq> {..< length (hp_scopes (ho_heap ho))} \<Longrightarrow> dispose_previous rt v ho \<noteq> None"
  by (cases v) (auto simp: dispose_previous_def host_dispose_not_None and_then_def split: option.splits outcome.splits
      dest: host_dispose_returns [where rt = rt])

lemma current_valid:
  assumes "ext_host_inv ho" "slot_current (ho_manager ho) k = v"
  shows "set_option v \<subseteq> {..< length (hp_scopes (ho_heap ho))}"
  using slots_not_ready(1) [OF assms(1) slot_current_slot] assms(2) by auto

lemma complete_publish_returns:
  assumes "\<And>d. dispose_previous rt previous
    (ho\<lparr>ho_heap := replace_child a previous c (quiesce_previous previous (hp_emit d (ho_heap ho)))\<rparr>) \<noteq> None"
  shows "complete_publish rt (replace_child a) previous c ho \<noteq> None"
  unfolding complete_publish_def Let_def
  by (rule and_then_returns [OF assms [unfolded quiesce_previous_def]]) simp

lemma publish_with_returns:
  assumes inv: "ext_host_inv ho" and c: "c < length (hp_scopes (ho_heap ho))" and a: "publish_parent (ho_manager ho) k a"
  shows "publish_with rt k (replace_child a) expected c ho \<noteq> None"
proof (cases "state_of (scope_at (ho_heap ho) c) = SlReady")
  case False
  with reject_candidate_returns [OF inv c] show ?thesis
    by (simp add: publish_with_def Let_def del: not_None_eq scope_state_error_display.simps)
next
  case ready: True
  show ?thesis
  proof (cases "slot_current (ho_manager ho) k = expected")
    case False
    let ?h = "hp_emit (scope_diagnostic DCandidateCasRejected SevWarning (identity_at ho c) None
      ''candidate publication lost the expected-old CAS race'') (ho_heap ho)"
    have "ext_host_inv (ho\<lparr>ho_heap := ?h\<rparr>)" using inv rescope_good [of ?h ho] by (simp add: good_step_def)
    from reject_candidate_returns [OF this] c False ready show ?thesis
      by (simp add: publish_with_def compare_and_swap_def Let_def del: not_None_eq)
  next
    case True
    obtain hm where ma: "mark_active c (ho_heap ho) = Ok hm"
      using mark_active_ready [OF _ ready] host_inv_ok [OF inv] c by blast
    have valid: "set_option expected \<subseteq> {..< length (hp_scopes (ho_heap ho))}" by (rule current_valid [OF inv True])
    have "complete_publish rt (replace_child a) expected c (ho\<lparr>ho_manager := slot_store (ho_manager ho) k (Some c), ho_heap := hm\<rparr>) \<noteq> None"
    proof (rule complete_publish_returns)
      fix d
      note G = committed_good [where d = d, OF inv c ready True a ma refl]
      show "dispose_previous rt expected (ho\<lparr>ho_manager := slot_store (ho_manager ho) k (Some c), ho_heap := hm,
          ho_heap := replace_child a expected c (quiesce_previous expected (hp_emit d
            (ho_heap (ho\<lparr>ho_manager := slot_store (ho_manager ho) k (Some c), ho_heap := hm\<rparr>))))\<rparr>) \<noteq> None"
        using dispose_previous_returns [OF G(1)] valid G(5) by simp
    qed
    with ready True ma show ?thesis by (simp add: publish_with_def compare_and_swap_def Let_def)
  qed
qed

lemma reject_tree_returns:
  assumes "host_dispose rt w ho \<noteq> None"
    and "\<And>ho1 r. host_dispose rt w ho = Some (ho1, r) \<Longrightarrow> ext_host_inv ho1 \<and> p < length (hp_scopes (ho_heap ho1))"
  shows "reject_tree rt ep ap ew aw p w reason ho \<noteq> None"
  unfolding reject_tree_def
proof (rule and_then_returns [OF assms(1)])
  fix ho1 r assume "host_dispose rt w ho = Some (ho1, Done r)"
  then have "host_dispose rt p ho1 \<noteq> None" using assms(2) host_dispose_not_None by blast
  then show "and_then (host_dispose rt p ho1) (\<lambda>ho2 project_report. Some (ho2, Done (Err
         \<lparr>tre_expected_project = identities ho2 ep, tre_actual_project = identities ho2 ap,
          tre_expected_workspace = identities ho2 ew, tre_actual_workspace = identities ho2 aw,
          tre_rejected_project = identity_at ho2 p, tre_rejected_workspace = identity_at ho2 w,
          tre_rejected_dispose = project_report, tre_rejected_workspace_dispose = r,
          tre_reason = reason\<rparr>))) \<noteq> None"
    by (rule and_then_returns) simp
qed

lemma reject_tree_returns_inv:
  assumes "ext_host_inv ho" "p < length (hp_scopes (ho_heap ho))" "w < length (hp_scopes (ho_heap ho))"
  shows "reject_tree rt ep ap ew aw p w reason ho \<noteq> None"
  by (rule reject_tree_returns [OF host_dispose_not_None [OF assms(1,3)]])
    (use host_dispose_good assms in \<open>fastforce simp: good_step_def\<close>)

lemma detached_returns:
  assumes inv: "ext_host_inv ho" and pw: "p \<noteq> w" "p < length (hp_scopes (ho_heap ho))" "w < length (hp_scopes (ho_heap ho))"
    and ready: "state_of (scope_at (ho_heap ho) p) = SlReady" "state_of (scope_at (ho_heap ho) w) = SlReady"
    and at: "attach_child p w (ho_heap ho) = Ok g"
  shows "reject_tree rt ep ap ew aw p w reason (ho\<lparr>ho_heap := g\<rparr>) \<noteq> None"
proof (rule reject_tree_returns)
  note A = attach_child_Ok [OF at]
  have len: "length (hp_scopes g) = length (hp_scopes (ho_heap ho))" using A(1) by (simp add: heap_evolves_def)
  have old: "forest (ready_set (ho_heap ho)) (slot_set (ho_manager ho)) (child_edges (ho_heap ho))"
    "Field (child_edges (ho_heap ho)) \<subseteq> {..< length (hp_scopes (ho_heap ho))}"
    using inv by (simp_all add: ext_host_inv_def)
  have "p \<in> ready_set (ho_heap ho)" "w \<in> ready_set (ho_heap ho)" using ready pw by (simp_all add: ready_set_def)
  from forest_attach [OF old(1) this pw(1)] have "acyclic (insert (p, w) (child_edges (ho_heap ho)))"
    by (simp add: forest_def)
  then have "acyclic (child_edges g)" using A(2) by (rule acyclic_subset)
  moreover have "Field (child_edges g) \<subseteq> {..< length (hp_scopes g)}"
  proof -
    have "Field (child_edges g) \<subseteq> Field (insert (p, w) (child_edges (ho_heap ho)))" by (rule mono_Field [OF A(2)])
    also have "\<dots> \<subseteq> {..< length (hp_scopes g)}" using old(2) pw len by (auto simp: Field_def)
    finally show ?thesis .
  qed
  ultimately have "\<exists>h' r. dispose_scope rt (ho_deadlines ho) w g = Some (h', r)"
    by (rule dispose_returns) (simp add: len pw)
  then show "host_dispose rt w (ho\<lparr>ho_heap := g\<rparr>) \<noteq> None" by (simp add: host_dispose_def)
  fix ho1 r assume d: "host_dispose rt w (ho\<lparr>ho_heap := g\<rparr>) = Some (ho1, r)"
  show "ext_host_inv ho1 \<and> p < length (hp_scopes (ho_heap ho1))"
    using detached_good [OF inv pw ready at d] host_dispose_good(3) [OF d] len pw(2) by simp
qed

lemma mark_both_active:
  assumes inv: "ext_host_inv ho" and pw: "p \<noteq> w" "p < length (hp_scopes (ho_heap ho))" "w < length (hp_scopes (ho_heap ho))"
    and ready: "state_of (scope_at (ho_heap ho) p) = SlReady" "state_of (scope_at (ho_heap ho) w) = SlReady"
    and at: "attach_child p w (ho_heap ho) = Ok g"
  obtains h1 h2 where "mark_active p g = Ok h1" "mark_active w h1 = Ok h2"
proof -
  note A = attach_child_Ok [OF at]
  have ok: "scope_ok (scope_at g p)" "scope_ok (scope_at g w)"
    using A(1) host_inv_ok [OF inv] pw by (simp_all add: heap_evolves_def)
  obtain h1 where h1: "mark_active p g = Ok h1" using mark_active_ready [OF ok(1)] A(4) ready by auto
  have "scope_at h1 w = scope_at g w" using mark_active_Ok(5) [OF h1, of w] pw(1) by simp
  then obtain h2 where "mark_active w h1 = Ok h2" using mark_active_ready [of h1 w] ok(2) A(4) ready by auto
  with h1 that show thesis by blast
qed

lemma complete_tree_returns:
  assumes inv: "ext_host_inv ho" and pw: "p \<noteq> w" "p < length (hp_scopes (ho_heap ho))" "w < length (hp_scopes (ho_heap ho))"
    and ready: "state_of (scope_at (ho_heap ho) p) = SlReady" "state_of (scope_at (ho_heap ho) w) = SlReady"
    and at: "attach_child p w (ho_heap ho) = Ok g" and ep: "mg_project (ho_manager ho) = ep"
  shows "complete_tree rt ep ew p w (ho\<lparr>ho_heap := g,
     ho_manager := (ho_manager ho)\<lparr>mg_project := Some p, mg_workspace := Some w\<rparr>\<rparr>) \<noteq> None"
proof -
  obtain h1 h2 where m: "mark_active p g = Ok h1" "mark_active w h1 = Ok h2" by (rule mark_both_active [OF assms(1-7)])
  note T = tree_commit_good [OF inv pw ready at m ep refl]
  have "set_option ep \<subseteq> {..< length (hp_scopes (ho_heap ho))}" using current_valid [OF inv, of ProjectSlot] ep by simp
  with T(1,3) have "dispose_previous rt ep (ho\<lparr>ho_manager := (ho_manager ho)\<lparr>mg_project := Some p, mg_workspace := Some w\<rparr>,
      ho_heap := quiesce_previous ep (replace_child (mg_application (ho_manager ho)) ep p h2)\<rparr>) \<noteq> None"
    by (intro dispose_previous_returns) auto
  then show ?thesis
    using m by (simp add: complete_tree_def Let_def and_then_def quiesce_previous_def split: option.splits outcome.splits)
qed

lemma publish_tree_returns:
  assumes inv: "ext_host_inv ho" and pw: "p \<noteq> w" "p < length (hp_scopes (ho_heap ho))" "w < length (hp_scopes (ho_heap ho))"
  shows "publish_project_tree rt ep p ew w ho \<noteq> None"
proof (cases "state_of (scope_at (ho_heap ho) p) = SlReady \<and> state_of (scope_at (ho_heap ho) w) = SlReady \<and>
    si_parent_id (identity_at ho w) = Some (si_id (identity_at ho p))")
  case False
  have r: "reject_tree rt ep ap ew aw p w reason ho \<noteq> None" for ap aw reason by (rule reject_tree_returns_inv [OF inv pw(2,3)])
  show ?thesis using False pw(1) r
    by (auto simp: publish_project_tree_def Let_def simp del: scope_state_error_display.simps)
next
  case True
  then obtain g where g: "attach_child p w (ho_heap ho) = Ok g"
    using attach_child_ready [of "ho_heap ho" p w] by (auto simp: identity_at_def)
  have same: "ho\<lparr>ho_heap := g, ho_manager := (ho_manager ho)\<lparr>mg_project := ep\<rparr>\<rparr> = ho\<lparr>ho_heap := g\<rparr>"
    if "mg_project (ho_manager ho) = ep" using that by auto
  have r: "reject_tree rt ep ap ew aw p w reason (ho\<lparr>ho_heap := g\<rparr>) \<noteq> None" for ap aw reason
    by (rule detached_returns [OF inv pw _ _ g]) (use True in simp_all)
  have c: "complete_tree rt (mg_project (ho_manager ho)) ew p w (ho\<lparr>ho_heap := g,
     ho_manager := (ho_manager ho)\<lparr>mg_project := Some p, mg_workspace := Some w\<rparr>\<rparr>) \<noteq> None"
    by (rule complete_tree_returns [OF inv pw _ _ g refl]) (use True in simp_all)
  show ?thesis
  proof (cases "mg_project (ho_manager ho) = ep \<and> mg_workspace (ho_manager ho) \<noteq> ew")
    case swapped: True
    with r [of ep "mg_workspace (ho_manager ho)" "''workspace_expected_old_mismatch''"] True pw(1) g show ?thesis
      by (simp add: publish_project_tree_def Let_def compare_and_swap_def same del: not_None_eq)
  next
    case False
    with True pw(1) g r c show ?thesis
      by (cases "mg_project (ho_manager ho) = ep")
        (simp_all add: publish_project_tree_def Let_def compare_and_swap_def del: not_None_eq)
  qed
qed

lemma clear_slot_returns:
  assumes inv: "ext_host_inv ho" and k: "k = ProjectSlot \<Longrightarrow> mg_workspace (ho_manager ho) = None"
    and par: "parent = (case k of ProjectSlot \<Rightarrow> Some (mg_application (ho_manager ho)) | WorkspaceSlot \<Rightarrow> mg_project (ho_manager ho))"
  shows "clear_slot rt k parent e ho \<noteq> None"
proof (cases "slot_current (ho_manager ho) k = Some e")
  case True
  let ?h1 = "begin_quiesce e (ho_heap ho)"
  let ?h2 = "case parent of None \<Rightarrow> ?h1 | Some p \<Rightarrow> remove_child p e ?h1"
  let ?ho1 = "ho\<lparr>ho_manager := slot_store (ho_manager ho) k None, ho_heap := ?h2\<rparr>"
  have edges: "child_edges ?h2 \<subseteq> child_edges (ho_heap ho)" and ev: "heap_evolves (ho_heap ho) ?h2"
    using begin_quiesce_evolves [where h = "ho_heap ho" and a = e] remove_child_edges [where h = ?h1]
    by (auto split: option.splits intro: heap_evolves_trans)
  have len: "length (hp_scopes ?h2) = length (hp_scopes (ho_heap ho))" using ev by (simp add: heap_evolves_def)
  have "acyclic (child_edges (ho_heap ho))" "Field (child_edges (ho_heap ho)) \<subseteq> {..< length (hp_scopes (ho_heap ho))}"
    using inv by (simp_all add: ext_host_inv_def forest_def)
  then have "\<exists>h' r. dispose_scope rt (ho_deadlines ho) e ?h2 = Some (h', r)"
    using current_valid [OF inv True] mono_Field [OF edges] acyclic_subset [OF _ edges] unfolding len [symmetric]
    by (intro dispose_returns) auto
  then have "host_dispose rt e ?ho1 \<noteq> None" by (simp add: host_dispose_def)
  then have "and_then (host_dispose rt e ?ho1) (\<lambda>ho' report. Some (ho', Done (Ok (Some report)))) \<noteq> None"
    by (rule and_then_returns) simp
  with True show ?thesis
    unfolding clear_slot_def compare_and_swap_def Let_def by (simp del: not_None_eq)
qed (simp add: clear_slot_def compare_and_swap_def)

lemma build_in_host_returns:
  fixes ho :: "('x, 'h, 'w) host"
  assumes scc: "scc_spec scc" and inv: "ext_host_inv ho" and parent: "parent < length (hp_scopes (ho_heap ho))"
  shows "build_in_host scc rt kind parent i plugins ho \<noteq> None"
proof -
  obtain ho1 r where n: "next_identity ho kind i (Some parent) = (ho1, r)" by (cases "next_identity ho kind i (Some parent)")
  note ni = next_identity_Ok [OF n inv]
  show ?thesis
  proof (cases r)
    case (Inr identity)
    let ?p = "sn_plan (scope_at (ho_heap ho) parent)"
    have "plan_before (unat (mg_next_generation (ho_manager ho))) ?p"
      using inv parent by (simp add: ext_host_inv_def generations_ok_def)
    moreover have "si_generation identity = mg_next_generation (ho_manager ho)" using ni(3) Inr by blast
    ultimately have pp: "plan_before (unat (si_generation identity)) q" if "Some ?p = Some q" for q using that by simp
    have "build_scope_candidate_with_passive scc rt (ho_deadlines ho1) identity (Some ?p) plugins [] (ho_heap ho) \<noteq> None"
    proof (rule build_returns [OF scc pp])
      fix s :: "('x, 'h) scope_snapshot" and h1 :: "('x, 'h, 'w) heap"
      assume f: "fresh_scope identity s" and h1: "hp_scopes h1 = hp_scopes (ho_heap ho)"
      have at: "scope_at h1 b = scope_at (ho_heap ho) b" for b using h1 by (simp add: scope_at_def)
      have edges: "child_edges (with_scope s h1) = child_edges (ho_heap ho)"
        using f scope_at_with_scope [where h = h1 and s = s]
        by (auto simp: child_edges_def less_Suc_eq fresh_scope_def h1 at)
      have "acyclic (child_edges (ho_heap ho))" "Field (child_edges (ho_heap ho)) \<subseteq> {..< length (hp_scopes (ho_heap ho))}"
        using inv by (simp_all add: ext_host_inv_def forest_def)
      then have "\<exists>h' r. dispose_scope rt (ho_deadlines ho1) (length (hp_scopes (ho_heap ho))) (with_scope s h1) = Some (h', r)"
        by (intro dispose_returns) (auto simp: edges scope_at_with_scope(3) h1)
      then show "dispose_scope rt (ho_deadlines ho1) (length (hp_scopes (ho_heap ho))) (with_scope s h1) \<noteq> None" by auto
    qed
    with n Inr ni(2) show ?thesis by (simp add: build_in_host_def build_scope_candidate_def)
  qed (use n in \<open>simp add: build_in_host_def\<close>)
qed

text \<open>
  Every operation of a host returns, whatever its arguments. The one exception is the publication of a
  tree whose project and Workspace are the same snapshot: it waits for a gate it holds.
\<close>

fun op_distinct :: "('ver, 'x, 'h, 'w) host_op \<Rightarrow> bool" where
  "op_distinct (OpPublishTree e p f w) \<longleftrightarrow> p \<noteq> w"
| "op_distinct _ \<longleftrightarrow> True"

lemma exec_returns:
  assumes "scc_spec scc" "ext_host_inv ho" "op_valid ho op" "op_distinct op"
  shows "exec_op scc rt op ho \<noteq> None"
proof (cases op)
  case (OpBuildProject i ps)
  with build_in_host_returns [OF assms(1,2) application_valid [OF assms(2)]] show ?thesis
    by (simp add: build_project_candidate_def del: not_None_eq)
next
  case (OpBuildWorkspace p i ps)
  with assms build_in_host_returns [OF assms(1,2)] show ?thesis
    by (simp add: build_workspace_candidate_def op_valid_def del: not_None_eq)
next
  case (OpRollback a)
  with assms host_dispose_not_None [OF assms(2)] show ?thesis by (simp add: op_valid_def del: not_None_eq)
next
  case (OpPublishProject e c)
  with assms have c: "c < length (hp_scopes (ho_heap ho))" by (simp add: op_valid_def)
  have "publish_project rt e c ho \<noteq> None"
    using publish_with_returns [OF assms(2) c, of ProjectSlot] reject_candidate_returns [OF assms(2) c]
    by (simp add: publish_project_def Let_def publish_parent_def del: not_None_eq)
  with OpPublishProject show ?thesis by (simp del: not_None_eq)
next
  case (OpPublishWorkspace e c)
  with assms have c: "c < length (hp_scopes (ho_heap ho))" by (simp add: op_valid_def)
  have "publish_workspace rt e c ho \<noteq> None"
    using publish_with_returns [OF assms(2) c, of WorkspaceSlot] reject_candidate_returns [OF assms(2) c]
    by (cases "mg_project (ho_manager ho)")
      (simp_all add: publish_workspace_def Let_def publish_parent_def del: not_None_eq scope_state_error_display.simps)
  with OpPublishWorkspace show ?thesis by (simp del: not_None_eq)
next
  case (OpPublishTree e p f w)
  with assms publish_tree_returns [OF assms(2)] show ?thesis by (simp add: op_valid_def del: not_None_eq)
next
  case (OpClearProject e)
  have "clear_project_scope rt e ho \<noteq> None"
    using clear_slot_returns [OF assms(2), of ProjectSlot]
    by (cases e; cases "mg_workspace (ho_manager ho)") (simp_all add: clear_project_scope_def del: not_None_eq)
  with OpClearProject show ?thesis by (simp del: not_None_eq)
next
  case (OpClearWorkspace e)
  have "clear_workspace_scope rt e ho \<noteq> None"
    using clear_slot_returns [OF assms(2), of WorkspaceSlot]
    by (cases e) (simp_all add: clear_workspace_scope_def del: not_None_eq)
  with OpClearWorkspace show ?thesis by (simp del: not_None_eq)
next
  case OpShutdown
  with host_dispose_not_None [OF assms(2) application_valid [OF assms(2)]] show ?thesis
    by (simp add: shutdown_def del: not_None_eq)
qed (use assms in simp_all)

section \<open>Starting a host\<close>

definition started_by ::
  "(dep_graph \<Rightarrow> plugin_id list list) \<Rightarrow> ('x, 'w) runtime \<Rightarrow> ('ver :: linorder) \<Rightarrow> ('x, 'h, 'w) host \<Rightarrow> bool" where
  "started_by scc rt version_one ho \<longleftrightarrow>
     (\<exists>mode capabilities plugins dl w.
        new_with_application_plugins scc rt version_one mode capabilities plugins dl w = Some (Done (Ok ho))) \<or>
     (\<exists>mode capabilities dl w. new_with_host_capabilities scc version_one mode capabilities dl w = Some (Ok ho))"

lemma host_around_inv:
  assumes "host_around mode dl 0 h = Some (Ok ho)" "length (hp_scopes h) = 1"
    and fresh: "fresh_scope application_identity (scope_at h 0)" and plan: "plan_before 2 (sn_plan (scope_at h 0))"
  shows "ext_host_inv ho"
proof -
  obtain policy where pol: "phase_one = Some policy" using phase_one_Some by blast
  obtain h' where ma: "mark_active 0 h = Ok h'" and ho: "ho = \<lparr>ho_mode = mode,
      ho_manager = \<lparr>mg_policy = policy, mg_next_generation = 2, mg_application = 0, mg_project = None, mg_workspace = None\<rparr>,
      ho_deadlines = dl, ho_heap = h'\<rparr>"
    using assms(1) [unfolded host_around_def pol option.case] by (auto split: sum.splits)
  note M = mark_active_Ok [OF ma]
  have len: "length (hp_scopes h') = 1" using M(1) assms(2) by (simp add: heap_evolves_def)
  have ok: "scope_ok (scope_at h' 0)" "scope_evolves (scope_at h 0) (scope_at h' 0)"
    using M(1) fresh assms(2) by (simp_all add: heap_evolves_def fresh_scope_def)
  have act: "state_of (scope_at h' 0) = SlActive" using M(4) assms(2) by simp
  have id: "sn_identity (scope_at h' 0) = application_identity" "sn_plan (scope_at h' 0) = sn_plan (scope_at h 0)"
    using ok(2) fresh by (simp_all add: scope_evolves_def fresh_scope_def)
  have "child_edges h' = {}" using M(2) fresh assms(2) by (auto simp: child_edges_def fresh_scope_def)
  moreover have "ready_set h' = {}" using act len by (auto simp: ready_set_def)
  moreover have "generation_at h' 0 = 1" by (simp add: generation_at_def id application_identity_def)
  then have "generations_ok 2 h'" using plan len id by (simp add: generations_ok_def inj_on_def)
  ultimately show ?thesis
    using len ok(1) by (simp add: ho ext_host_inv_def slot_set_def forest_def chained_def acyclic_def) blast
qed

lemma application_plan:
  assumes "resolve_activation_plan scc policy application_identity None ds = Ok plan" "scc_spec scc"
  shows "plan_before 2 plan"
  by (rule resolved_plan_before(1) [OF assms]) (simp_all add: application_identity_def)

lemma started_inv:
  fixes ho :: "('x, 'h, 'w) host"
  assumes "started_by scc rt version_one ho" "scc_spec scc"
  shows "ext_host_inv ho"
  using assms(1) unfolding started_by_def
proof (elim disjE exE)
  fix mode capabilities dl w and plugins :: "('a, 'x, 'h, 'w) internal_plugin list"
  assume n: "new_with_application_plugins scc rt version_one mode capabilities plugins dl w = Some (Done (Ok ho))"
  let ?h0 = "\<lparr>hp_scopes = [], hp_log = [], hp_world = w\<rparr> :: ('x, 'h, 'w) heap"
  obtain h a where b: "build_scope_candidate_with_passive scc rt dl application_identity None plugins
      (case host_capability_descriptor version_one capabilities of None \<Rightarrow> [] | Some d \<Rightarrow> [d]) ?h0 = Some (h, Done (Ok a))"
    and ha: "host_around mode dl a h = Some (Ok ho)"
    using n by (auto simp: new_with_application_plugins_def split: option.splits outcome.splits sum.splits)
  from b show ?thesis
  proof (cases rule: build_cases)
    case (built s policy)
    then have h: "hp_scopes h = [s]" and a: "a = 0" by (simp_all add: with_scope_def)
    have "fresh_scope application_identity (scope_at h 0)" "plan_before 2 (sn_plan (scope_at h 0))"
      using built(1) application_plan [OF built(4) assms(2)] by (simp_all add: scope_at_def h)
    with ha a h show ?thesis by (intro host_around_inv) simp_all
  qed auto
next
  fix mode capabilities dl w
  assume n: "new_with_host_capabilities scc version_one mode capabilities dl w = Some (Ok ho)"
  obtain policy where pol: "phase_one = Some policy" using phase_one_Some by blast
  let ?ds = "case host_capability_descriptor version_one capabilities of None \<Rightarrow> [] | Some d \<Rightarrow> [d]"
  let ?inst = "\<lparr>pii_plugin_id = ''org.yulab.rho.host'', pii_scope = application_identity\<rparr>"
  obtain plan where plan: "resolve_activation_plan scc policy application_identity None ?ds = Ok plan"
    using n [unfolded new_with_host_capabilities_def pol option.case] by (auto split: sum.splits resolve_error.splits)
  define st :: "('x, 'h, 'w) build_state" where "st = \<lparr>bu_registry = RegistryHub_candidate application_identity,
    bu_tasks = ScopedTaskTracker_new, bu_activated = (if ap_activation_order plan = [] then []
      else [\<lparr>apl_instance = ?inst, apl_effects = into_stack (EffectSink_new ?inst)\<rparr>]), bu_log = [], bu_world = w\<rparr>"
  let ?s = "ScopeSnapshot_new_ready application_identity plan (bu_registry st) (bu_tasks st) (bu_activated st)"
  let ?h = "\<lparr>hp_scopes = [?s], hp_log = [], hp_world = w\<rparr> :: ('x, 'h, 'w) heap"
  have "host_around mode dl 0 ?h = Some (Ok ho)"
    using n [unfolded new_with_host_capabilities_def pol option.case plan sum.case Let_def]
    by (simp add: alloc_def st_def)
  moreover have "build_ok application_identity st"
    by (simp add: st_def build_ok_def RegistryHub_candidate_def ScopedTaskTracker_new_def accounted_def)
      (simp add: RegistryHub_candidate_def [symmetric])
  then have "fresh_scope application_identity ?s" by (rule fresh_snapshot)
  moreover have "plan_before 2 (sn_plan ?s)"
    using application_plan [OF plan assms(2)] by (simp add: ScopeSnapshot_new_ready_def)
  ultimately show ?thesis by (intro host_around_inv [of mode dl ?h]) (simp_all add: scope_at_def)
qed

lemma reachable_inv:
  assumes "started_by scc rt v ho0" "runs scc rt ops ho0 ho" "scc_spec scc"
  shows "ext_host_inv ho"
  using runs_good [OF assms(2,3) started_inv [OF assms(1,3)]] by blast

end
