(* ===== verification/Scope_Outcomes.thy ===== *)
theory Scope_Outcomes
  imports Scope_Runs
begin

text \<open>
  What the publications of \<open>ScopeManager\<close> do to the slots and to the scopes, on every branch: a
  publication succeeds exactly when its compare-and-swap does, the new scope stays active while the
  replaced one is disposed, and a rejected candidate is closed.
\<close>

section \<open>What a disposal does not reach\<close>

lemma dispose_scope_frame:
  assumes "dispose_scope rt dl p h = Some (h', res)" "Field (child_edges h) \<subseteq> {..< length (hp_scopes h)}"
    and "p < length (hp_scopes h)" "(p, c) \<notin> (child_edges h)\<^sup>*" "c < length (hp_scopes h)"
  shows "recount (scope_at h c) (scope_at h' c)"
proof -
  let ?H = "{x. (x, c) \<in> (child_edges h)\<^sup>* \<or> length (hp_scopes h) \<le> x}"
  have "apart ?H [] h"
    unfolding apart_def
  proof (intro conjI allI impI)
    fix x assume "x \<notin> ?H"
    then have x: "x < length (hp_scopes h)" "(x, c) \<notin> (child_edges h)\<^sup>*" by auto
    have "y \<notin> ?H" if "y \<in> set (sn_children (scope_at h x))" for y
    proof -
      have e: "(x, y) \<in> child_edges h" using x(1) that by (simp add: child_edges_def)
      then have "y < length (hp_scopes h)" using assms(2) by (auto simp: Field_def)
      moreover have "(y, c) \<notin> (child_edges h)\<^sup>*" using x(2) e by (meson converse_rtrancl_into_rtrancl)
      ultimately show ?thesis by simp
    qed
    then show "set (sn_children (scope_at h x)) \<inter> ?H \<subseteq> set []" by blast
  qed simp
  from quiesce_frame [OF assms(1) [unfolded dispose_scope_def] this] assms(3-5) show ?thesis
    by (simp add: heap_step_def)
qed

lemma host_dispose_frame:
  assumes "host_dispose rt p ho = Some (ho', res)" "ext_host_inv ho" "p < length (hp_scopes (ho_heap ho))"
    and "(p, c) \<notin> (child_edges (ho_heap ho))\<^sup>*" "c < length (hp_scopes (ho_heap ho))"
  shows "state_of (scope_at (ho_heap ho') c) = state_of (scope_at (ho_heap ho) c)"
proof -
  obtain h where d: "dispose_scope rt (ho_deadlines ho) p (ho_heap ho) = Some (h, res)" and ho': "ho' = ho\<lparr>ho_heap := h\<rparr>"
    using assms(1) by (auto simp: host_dispose_def)
  have "recount (scope_at (ho_heap ho) c) (scope_at h c)"
    by (rule dispose_scope_frame [OF d]) (use assms in \<open>simp_all add: ext_host_inv_def\<close>)
  then show ?thesis by (auto simp: recount_def ho' state_of_def set_counts_def)
qed

definition closed_at :: "('x, 'h, 'w) host \<Rightarrow> nat \<Rightarrow> bool" where
  "closed_at ho a \<longleftrightarrow> state_of (scope_at (ho_heap ho) a) \<notin> {SlReady, SlActive}"

lemma host_dispose_closes:
  assumes "host_dispose rt a ho = Some (ho', res)" "ext_host_inv ho" "a < length (hp_scopes (ho_heap ho))"
  shows "closed_at ho' a"
  using assms dispose_scope_closes host_inv_ok [OF assms(2)]
  by (fastforce simp: host_dispose_def closed_at_def)

lemma closed_stays: "host_moves ho ho' \<Longrightarrow> a < length (hp_scopes (ho_heap ho)) \<Longrightarrow> closed_at ho a \<Longrightarrow> closed_at ho' a"
proof -
  assume "host_moves ho ho'" "a < length (hp_scopes (ho_heap ho))" and c: "closed_at ho a"
  then have "lifecycle_stage (state_of (scope_at (ho_heap ho) a)) \<le> lifecycle_stage (state_of (scope_at (ho_heap ho') a))"
    by (simp add: host_moves_def scope_evolves_def)
  with c show "closed_at ho' a"
    by (cases "state_of (scope_at (ho_heap ho) a)"; cases "state_of (scope_at (ho_heap ho') a)") (auto simp: closed_at_def)
qed

lemma reject_candidate_outcome:
  assumes "reject_candidate rt e a c reason ho = Some (ho', res)" "ext_host_inv ho" "c < length (hp_scopes (ho_heap ho))"
  shows "ho_manager ho' = ho_manager ho" "closed_at ho' c" "res \<noteq> Done (Ok r)"
  using assms host_dispose_closes
  by (auto simp: reject_candidate_def and_then_Some dest: host_dispose_good)

section \<open>Publication into a slot\<close>

text \<open>The scope in a slot is a child of the one its successors are handed to.\<close>

lemma current_is_child:
  assumes "ext_host_inv ho" "publish_parent (ho_manager ho) k a" "slot_current (ho_manager ho) k = Some p"
  shows "(a, p) \<in> child_edges (ho_heap ho)"
proof -
  have "a < length (hp_scopes (ho_heap ho))" using slots_not_ready(1) [OF assms(1) publish_parent_slot [OF assms(2)]] .
  moreover have "p \<in> set (sn_children (scope_at (ho_heap ho) a))"
    using assms by (cases k) (auto simp: ext_host_inv_def chained_def publish_parent_def)
  ultimately show ?thesis by (simp add: child_edges_def)
qed

text \<open>So its disposal reaches neither the parent nor the candidate.\<close>

lemma previous_apart:
  assumes inv: "ext_host_inv ho" and c: "c \<in> ready_set (ho_heap ho)" and a: "publish_parent (ho_manager ho) k a"
    and p: "slot_current (ho_manager ho) k = Some p" and E: "E' \<subseteq> insert (a, c) (child_edges (ho_heap ho))"
  shows "(p, a) \<notin> E'\<^sup>*" "(p, c) \<notin> E'\<^sup>*"
proof -
  let ?E = "insert (a, c) (child_edges (ho_heap ho))"
  have f: "forest (ready_set (ho_heap ho)) (slot_set (ho_manager ho)) (child_edges (ho_heap ho))"
    using inv by (simp add: ext_host_inv_def)
  have ac: "acyclic ?E" using forest_publish [OF f c publish_parent_slot [OF a]] by (simp add: forest_def)
  have e: "(a, p) \<in> ?E" using current_is_child [OF inv a p] by simp
  have mono: "(x, y) \<in> ?E\<^sup>*" if "(x, y) \<in> E'\<^sup>*" for x y using that rtrancl_mono [OF E] by blast
  show pa: "(p, a) \<notin> E'\<^sup>*" using mono e ac by (meson acyclic_def rtrancl_into_trancl2)
  show "(p, c) \<notin> E'\<^sup>*"
  proof
    assume "(p, c) \<in> E'\<^sup>*"
    moreover have "p \<noteq> c" using slots_not_ready(2) [OF inv slot_current_slot [OF p]] c by (auto simp: ready_set_def)
    ultimately obtain y where y: "(p, y) \<in> E'\<^sup>*" "(y, c) \<in> E'" by (meson rtranclE)
    have "c \<notin> Range (child_edges (ho_heap ho))" using f c unfolding forest_def by blast
    with y(2) E have "y = a" by blast
    with y(1) pa show False by blast
  qed
qed

lemma dispose_previous_keeps:
  assumes "dispose_previous rt v ho = Some (ho', res)" "ext_host_inv ho" "set_option v \<subseteq> {..< length (hp_scopes (ho_heap ho))}"
    and "\<And>p. v = Some p \<Longrightarrow> (p, c) \<notin> (child_edges (ho_heap ho))\<^sup>*" "c < length (hp_scopes (ho_heap ho))"
  shows "state_of (scope_at (ho_heap ho') c) = state_of (scope_at (ho_heap ho) c)"
  using assms host_dispose_frame
  by (cases v) (fastforce simp: dispose_previous_def and_then_Some)+

lemma dispose_previous_closes:
  assumes "dispose_previous rt (Some p) ho = Some (ho', res)" "ext_host_inv ho" "p < length (hp_scopes (ho_heap ho))"
  shows "closed_at ho' p"
proof -
  obtain r where "host_dispose rt p ho = Some (ho', r)"
    using assms(1) by (auto simp: dispose_previous_def and_then_Some)
  then show ?thesis by (rule host_dispose_closes) (rule assms(2,3))+
qed

lemma published_parent_state:
  assumes "mark_active c h = Ok hm" "b \<noteq> c" "previous \<noteq> Some b"
  shows "state_of (scope_at (replace_child a previous c (quiesce_previous previous (hp_emit d hm))) b) = state_of (scope_at h b)"
  using mark_active_Ok(5) [OF assms(1,2)] by (simp add: replace_child_at(3) quiesce_previous_facts(4) [OF assms(3)])

lemma publish_with_committed:
  assumes "publish_with rt k (replace_child a) expected c ho = Some (ho', res)"
    and inv: "ext_host_inv ho" and c: "c < length (hp_scopes (ho_heap ho))" and a: "publish_parent (ho_manager ho) k a"
    and ready: "state_of (scope_at (ho_heap ho) c) = SlReady" and cur: "slot_current (ho_manager ho) k = expected"
  shows "ho_manager ho' = slot_store (ho_manager ho) k (Some c)" "state_of (scope_at (ho_heap ho') c) = SlActive"
    and "state_of (scope_at (ho_heap ho') a) = state_of (scope_at (ho_heap ho) a)"
    and "expected = Some p \<Longrightarrow> closed_at ho' p" "res \<noteq> Done (Err e)"
proof -
  obtain hm d ho1 where ma: "mark_active c (ho_heap ho) = Ok hm"
    and ho1: "ho1 = ho\<lparr>ho_manager := slot_store (ho_manager ho) k (Some c),
      ho_heap := replace_child a expected c (quiesce_previous expected (hp_emit d hm))\<rparr>"
    and t: "and_then (dispose_previous rt expected ho1) (\<lambda>ho2 dispose.
         Some (ho2, Done (Ok \<lparr>pub_published = identity_at ho2 c, pub_previous = identities ho2 expected,
           pub_previous_dispose = dispose\<rparr>))) = Some (ho', res)"
    using assms(1) inv c
  proof (cases rule: publish_with_cases)
    case (rejected actual reason ho1)
    with ready cur show thesis by simp
  next
    case (committed hm d ho1)
    from that [OF committed(3-5)] show thesis .
  qed
  obtain r where d: "dispose_previous rt expected ho1 = Some (ho', r)" and res: "res \<noteq> Done (Err e)" for e
    using t by (auto simp: and_then_Some)
  note G = committed_good [OF inv c ready cur a ma ho1]
  have cr: "c \<in> ready_set (ho_heap ho)" using ready c by (simp add: ready_set_def)
  have as: "a < length (hp_scopes (ho_heap ho))" "a \<noteq> c"
    using slots_not_ready [OF inv publish_parent_slot [OF a]] ready by auto
  have ec: "expected \<noteq> Some c" "expected \<noteq> Some a"
  proof -
    show "expected \<noteq> Some c" using slots_not_ready(2) [OF inv slot_current_slot, of k] cur ready by metis
    have "(a, a) \<notin> child_edges (ho_heap ho)" using inv by (auto simp: ext_host_inv_def forest_def acyclic_def)
    then show "expected \<noteq> Some a" using current_is_child [OF inv a] cur by blast
  qed
  have valid: "set_option expected \<subseteq> {..< length (hp_scopes (ho_heap ho1))}" using current_valid [OF inv cur] G(5) by simp
  have E: "child_edges (ho_heap ho1) \<subseteq> insert (a, c) (child_edges (ho_heap ho))"
    unfolding ho1 using published_heap(2) [where d = d, OF ma c ec(1) as(2) refl] by simp
  note keep = dispose_previous_keeps [OF d G(1) valid]
  show "ho_manager ho' = slot_store (ho_manager ho) k (Some c)" using dispose_previous_good(2) [OF d] by (simp add: ho1)
  have "state_of (scope_at (ho_heap ho') c) = state_of (scope_at (ho_heap ho1) c)"
    by (rule keep) (use previous_apart(2) [OF inv cr a _ E] cur c G(5) in auto)
  with G(3) show "state_of (scope_at (ho_heap ho') c) = SlActive" by simp
  have "state_of (scope_at (ho_heap ho') a) = state_of (scope_at (ho_heap ho1) a)"
    by (rule keep) (use previous_apart(1) [OF inv cr a _ E] cur as(1) G(5) in auto)
  then show "state_of (scope_at (ho_heap ho') a) = state_of (scope_at (ho_heap ho) a)"
    using published_parent_state [OF ma as(2) ec(2)] by (simp add: ho1)
  show "closed_at ho' p" if "expected = Some p"
    using dispose_previous_closes [OF d [unfolded that] G(1)] valid that by simp
  show "res \<noteq> Done (Err e)" by (rule res)
qed

lemma publish_with_rejected:
  assumes "publish_with rt k (replace_child a) expected c ho = Some (ho', res)"
    and inv: "ext_host_inv ho" and c: "c < length (hp_scopes (ho_heap ho))"
    and no: "\<not> (state_of (scope_at (ho_heap ho) c) = SlReady \<and> slot_current (ho_manager ho) k = expected)"
  shows "ho_manager ho' = ho_manager ho" "closed_at ho' c" "res \<noteq> Done (Ok r)"
proof -
  obtain actual reason ho1 where rj: "reject_candidate rt expected actual c reason ho1 = Some (ho', res)"
    and m: "ho_manager ho1 = ho_manager ho" and h: "heap_step {} (ho_heap ho) (ho_heap ho1)"
    using assms(1) inv c
  proof (cases rule: publish_with_cases)
    case (rejected actual reason ho1)
    from that [OF rejected(1-3)] show thesis .
  next
    case (committed hm d ho1)
    with no show thesis by simp
  qed
  have "ext_host_inv (ho\<lparr>ho_heap := ho_heap ho1\<rparr>)" using good_heap_step [OF h] inv by (simp add: good_step_def)
  then have i1: "ext_host_inv ho1" using m by (simp add: ext_host_inv_def)
  have "c < length (hp_scopes (ho_heap ho1))" using c heap_step_length [OF h] by simp
  from reject_candidate_outcome [OF rj i1 this] m
  show "ho_manager ho' = ho_manager ho" "closed_at ho' c" "res \<noteq> Done (Ok r)" by simp_all
qed

section \<open>Publication of a tree\<close>

lemma previous_apart_tree:
  assumes inv: "ext_host_inv ho" and p: "p \<in> ready_set (ho_heap ho)" and w: "w \<in> ready_set (ho_heap ho)" and "p \<noteq> w"
    and q: "mg_project (ho_manager ho) = Some q"
    and E: "E' \<subseteq> insert (mg_application (ho_manager ho), p) (insert (p, w) (child_edges (ho_heap ho)))"
  shows "(q, p) \<notin> E'\<^sup>*" "(q, w) \<notin> E'\<^sup>*"
proof -
  let ?a = "mg_application (ho_manager ho)"
  let ?E = "insert (?a, p) (insert (p, w) (child_edges (ho_heap ho)))"
  have f: "forest (ready_set (ho_heap ho)) (slot_set (ho_manager ho)) (child_edges (ho_heap ho))"
    using inv by (simp add: ext_host_inv_def)
  have as: "?a \<in> slot_set (ho_manager ho)" and qs: "q \<in> slot_set (ho_manager ho)" using q by (simp_all add: slot_set_def)
  have ac: "acyclic ?E" using forest_tree [OF f p w assms(4) as] by (simp add: forest_def)
  have "q \<in> set (sn_children (scope_at (ho_heap ho) ?a))" using inv q by (simp add: ext_host_inv_def chained_def)
  then have e: "(?a, q) \<in> ?E" using slots_not_ready(1) [OF inv as] by (simp add: child_edges_def)
  have mono: "(x, y) \<in> ?E\<^sup>*" if "(x, y) \<in> E'\<^sup>*" for x y using that rtrancl_mono [OF E] by blast
  have qa: "(q, ?a) \<notin> E'\<^sup>*" using mono e ac by (meson acyclic_def rtrancl_into_trancl2)
  have ne: "q \<noteq> p" "q \<noteq> w" using slots_not_ready(2) [OF inv qs] p w by (auto simp: ready_set_def)
  have nr: "p \<notin> Range (child_edges (ho_heap ho))" "w \<notin> Range (child_edges (ho_heap ho))"
    using f p w unfolding forest_def by blast+
  show qp: "(q, p) \<notin> E'\<^sup>*"
  proof
    assume "(q, p) \<in> E'\<^sup>*"
    then obtain y where y: "(q, y) \<in> E'\<^sup>*" "(y, p) \<in> E'" using ne(1) by (meson rtranclE)
    with E nr(1) assms(4) have "y = ?a" by blast
    with y(1) qa show False by blast
  qed
  show "(q, w) \<notin> E'\<^sup>*"
  proof
    assume "(q, w) \<in> E'\<^sup>*"
    then obtain y where y: "(q, y) \<in> E'\<^sup>*" "(y, w) \<in> E'" using ne(2) by (meson rtranclE)
    with E nr(2) assms(4) have "y = p" by blast
    with y(1) qp show False by blast
  qed
qed

lemma publish_tree_committed:
  assumes t: "complete_tree rt ep ew p w (ho\<lparr>ho_heap := g,
         ho_manager := (ho_manager ho)\<lparr>mg_project := Some p, mg_workspace := Some w\<rparr>\<rparr>) = Some (ho', res)"
    and inv: "ext_host_inv ho" and pw: "p \<noteq> w" "p < length (hp_scopes (ho_heap ho))" "w < length (hp_scopes (ho_heap ho))"
    and ready: "state_of (scope_at (ho_heap ho) p) = SlReady" "state_of (scope_at (ho_heap ho) w) = SlReady"
    and at: "attach_child p w (ho_heap ho) = Ok g" and ep: "mg_project (ho_manager ho) = ep"
  shows "ho_manager ho' = (ho_manager ho)\<lparr>mg_project := Some p, mg_workspace := Some w\<rparr>"
    and "state_of (scope_at (ho_heap ho') p) = SlActive" "state_of (scope_at (ho_heap ho') w) = SlActive"
    and "ep = Some q \<Longrightarrow> closed_at ho' q" "res \<noteq> Done (Err e)"
proof -
  let ?a = "mg_application (ho_manager ho)"
  from t obtain h1 h2 ho1 where c: "mark_active p g = Ok h1" "mark_active w h1 = Ok h2"
    and ho1: "ho1 = ho\<lparr>ho_manager := (ho_manager ho)\<lparr>mg_project := Some p, mg_workspace := Some w\<rparr>,
       ho_heap := quiesce_previous ep (replace_child ?a ep p h2)\<rparr>"
    and d0: "and_then (dispose_previous rt ep ho1) (\<lambda>ho' dispose. Some (ho', Done (Ok
       \<lparr>tr_project = identity_at ho' p, tr_workspace = identity_at ho' w, tr_previous_project = identities ho' ep,
        tr_previous_workspace = identities ho' ew, tr_previous_dispose = dispose\<rparr>))) = Some (ho', res)"
    by (rule complete_tree_cases)
  obtain r where d: "dispose_previous rt ep ho1 = Some (ho', r)" and res: "res \<noteq> Done (Err e)" for e
    using d0 by (auto simp: and_then_Some)
  note T = tree_commit_good [OF inv pw ready at c ep ho1]
  have E: "child_edges (ho_heap ho1) \<subseteq> insert (?a, p) (insert (p, w) (child_edges (ho_heap ho)))"
    using replace_child_edges(2) [of ?a ep p h2] attach_child_Ok(2) [OF at] mark_active_Ok(2) [OF c(1)] mark_active_Ok(2) [OF c(2)]
    by (auto simp: ho1 quiesce_previous_facts(2))
  have valid: "set_option ep \<subseteq> {..< length (hp_scopes (ho_heap ho1))}"
    using current_valid [OF inv, of ProjectSlot] ep T(3) by simp
  have rs: "p \<in> ready_set (ho_heap ho)" "w \<in> ready_set (ho_heap ho)" using ready pw by (simp_all add: ready_set_def)
  note keep = dispose_previous_keeps [OF d T(1) valid] and far = previous_apart_tree [OF inv rs pw(1) _ E]
  show "ho_manager ho' = (ho_manager ho)\<lparr>mg_project := Some p, mg_workspace := Some w\<rparr>"
    using dispose_previous_good(2) [OF d] by (simp add: ho1)
  have "state_of (scope_at (ho_heap ho') p) = state_of (scope_at (ho_heap ho1) p)"
    by (rule keep) (use far(1) ep pw T(3) in auto)
  with T(4) show "state_of (scope_at (ho_heap ho') p) = SlActive" by simp
  have "state_of (scope_at (ho_heap ho') w) = state_of (scope_at (ho_heap ho1) w)"
    by (rule keep) (use far(2) ep pw T(3) in auto)
  with T(5) show "state_of (scope_at (ho_heap ho') w) = SlActive" by simp
  show "closed_at ho' q" if "ep = Some q"
    using dispose_previous_closes [OF d [unfolded that] T(1)] valid that by simp
  show "res \<noteq> Done (Err e)" by (rule res)
qed

lemma reject_tree_outcome:
  assumes "reject_tree rt ep ap ew aw p w reason ho = Some (ho', res)"
    and "\<And>ho1 r. host_dispose rt w ho = Some (ho1, r) \<Longrightarrow> ext_host_inv ho1 \<and> closed_at ho1 w \<and>
       p < length (hp_scopes (ho_heap ho1)) \<and> w < length (hp_scopes (ho_heap ho1))"
  shows "ho_manager ho' = ho_manager ho" "closed_at ho' w" "res \<noteq> Done (Ok r)" "res = Done (Err e) \<Longrightarrow> closed_at ho' p"
proof -
  show "ho_manager ho' = ho_manager ho" by (rule reject_tree_good(2) [OF assms(1)])
  show "res \<noteq> Done (Ok r)" using assms(1) by (auto simp: reject_tree_def and_then_Some)
  from assms(1) obtain ho1 r1 where d: "host_dispose rt w ho = Some (ho1, r1)"
    and rest: "ho' = ho1 \<or> (\<exists>r2. host_dispose rt p ho1 = Some (ho', r2))"
    by (auto simp: reject_tree_def and_then_Some)
  note 1 = assms(2) [OF d]
  from rest show "closed_at ho' w"
  proof
    assume "\<exists>r2. host_dispose rt p ho1 = Some (ho', r2)"
    then have "good_step ho1 ho'" using host_dispose_good(1) by blast
    with 1 have "host_moves ho1 ho'" by (simp add: good_step_def)
    with 1 show ?thesis using closed_stays by blast
  qed (use 1 in simp)
  show "closed_at ho' p" if "res = Done (Err e)"
  proof -
    have "\<exists>r2. host_dispose rt p ho1 = Some (ho', r2)"
      using assms(1) d that by (auto simp: reject_tree_def and_then_Some)
    with 1 show ?thesis using host_dispose_closes by blast
  qed
qed

lemma publish_tree_rejected:
  assumes t: "publish_project_tree rt ep p ew w ho = Some (ho', res)"
    and inv: "ext_host_inv ho" and len: "p < length (hp_scopes (ho_heap ho))" "w < length (hp_scopes (ho_heap ho))"
    and no: "\<not> (state_of (scope_at (ho_heap ho) p) = SlReady \<and> state_of (scope_at (ho_heap ho) w) = SlReady \<and>
      si_parent_id (identity_at ho w) = Some (si_id (identity_at ho p)) \<and>
      mg_project (ho_manager ho) = ep \<and> mg_workspace (ho_manager ho) = ew)"
  shows "ho_manager ho' = ho_manager ho \<and> closed_at ho' w \<and> res \<noteq> Done (Ok r) \<and> (res = Done (Err e) \<longrightarrow> closed_at ho' p)"
  using t
proof (cases rule: tree_cases)
  case (rejected ap aw reason)
  have w: "ext_host_inv ho1 \<and> closed_at ho1 w \<and> p < length (hp_scopes (ho_heap ho1)) \<and> w < length (hp_scopes (ho_heap ho1))"
    if d: "host_dispose rt w ho = Some (ho1, r)" for ho1 r
    using host_dispose_good [OF d] host_dispose_closes [OF d inv len(2)] inv len by (simp add: good_step_def)
  from reject_tree_outcome [OF rejected(1) w] show ?thesis by simp
next
  case (detached ap aw reason g)
  have "length (hp_scopes g) = length (hp_scopes (ho_heap ho))"
    using attach_child_Ok(1) [OF detached(5)] by (simp add: heap_evolves_def)
  moreover have "scope_ok (scope_at g w)"
    using attach_child_Ok(1) [OF detached(5)] host_inv_ok [OF inv] len(2) by (simp add: heap_evolves_def)
  ultimately have w: "ext_host_inv ho1 \<and> closed_at ho1 w \<and> p < length (hp_scopes (ho_heap ho1)) \<and> w < length (hp_scopes (ho_heap ho1))"
    if d: "host_dispose rt w (ho\<lparr>ho_heap := g\<rparr>) = Some (ho1, r)" for ho1 r
    using detached_good [OF inv detached(2) len detached(3-5) d] host_dispose_good(3) [OF d] len
      dispose_scope_closes [where h = g and a = w] d by (auto simp: host_dispose_def closed_at_def)
  from reject_tree_outcome [OF detached(1) w] show ?thesis by simp
next
  case (committed g)
  with no show ?thesis by simp
qed

section \<open>A clean disposal\<close>

lemma report_stays:
  assumes "heap_step held h h'" "c < length (hp_scopes h)" "scope_ok (scope_at h c)" "sn_report (scope_at h c) = Some r"
  shows "sn_report (scope_at h' c) = Some r"
  using assms by (simp add: heap_step_def scope_evolves_def)

text \<open>Unless a deadline expired, every child has its report, and it is among those collected.\<close>

lemma dispose_children_reports:
  fixes h h' :: "('x, 'h, 'w) heap"
  assumes "dispose_children rec rt dl st cs h = Some (h', Done (rs, False))"
    and rec: "\<And>dl c g g' r. rec dl c g = Some (g', Done r) \<Longrightarrow> c < length (hp_scopes g) \<Longrightarrow> sn_report (scope_at g' c) = Some r"
    and step: "\<And>dl c g g' res. rec dl c g = Some (g', res) \<Longrightarrow> heap_step {} g g'"
    and "\<forall>b < length (hp_scopes h). scope_ok (scope_at h b)" "set cs \<subseteq> {..< length (hp_scopes h)}"
  shows "\<forall>c \<in> set cs. \<exists>r \<in> set rs. sn_report (scope_at h' c) = Some r"
  using assms(1,4,5)
proof (induction cs arbitrary: h rs)
  case (Cons c cs)
  obtain now h1 where n: "hp_now rt h = (now, h1)" by (cases "hp_now rt h")
  have s1: "heap_step {} h h1" by (rule heap_step_same_scopes [OF hp_now_scopes [OF n]])
  have "\<exists>h2 r rs'. rec (dl\<lparr>dl_scope := dl_scope dl - (now - st)\<rparr>) c h1 = Some (h2, Done r) \<and>
      dispose_children rec rt dl st cs h2 = Some (h', Done (rs', False)) \<and> rs = r # rs'"
    using Cons.prems(1) n
    by (auto simp: Let_def split: if_splits option.splits outcome.splits nat.splits)
  then obtain h2 r rs' where r: "rec (dl\<lparr>dl_scope := dl_scope dl - (now - st)\<rparr>) c h1 = Some (h2, Done r)"
    and rest: "dispose_children rec rt dl st cs h2 = Some (h', Done (rs', False))" and rs: "rs = r # rs'" by blast
  have s2: "heap_step {} h h2" using s1 step [OF r] heap_step_trans by blast
  have len: "length (hp_scopes h2) = length (hp_scopes h)" using s2 by (rule heap_step_length)
  have ok2: "\<forall>b < length (hp_scopes h2). scope_ok (scope_at h2 b)" using s2 Cons.prems(2) by (simp add: heap_step_def)
  have c: "c < length (hp_scopes h2)" using Cons.prems(3) len by simp
  have "sn_report (scope_at h2 c) = Some r" by (rule rec [OF r]) (use c heap_step_length [OF s1] len in simp)
  moreover have "heap_step {} h2 h'"
    by (rule dispose_children_step [where P = "\<lambda>_. True", OF _ _ rest]) (use step in auto)
  ultimately have "sn_report (scope_at h' c) = Some r" using report_stays c ok2 by blast
  with Cons.IH [OF rest ok2] Cons.prems(3) len rs show ?case by auto
qed simp

lemma dispose_scope_clean:
  fixes h h' :: "('x, 'h, 'w) heap"
  assumes d: "dispose_scope rt dl a h = Some (h', Done report)" and new: "sn_report (scope_at h a) = None"
    and clean: "sdr_outcome report = Disposed"
    and ok: "\<forall>b < length (hp_scopes h). scope_ok (scope_at h b)" and a: "a < length (hp_scopes h)"
    and kids: "set (sn_children (scope_at h a)) \<subseteq> {..< length (hp_scopes h)}"
    and c: "c \<in> set (sn_children (scope_at h a))"
  shows "state_of (scope_at h' c) = SlDisposed"
proof -
  have step: "heap_step {} h h'" by (rule dispose_scope_step [OF d])
  have rec_step: "heap_step {} g g'" if "quiesce_and_dispose rt fuel held dl' b g = Some (g', res)"
    for fuel held dl' b res and g g' :: "('x, 'h, 'w) heap"
    using quiesce_step [OF that] heap_step_mono by blast
  have rec_report: "sn_report (scope_at g' b) = Some r"
    if "quiesce_and_dispose rt fuel held dl' b g = Some (g', Done r)" "b < length (hp_scopes g)"
    for fuel held dl' b r and g g' :: "('x, 'h, 'w) heap"
    using quiesce_step [OF that(1)] that(2) by blast
  from d [unfolded dispose_scope_def] show ?thesis
  proof (cases rule: quiesce_cases)
    case (complete started h1 h2 timed h4 crs ct ps cx prs r)
    let ?h3 = "enter_disposing a timed h2"
    have na: "a \<notin> {}" by simp
    note b = begin_phase [OF na complete(2-4)]
    have s3: "heap_step {} h ?h3"
      using b(1) heap_step_enter_disposing [OF na b(2)] heap_step_trans by blast
    have "heap_step {a} ?h3 h4"
      by (rule dispose_children_step [where P = "\<lambda>_. True", OF _ _ complete(5)]) (use quiesce_step in fastforce)+
    note p = child_phase [OF na complete(2-4) this]
    note q = finish_step [OF na complete(6) p(2) complete(7)]
    obtain lt where f: "sdr_child_reports r = crs" "sdr_quiesce_timed_out r = (timed \<or> ct)"
      "sdr_outcome r = Disposed \<longleftrightarrow> \<not> (timed \<or> ct) \<and> (\<forall>c\<in>set crs. sdr_outcome c = Disposed) \<and>
         (\<forall>p\<in>set prs. edr_outcome (snd p) = Disposed)"
      by (rule finish_dispose_upd [OF complete(7)]) blast
    have fine: "\<not> ct" "\<forall>c\<in>set crs. sdr_outcome c = Disposed" using f(3) clean complete(8) by auto
    have same: "sn_children (scope_at ?h3 a) = sn_children (scope_at h a)" using s3 by (simp add: heap_step_def)
    have "\<forall>c \<in> set (rev (sn_children (scope_at ?h3 a))). \<exists>r \<in> set crs. sn_report (scope_at h4 c) = Some r"
    proof (rule dispose_children_reports [OF _ rec_report rec_step])
      show "dispose_children (quiesce_and_dispose rt (length (hp_scopes h)) [a]) rt dl started
          (rev (sn_children (scope_at ?h3 a))) ?h3 = Some (h4, Done (crs, False))" using complete(5) fine(1) by simp
      show "\<forall>b < length (hp_scopes ?h3). scope_ok (scope_at ?h3 b)" using s3 ok by (simp add: heap_step_def)
      show "set (rev (sn_children (scope_at ?h3 a))) \<subseteq> {..< length (hp_scopes ?h3)}"
        using kids heap_step_length [OF s3] same by simp
    qed
    then obtain rc where rc: "rc \<in> set crs" "sn_report (scope_at h4 c) = Some rc" using c same by auto
    have cl: "c < length (hp_scopes h)" using c kids by blast
    have ok4: "scope_ok (scope_at h4 c)" "c < length (hp_scopes h4)"
      using p(1) ok cl by (simp_all add: heap_step_def)
    have "sn_report (scope_at h' c) = Some rc" by (rule report_stays [OF q(1) ok4(2,1) rc(2)])
    moreover have "scope_ok (scope_at h' c)" using step ok cl by (simp add: heap_step_def)
    ultimately show ?thesis using fine(2) rc(1) by (auto simp: scope_ok_def report_ok_def)
  qed (use new in simp_all)
qed

section \<open>What a disposed scope leaves\<close>

lemma leftover_accounted:
  assumes ok: "scope_ok s" and r: "sn_report s = Some r" and own: "slot_owner (sn_registry s) k cap = Some i"
  shows "\<exists>p er. p \<in> set (sdr_plugin_reports r) \<and> er \<in> set (edr_records (snd p)) \<and> er_status er = EffFailed \<and>
    edr_outcome (snd p) = Failed"
proof -
  have acc: "accounted (sn_registry s) (disposers (sn_plugins s))" and rok: "report_ok s r"
    and st: "\<forall>p\<in>set (sn_plugins s). stack_ok (apl_instance p) (apl_effects p)"
    using ok r by (auto simp: scope_ok_def)
  from acc own obtain d where "d \<in> disposers (sn_plugins s)" and key: "pending_key d = Some (k, cap, i)"
    unfolding accounted_def by blast
  then obtain p e where p: "p \<in> set (sn_plugins s)" and e: "e \<in> set (stk_effects (apl_effects p))" "pe_disposer e = d"
    by (auto simp: disposers_def)
  obtain rep where rep: "stk_report (apl_effects p) = Some rep" using rok p by (auto simp: report_ok_def)
  have recs: "edr_records rep = map pe_record (stk_effects (apl_effects p))" "edr_outcome rep = effects_outcome (edr_records rep)"
    and set: "settled (pe_record e)" "er_status (pe_record e) = EffDisposed \<longrightarrow> pending_key (pe_disposer e) = None"
    using st p e(1) rep by (auto simp: stack_ok_def)
  have fail: "er_status (pe_record e) = EffFailed" using set key e(2) by (auto simp: settled_def)
  have mem: "pe_record e \<in> set (edr_records rep)" using recs(1) e(1) by simp
  have "edr_outcome rep = Failed"
    using recs(2) mem fail by (simp add: effects_outcome_def list_all_iff) (metis effect_status.distinct(11))
  moreover have "(apl_instance p, rep) \<in> set (sdr_plugin_reports r)"
    using rok p rep by (auto simp: report_ok_def plugin_reports_of_def intro!: image_eqI [where x = p])
  ultimately show ?thesis using mem fail by (intro exI [of _ "(apl_instance p, rep)"] exI [of _ "pe_record e"]) simp
qed

lemma disposed_registry_empty:
  assumes "scope_ok s" "sn_report s = Some r" "sdr_outcome r = Disposed"
  shows "slot_owner (sn_registry s) k cap = None"
proof (rule ccontr)
  assume "slot_owner (sn_registry s) k cap \<noteq> None"
  then obtain i where "slot_owner (sn_registry s) k cap = Some i" by blast
  from leftover_accounted [OF assms(1,2) this] obtain p
    where p: "p \<in> set (sdr_plugin_reports r)" "edr_outcome (snd p) = Failed" by blast
  have "\<forall>p\<in>set (sdr_plugin_reports r). edr_outcome (snd p) = Disposed"
    using assms unfolding scope_ok_def report_ok_def by blast
  with p show False by simp
qed

section \<open>Slots as compare-and-swap pointers\<close>

text \<open>A publication of the project slot that succeeded, as a partial function of the host.\<close>

definition project_cas ::
  "('x, 'w) runtime \<Rightarrow> ('x, 'h, 'w) host \<Rightarrow> nat option \<Rightarrow> nat \<Rightarrow> ('x, 'h, 'w) host option" where
  "project_cas rt ho expected candidate =
     (if candidate < length (hp_scopes (ho_heap ho))
      then (case publish_project rt expected candidate ho of Some (ho', Done (Inr _)) \<Rightarrow> Some ho' | _ \<Rightarrow> None)
      else None)"

lemma publish_project_commits:
  assumes "publish_project rt e c ho = Some (ho', res)" "ext_host_inv ho" "c < length (hp_scopes (ho_heap ho))"
    and "state_of (scope_at (ho_heap ho) c) = SlReady" "mg_workspace (ho_manager ho) = None" "mg_project (ho_manager ho) = e"
  shows "ho_manager ho' = (ho_manager ho)\<lparr>mg_project := Some c\<rparr>" "state_of (scope_at (ho_heap ho') c) = SlActive"
    and "state_of (scope_at (ho_heap ho') (mg_application (ho_manager ho))) =
         state_of (scope_at (ho_heap ho) (mg_application (ho_manager ho)))"
    and "e = Some p \<Longrightarrow> closed_at ho' p" "res \<noteq> Done (Err x)"
proof -
  have par: "publish_parent (ho_manager ho) ProjectSlot (mg_application (ho_manager ho))"
    using assms(5) by (simp add: publish_parent_def)
  from assms(1,5) have p: "publish_with rt ProjectSlot (replace_child (mg_application (ho_manager ho))) e c ho = Some (ho', res)"
    by (simp add: publish_project_def)
  note C = publish_with_committed [OF p assms(2,3) par assms(4)]
  show "ho_manager ho' = (ho_manager ho)\<lparr>mg_project := Some c\<rparr>" "state_of (scope_at (ho_heap ho') c) = SlActive"
    "state_of (scope_at (ho_heap ho') (mg_application (ho_manager ho))) =
       state_of (scope_at (ho_heap ho) (mg_application (ho_manager ho)))"
    "e = Some p \<Longrightarrow> closed_at ho' p" "res \<noteq> Done (Err x)" for p x
    using C assms(6) by simp_all
qed

lemma publish_project_refuses:
  assumes "publish_project rt e c ho = Some (ho', res)" "ext_host_inv ho" "c < length (hp_scopes (ho_heap ho))"
    and "\<not> (state_of (scope_at (ho_heap ho) c) = SlReady \<and> mg_workspace (ho_manager ho) = None \<and> mg_project (ho_manager ho) = e)"
  shows "ho_manager ho' = ho_manager ho" "closed_at ho' c" "res \<noteq> Done (Ok r)"
proof -
  have "ho_manager ho' = ho_manager ho \<and> closed_at ho' c \<and> res \<noteq> Done (Ok r)"
  proof (cases "mg_workspace (ho_manager ho)")
    case None
    then have p: "publish_with rt ProjectSlot (replace_child (mg_application (ho_manager ho))) e c ho = Some (ho', res)"
      using assms(1) by (simp add: publish_project_def)
    from publish_with_rejected [OF p assms(2,3)] None assms(4) show ?thesis by simp
  next
    case (Some w)
    then have "reject_candidate rt e (mg_project (ho_manager ho)) c ''workspace_tree_publication_required'' ho = Some (ho', res)"
      using assms(1) by (simp add: publish_project_def)
    from reject_candidate_outcome [OF this assms(2,3)] show ?thesis by blast
  qed
  then show "ho_manager ho' = ho_manager ho" "closed_at ho' c" "res \<noteq> Done (Ok r)" by simp_all
qed

lemma project_cas_Some:
  assumes "ext_host_inv ho" "project_cas rt ho e c = Some ho'"
  shows "mg_project (ho_manager ho) = e" "mg_project (ho_manager ho') = Some c" "Some c \<noteq> e" "ext_host_inv ho'"
proof -
  obtain r where c: "c < length (hp_scopes (ho_heap ho))" and p: "publish_project rt e c ho = Some (ho', Done (Ok r))"
    using assms(2) by (auto simp: project_cas_def split: if_splits option.splits outcome.splits sum.splits)
  have ok: "state_of (scope_at (ho_heap ho) c) = SlReady \<and> mg_workspace (ho_manager ho) = None \<and> mg_project (ho_manager ho) = e"
    using publish_project_refuses(3) [OF p assms(1) c, of r] by blast
  then show "mg_project (ho_manager ho) = e" by blast
  show "mg_project (ho_manager ho') = Some c" using publish_project_commits(1) [OF p assms(1) c] ok by simp
  show "Some c \<noteq> e" using slots_not_ready(2) [OF assms(1), of c] ok by (auto simp: slot_set_def)
  show "ext_host_inv ho'" using publish_project_good [OF p assms(1) c] assms(1) by (simp add: good_step_def)
qed

interpretation project_slot: moving_cas "\<lambda>ho. mg_project (ho_manager ho)" Some "project_cas rt" ext_host_inv for rt
  by unfold_locales (auto dest: project_cas_Some)

end
