(* ===== verification/Lease_Protocol.thy ===== *)
theory Lease_Protocol
  imports Scope_Registry
begin

text \<open>
  The leases of \<open>RegistryHub\<close> at the granularity of their atomic instructions: any number of threads run
  \<open>lease\<close> and drop what they obtained, while the scope closes routing and one waiter runs
  \<open>wait_for_idle\<close>. A step of the relation is one atomic instruction (\<open>load\<close>, \<open>store\<close>, \<open>fetch_add\<close>,
  \<open>fetch_sub\<close>) or one call of the notifier; instructions of different threads interleave freely.
  \<open>tokio::sync::Notify\<close> is an epoch counter that \<open>notify_waiters\<close> advances: a \<open>Notified\<close> future
  completes once the epoch has moved past the one it was created in, which is its documented
  behaviour. The interleaving is sequentially consistent. Routing is opened once, by \<open>mark_active\<close>
  before the scope is published, and never again, so no step opens it.
\<close>

datatype lease_pc =
  Idle          \<comment> \<open>outside \<open>lease\<close>, no lease held\<close>
| Checked       \<comment> \<open>the first load saw routing open\<close>
| Counted       \<comment> \<open>after \<open>fetch_add\<close>\<close>
| Withdrawing   \<comment> \<open>the second load saw routing closed\<close>
| Holding       \<comment> \<open>\<open>lease\<close> returned a \<open>RegistryLease\<close>\<close>
| Notifying     \<comment> \<open>\<open>fetch_sub\<close> returned 1, \<open>notify_waiters\<close> is next\<close>

datatype waiter_pc =
  Looping               \<comment> \<open>at the head of the loop\<close>
| FirstBusy             \<comment> \<open>the first load was not zero\<close>
| Subscribed nat        \<comment> \<open>the \<open>Notified\<close> future exists, created in this epoch\<close>
| Awaiting nat          \<comment> \<open>the second load was not zero\<close>
| Returned              \<comment> \<open>\<open>wait_for_idle\<close> returned\<close>

record lease_state =
  lp_routing :: bool
  lp_leases :: nat
  lp_epoch :: nat
  lp_threads :: "lease_pc list"
  lp_waiter :: waiter_pc

definition lease_init :: "nat \<Rightarrow> lease_state" where
  "lease_init n =
     \<lparr>lp_routing = True, lp_leases = 0, lp_epoch = 0, lp_threads = replicate n Idle, lp_waiter = Looping\<rparr>"

text \<open>One thread moves to \<open>q\<close>; it is at \<open>p\<close>.\<close>

definition moves :: "lease_state \<Rightarrow> nat \<Rightarrow> lease_pc \<Rightarrow> lease_state" where
  "moves s i q = s\<lparr>lp_threads := (lp_threads s)[i := q]\<rparr>"

definition pc_at :: "lease_state \<Rightarrow> nat \<Rightarrow> lease_pc \<Rightarrow> bool" where
  "pc_at s i p \<longleftrightarrow> i < length (lp_threads s) \<and> lp_threads s ! i = p"

text \<open>\<open>fetch_sub(1)\<close>, followed by a notification when it returned 1.\<close>

definition fetch_sub :: "lease_state \<Rightarrow> nat \<Rightarrow> lease_state" where
  "fetch_sub s i =
     (moves s i (if lp_leases s = 1 then Notifying else Idle))\<lparr>lp_leases := lp_leases s - 1\<rparr>"

inductive lstep :: "lease_state \<Rightarrow> lease_state \<Rightarrow> bool" where
  first_open: "pc_at s i Idle \<Longrightarrow> lp_routing s \<Longrightarrow> lstep s (moves s i Checked)"
| first_closed: "pc_at s i Idle \<Longrightarrow> \<not> lp_routing s \<Longrightarrow> lstep s s"
| add: "pc_at s i Checked \<Longrightarrow> lstep s ((moves s i Counted)\<lparr>lp_leases := lp_leases s + 1\<rparr>)"
| second_open: "pc_at s i Counted \<Longrightarrow> lp_routing s \<Longrightarrow> lstep s (moves s i Holding)"
| second_closed: "pc_at s i Counted \<Longrightarrow> \<not> lp_routing s \<Longrightarrow> lstep s (moves s i Withdrawing)"
| withdraw: "pc_at s i Withdrawing \<Longrightarrow> lstep s (fetch_sub s i)"
| drop: "pc_at s i Holding \<Longrightarrow> lstep s (fetch_sub s i)"
| notify: "pc_at s i Notifying \<Longrightarrow> lstep s ((moves s i Idle)\<lparr>lp_epoch := lp_epoch s + 1\<rparr>)"
| close: "lstep s (s\<lparr>lp_routing := False\<rparr>)"
| close_notify: "\<not> lp_routing s \<Longrightarrow> lstep s (s\<lparr>lp_epoch := lp_epoch s + 1\<rparr>)"
| wait_first: "lp_waiter s = Looping \<Longrightarrow>
    lstep s (s\<lparr>lp_waiter := if lp_leases s = 0 then Returned else FirstBusy\<rparr>)"
| wait_subscribe: "lp_waiter s = FirstBusy \<Longrightarrow> lstep s (s\<lparr>lp_waiter := Subscribed (lp_epoch s)\<rparr>)"
| wait_second: "lp_waiter s = Subscribed e \<Longrightarrow>
    lstep s (s\<lparr>lp_waiter := if lp_leases s = 0 then Returned else Awaiting e\<rparr>)"
| wait_woken: "lp_waiter s = Awaiting e \<Longrightarrow> e < lp_epoch s \<Longrightarrow> lstep s (s\<lparr>lp_waiter := Looping\<rparr>)"

abbreviation lsteps :: "lease_state \<Rightarrow> lease_state \<Rightarrow> bool" where
  "lsteps \<equiv> lstep\<^sup>*\<^sup>*"

section \<open>The invariant\<close>

text \<open>A thread is counted while it is between its \<open>fetch_add\<close> and its \<open>fetch_sub\<close>.\<close>

definition counted :: "lease_pc \<Rightarrow> bool" where
  "counted p \<longleftrightarrow> p \<in> {Counted, Withdrawing, Holding}"

definition notifying :: "lease_state \<Rightarrow> bool" where
  "notifying s \<longleftrightarrow> Notifying \<in> set (lp_threads s)"

definition lease_inv :: "lease_state \<Rightarrow> bool" where
  "lease_inv s \<longleftrightarrow>
     lp_leases s = length (filter counted (lp_threads s)) \<and>
     (\<forall>e. lp_waiter s \<in> {Subscribed e, Awaiting e} \<longrightarrow> e \<le> lp_epoch s) \<and>
     (lp_waiter s = Awaiting (lp_epoch s) \<longrightarrow> 0 < lp_leases s \<or> notifying s)"

lemma length_filter_update:
  "i < length xs \<Longrightarrow>
     length (filter P (xs[i := y])) + (if P (xs ! i) then 1 else 0) =
     length (filter P xs) + (if P y then 1 else 0)"
proof (induction xs arbitrary: i)
  case (Cons x xs)
  show ?case
  proof (cases i)
    case (Suc j)
    with Cons show ?thesis using Cons.IH [of j] by (auto split: if_splits)
  qed simp
qed simp

lemma count_moves:
  assumes "pc_at s i p"
  shows "length (filter counted (lp_threads (moves s i q))) + (if counted p then 1 else 0) =
         length (filter counted (lp_threads s)) + (if counted q then 1 else 0)"
  using assms length_filter_update [of i "lp_threads s" counted q] by (simp add: pc_at_def moves_def)

lemma notifying_moves: "pc_at s i p \<Longrightarrow> p \<noteq> Notifying \<Longrightarrow> notifying s \<Longrightarrow> notifying (moves s i q)"
  by (auto simp: notifying_def pc_at_def moves_def in_set_conv_nth) (metis length_list_update nth_list_update_neq)

lemma notifying_target: "pc_at s i p \<Longrightarrow> notifying (moves s i Notifying)"
  by (simp add: notifying_def pc_at_def moves_def set_update_memI)

lemma moves_sel [simp]:
  "lp_routing (moves s i q) = lp_routing s" "lp_leases (moves s i q) = lp_leases s"
  "lp_epoch (moves s i q) = lp_epoch s" "lp_waiter (moves s i q) = lp_waiter s"
  by (simp_all add: moves_def)

lemma notifying_update [simp]:
  "notifying (s\<lparr>lp_leases := a\<rparr>) = notifying s" "notifying (s\<lparr>lp_epoch := b\<rparr>) = notifying s"
  "notifying (s\<lparr>lp_routing := c\<rparr>) = notifying s" "notifying (s\<lparr>lp_waiter := d\<rparr>) = notifying s"
  by (simp_all add: notifying_def)

lemma counted_simps [simp]:
  "counted Counted" "counted Withdrawing" "counted Holding"
  "\<not> counted Idle" "\<not> counted Checked" "\<not> counted Notifying"
  by (simp_all add: counted_def)

text \<open>A step of a thread that leaves the counter alone.\<close>

lemma lease_inv_moves:
  assumes "lease_inv s" "pc_at s i p" "counted p = counted q" "p \<noteq> Notifying"
  shows "lease_inv (moves s i q)"
  using assms count_moves [OF assms(2), of q] notifying_moves [OF assms(2,4)]
  by (auto simp: lease_inv_def)

lemma lease_inv_fetch_sub:
  assumes inv: "lease_inv s" and "pc_at s i p" and c: "counted p"
  shows "lease_inv (fetch_sub s i)"
proof -
  let ?q = "if lp_leases s = 1 then Notifying else Idle"
  have t: "lp_leases s = 1 \<Longrightarrow> notifying (moves s i ?q)"
    using notifying_target [OF assms(2)] by simp
  have k: "length (filter counted (lp_threads (moves s i ?q))) + 1 = lp_leases s"
    using count_moves [OF assms(2), of ?q] c inv by (auto simp: lease_inv_def)
  then have "0 < lp_leases s - 1 \<or> notifying (moves s i ?q)"
    using t by linarith
  moreover have "lp_leases s - 1 = length (filter counted (lp_threads (moves s i ?q)))" using k by simp
  ultimately show ?thesis using inv by (auto simp: lease_inv_def fetch_sub_def simp del: length_greater_0_conv)
qed

lemma lease_inv_step: "lstep s t \<Longrightarrow> lease_inv s \<Longrightarrow> lease_inv t"
proof (induction rule: lstep.induct)
  case (add s i)
  then show ?case
    using count_moves [OF add(1), of Counted] by (auto simp: lease_inv_def)
next
  case (notify s i)
  then show ?case
    using count_moves [OF notify(1), of Idle] by (auto simp: lease_inv_def)
next
  case (withdraw s i)
  then show ?case by (auto intro: lease_inv_fetch_sub)
next
  case (drop s i)
  then show ?case by (auto intro: lease_inv_fetch_sub)
next
  case (first_open s i)
  then show ?case by (auto intro: lease_inv_moves)
next
  case (second_open s i)
  then show ?case by (auto intro: lease_inv_moves)
next
  case (second_closed s i)
  then show ?case by (auto intro: lease_inv_moves)
qed (auto simp: lease_inv_def)

lemma lease_inv_init: "lease_inv (lease_init n)"
  by (simp add: lease_inv_def lease_init_def)

lemma lease_inv_reachable: "lsteps (lease_init n) s \<Longrightarrow> lease_inv s"
  by (induction rule: rtranclp_induct) (auto simp: lease_inv_init intro: lease_inv_step)

section \<open>Closed and drained\<close>

definition drained :: "lease_state \<Rightarrow> bool" where
  "drained s \<longleftrightarrow> \<not> lp_routing s \<and> Holding \<notin> set (lp_threads s)"

lemma not_in_set_update: "x \<notin> set xs \<Longrightarrow> x \<noteq> y \<Longrightarrow> x \<notin> set (xs[i := y])"
  using set_update_subset_insert [of xs i y] by auto

lemma drained_step: "lstep s t \<Longrightarrow> drained s \<Longrightarrow> drained t"
  by (induction rule: lstep.induct)
    (auto simp: drained_def moves_def fetch_sub_def pc_at_def not_in_set_update)

lemma drained_steps: "lsteps s t \<Longrightarrow> drained s \<Longrightarrow> drained t"
  by (induction rule: rtranclp_induct) (auto intro: drained_step)

lemma no_holder_when_zero:
  assumes "lease_inv s" "lp_leases s = 0"
  shows "Holding \<notin> set (lp_threads s)"
  using assms by (auto simp: lease_inv_def filter_empty_conv dest: bspec [of _ _ Holding])

lemma zero_is_drained: "lease_inv s \<Longrightarrow> \<not> lp_routing s \<Longrightarrow> lp_leases s = 0 \<Longrightarrow> drained s"
  by (simp add: drained_def no_holder_when_zero)

lemma wait_returns_drained:
  assumes "lstep s t" "lp_waiter s \<noteq> Returned" "lp_waiter t = Returned" "lease_inv s" "\<not> lp_routing s"
  shows "drained t"
  using assms(1)
proof cases
  case wait_first
  with assms have "lp_leases s = 0" by (auto split: if_splits)
  with assms have "drained s" by (simp add: zero_is_drained)
  with assms(1) show ?thesis by (rule drained_step)
next
  case (wait_second e)
  with assms have "lp_leases s = 0" by (auto split: if_splits)
  with assms have "drained s" by (simp add: zero_is_drained)
  with assms(1) show ?thesis by (rule drained_step)
qed (use assms in \<open>auto simp: fetch_sub_def\<close>)

section \<open>The uninterrupted lease\<close>

text \<open>
  Run without interruption, the instructions of \<open>lease\<close> are the function \<open>lease\<close> of \<open>Scope_Registry\<close>.
\<close>

definition as_lease_state :: "'h registry \<Rightarrow> nat \<Rightarrow> lease_pc list \<Rightarrow> lease_state" where
  "as_lease_state rg epoch pcs =
     \<lparr>lp_routing = rg_routing rg, lp_leases = rg_leases rg, lp_epoch = epoch, lp_threads = pcs,
      lp_waiter = Looping\<rparr>"

lemma lease_uninterrupted:
  assumes "i < length pcs" "pcs ! i = Idle" "lease rg = Ok rg'"
  shows "lsteps (as_lease_state rg e pcs) (as_lease_state rg' e (pcs[i := Holding]))"
proof -
  let ?s = "as_lease_state rg e pcs"
  have r: "rg_routing rg" and rg': "rg' = rg\<lparr>rg_leases := rg_leases rg + 1\<rparr>"
    using assms(3) by (auto simp: lease_def split: if_splits)
  have 1: "lstep ?s (moves ?s i Checked)"
    using assms r by (intro lstep.first_open) (simp_all add: pc_at_def as_lease_state_def)
  let ?t = "moves ?s i Checked"
  have 2: "lstep ?t ((moves ?t i Counted)\<lparr>lp_leases := lp_leases ?t + 1\<rparr>)"
    using assms by (intro lstep.add) (simp add: pc_at_def as_lease_state_def moves_def)
  let ?u = "(moves ?t i Counted)\<lparr>lp_leases := lp_leases ?t + 1\<rparr>"
  have 3: "lstep ?u (moves ?u i Holding)"
    using assms r by (intro lstep.second_open) (simp_all add: pc_at_def as_lease_state_def moves_def)
  have "moves ?u i Holding = as_lease_state rg' e (pcs[i := Holding])"
    by (simp add: moves_def as_lease_state_def rg')
  with 1 2 3 show ?thesis by (metis converse_rtranclp_into_rtranclp rtranclp.rtrancl_refl)
qed

end
