(* ===== verification/Scope_Properties.thy ===== *)
theory Scope_Properties
  imports Scope_Outcomes Lease_Protocol
begin

text \<open>
  The properties of \<^verbatim>\<open>lifecycle.rs\<close>: the hosts that any sequence of operations reaches, what publishing,
  building and disposing do, the order in which effects are undone, and the lease protocol. The
  witnesses use a host with an empty application scope and one project candidate.
\<close>

section \<open>A concrete host\<close>

text \<open>A runtime whose clock stands still and whose disposers succeed and are logged in the world.\<close>

definition demo_runtime :: "(nat, nat list) runtime" where
  "demo_runtime =
     \<lparr>rt_now = \<lambda>w. (0, w), rt_dispose = \<lambda>x d w. (Completed (Ok ()), w @ [x]), rt_drain = \<lambda>d c w. (Done False, c, w),
      rt_progress = \<lambda>c w. (c, w)\<rparr>"

lemma resolve_empty:
  assumes "validate_identity policy scope (map_option ap_scope parent) = Ok ()"
  shows "\<exists>plan. resolve_activation_plan scc_reference policy scope parent ([] :: nat plugin_descriptor list) = Ok plan \<and>
    ap_scope plan = scope \<and> ap_activation_order plan = []"
proof -
  have "graph_ok \<lparr>gr_nodes = [], gr_edges = []\<rparr>" "acyclic (edge_rel \<lparr>gr_nodes = [], gr_edges = []\<rparr>)"
    by (simp_all add: graph_ok_def edge_rel_def acyclic_def)
  then have "canonical_cycle scc_reference \<lparr>gr_nodes = [], gr_edges = []\<rparr> = None"
    using canonical_cycle_None_iff scc_reference_spec by blast
  moreover have "stable_kahn_order \<lparr>gr_nodes = [], gr_edges = []\<rparr> = Some []" by code_simp
  ultimately show ?thesis
    using assms by (simp add: resolve_activation_plan_def resolve_prepared_def prepare_def current_providers_def declarations_def bt_empty_def
        order_plan_def Let_def)
qed

lemma phase_one_parents:
  assumes "phase_one = Some policy"
  shows "bt_get (sp_rules policy) ''application'' = Some None" "bt_get (sp_rules policy) ''project'' = Some (Some ''application'')"
    "bt_get (sp_rules policy) ''workspace'' = Some (Some ''project'')"
proof -
  have r: "from_host_rules phase_one_rules = Ok policy" using assms by (auto simp: phase_one_def split: sum.splits)
  note g = from_host_rules_get [OF r, THEN conjunct2]
  show "bt_get (sp_rules policy) ''application'' = Some None" "bt_get (sp_rules policy) ''project'' = Some (Some ''application'')"
    "bt_get (sp_rules policy) ''workspace'' = Some (Some ''project'')"
    by (simp_all add: g phase_one_rules_def ScopeKindRule_root_def ScopeKindRule_child_def)
qed

text \<open>An empty host: nothing but the application scope.\<close>

definition empty_host :: "(nat, unit, nat list) host \<Rightarrow> bool" where
  "empty_host ho \<longleftrightarrow>
     new_with_host_capabilities scc_reference (0 :: nat) Legacy [] default_deadlines [] = Some (Ok ho)"

lemma empty_host_exists:
  obtains ho where "empty_host ho" "mg_project (ho_manager ho) = None" "mg_workspace (ho_manager ho) = None"
    "mg_application (ho_manager ho) = 0" "mg_next_generation (ho_manager ho) = 2" "length (hp_scopes (ho_heap ho)) = 1"
    "identity_at ho 0 = application_identity" "ap_scope (sn_plan (scope_at (ho_heap ho) 0)) = application_identity"
    "phase_one = Some (mg_policy (ho_manager ho))" "state_of (scope_at (ho_heap ho) 0) = SlActive"
proof -
  obtain policy where pol: "phase_one = Some policy" using phase_one_Some by blast
  have v: "validate_identity policy application_identity (map_option ap_scope None) = Ok ()"
    using phase_one_parents(1) [OF pol] by (simp add: validate_identity_def application_identity_def)
  from resolve_empty [OF this] obtain plan
    where plan: "resolve_activation_plan scc_reference policy application_identity None ([] :: nat plugin_descriptor list) = Ok plan"
      "ap_scope plan = application_identity" "ap_activation_order plan = []" by blast
  let ?s = "ScopeSnapshot_new_ready application_identity plan (RegistryHub_candidate application_identity)
      ScopedTaskTracker_new [] :: (nat, unit) scope_snapshot"
  let ?h = "\<lparr>hp_scopes = [?s], hp_log = [], hp_world = []\<rparr> :: (nat, unit, nat list) heap"
  have at: "sn_state (scope_at ?h 0) = as_u8 SlReady" by (simp add: scope_at_def ScopeSnapshot_new_ready_def)
  let ?h' = "upd 0 (\<lambda>s. s\<lparr>sn_state := as_u8 SlActive, sn_registry := open_routing (sn_registry s)\<rparr>) ?h"
  let ?ho = "\<lparr>ho_mode = Legacy, ho_manager = \<lparr>mg_policy = policy, mg_next_generation = 2, mg_application = 0,
    mg_project = None, mg_workspace = None\<rparr>, ho_deadlines = default_deadlines, ho_heap = ?h'\<rparr>"
  have "empty_host ?ho"
    unfolding empty_host_def new_with_host_capabilities_def host_capability_descriptor_def pol option.case
    using at by (simp add: plan Let_def alloc_def host_around_def pol mark_active_def)
  then show thesis
    by (rule that) (simp_all add: plan(2) pol scope_at_upd identity_at_def, simp_all add: scope_at_def ScopeSnapshot_new_ready_def plan(2))
qed

lemma empty_host_started: "empty_host ho \<Longrightarrow> started_by scc_reference rt (0 :: nat) ho"
  unfolding empty_host_def started_by_def by blast

text \<open>The same host with a project candidate, the snapshot at address 1.\<close>

definition candidate_host :: "(nat, unit, nat list) host \<Rightarrow> (nat, unit, nat list) host \<Rightarrow> bool" where
  "candidate_host ho ho' \<longleftrightarrow>
     empty_host ho \<and>
     build_project_candidate scc_reference demo_runtime ''p'' ([] :: (nat, nat, unit, nat list) internal_plugin list) ho =
       Some (ho', Done (Ok 1))"

text \<open>Building an empty candidate below any snapshot of the right kind succeeds.\<close>

lemma build_empty:
  fixes ho :: "(nat, unit, nat list) host"
  assumes pol: "phase_one = Some (mg_policy (ho_manager ho))" and gen: "mg_next_generation (ho_manager ho) \<notin> {0, - 1}"
    and kind: "bt_get (sp_rules (mg_policy (ho_manager ho))) kind = Some (Some (si_kind (identity_at ho a)))"
    and plan: "ap_scope (sn_plan (scope_at (ho_heap ho) a)) = identity_at ho a"
  obtains ho' s where "build_in_host scc_reference demo_runtime kind a i ([] :: (nat, nat, unit, nat list) internal_plugin list) ho =
      Some (ho', Done (Ok (length (hp_scopes (ho_heap ho)))))"
    "ho_manager ho' = (ho_manager ho)\<lparr>mg_next_generation := mg_next_generation (ho_manager ho) + 1\<rparr>"
    "hp_scopes (ho_heap ho') = hp_scopes (ho_heap ho) @ [s]" "state_of s = SlReady" "ap_scope (sn_plan s) = sn_identity s"
    "si_kind (sn_identity s) = kind" "si_id (sn_identity s) = i" "si_parent_id (sn_identity s) = Some (si_id (identity_at ho a))"
    "sn_children s = []" "sn_plugins s = []" "sn_report s = None"
proof -
  let ?m = "ho_manager ho" and ?plan = "sn_plan (scope_at (ho_heap ho) a)"
  let ?id = "\<lparr>si_kind = kind, si_id = i, si_parent_id = Some (si_id (identity_at ho a)), si_generation = mg_next_generation ?m\<rparr>"
  have v: "validate_identity (mg_policy ?m) ?id (Some (identity_at ho a)) = Ok ()"
    using kind by (simp add: validate_identity_def)
  have n: "next_identity ho kind i (Some a) = (ho\<lparr>ho_manager := ?m\<lparr>mg_next_generation := mg_next_generation ?m + 1\<rparr>\<rparr>, Ok ?id)"
    using v gen by (simp add: next_identity_def Let_def identities_def ActivationGeneration_new_def)
  from v have "validate_identity (mg_policy ?m) ?id (map_option ap_scope (Some ?plan)) = Ok ()" by (simp add: plan)
  from resolve_empty [OF this] obtain plan'
    where p: "resolve_activation_plan scc_reference (mg_policy ?m) ?id (Some ?plan) ([] :: nat plugin_descriptor list) = Ok plan'"
      "ap_scope plan' = ?id" "ap_activation_order plan' = []" by blast
  let ?s = "ScopeSnapshot_new_ready ?id plan' (RegistryHub_candidate ?id) ScopedTaskTracker_new [] :: (nat, unit) scope_snapshot"
  let ?h = "(ho_heap ho)\<lparr>hp_scopes := hp_scopes (ho_heap ho) @ [?s]\<rparr>"
  have b: "build_scope_candidate_with_passive scc_reference demo_runtime (ho_deadlines ho) ?id (Some ?plan)
      ([] :: (nat, nat, unit, nat list) internal_plugin list) [] (ho_heap ho) =
      Some (?h, Done (Ok (length (hp_scopes (ho_heap ho)))))"
    unfolding build_scope_candidate_with_passive_def pol option.case by (simp add: p alloc_def Let_def)
  let ?ho' = "ho\<lparr>ho_manager := ?m\<lparr>mg_next_generation := mg_next_generation ?m + 1\<rparr>, ho_heap := ?h\<rparr>"
  have "build_in_host scc_reference demo_runtime kind a i ([] :: (nat, nat, unit, nat list) internal_plugin list) ho =
      Some (?ho', Done (Ok (length (hp_scopes (ho_heap ho)))))"
    using b by (simp add: build_in_host_def n build_scope_candidate_def)
  then show thesis by (rule that [of _ ?s]) (simp_all add: ScopeSnapshot_new_ready_def state_of_def p(2))
qed

lemma candidate_host_exists:
  obtains ho ho' where "candidate_host ho ho'" "mg_project (ho_manager ho') = None" "mg_workspace (ho_manager ho') = None"
    "length (hp_scopes (ho_heap ho')) = 2" "state_of (scope_at (ho_heap ho') 1) = SlReady"
    "state_of (scope_at (ho_heap ho') 0) = SlActive" "mg_next_generation (ho_manager ho') = 3"
    "phase_one = Some (mg_policy (ho_manager ho'))" "si_kind (identity_at ho' 1) = ''project''" "si_id (identity_at ho' 1) = ''p''"
    "ap_scope (sn_plan (scope_at (ho_heap ho') 1)) = identity_at ho' 1"
    "sn_children (scope_at (ho_heap ho') 1) = []" "sn_plugins (scope_at (ho_heap ho') 1) = []" "sn_report (scope_at (ho_heap ho') 1) = None"
proof -
  obtain ho where ho: "empty_host ho" "mg_project (ho_manager ho) = None" "mg_workspace (ho_manager ho) = None"
    "mg_application (ho_manager ho) = 0" "mg_next_generation (ho_manager ho) = 2" "length (hp_scopes (ho_heap ho)) = 1"
    "identity_at ho 0 = application_identity" "ap_scope (sn_plan (scope_at (ho_heap ho) 0)) = application_identity"
    "phase_one = Some (mg_policy (ho_manager ho))" "state_of (scope_at (ho_heap ho) 0) = SlActive" by (rule empty_host_exists)
  have k: "si_kind application_identity = ''application''" by (simp add: application_identity_def)
  obtain ho' s where b: "build_in_host scc_reference demo_runtime ''project'' 0 ''p'' ([] :: (nat, nat, unit, nat list) internal_plugin list) ho =
      Some (ho', Done (Ok (length (hp_scopes (ho_heap ho)))))"
    "ho_manager ho' = (ho_manager ho)\<lparr>mg_next_generation := mg_next_generation (ho_manager ho) + 1\<rparr>"
    "hp_scopes (ho_heap ho') = hp_scopes (ho_heap ho) @ [s]" "state_of s = SlReady" "ap_scope (sn_plan s) = sn_identity s"
    "si_kind (sn_identity s) = ''project''" "si_id (sn_identity s) = ''p''"
    "sn_children s = []" "sn_plugins s = []" "sn_report s = None"
    by (rule build_empty [of ho "''project''" 0 "''p''"]) (use ho phase_one_parents(2) [OF ho(9)] k in auto)
  have "candidate_host ho ho'" using b(1) ho(1,4,6) by (simp add: candidate_host_def build_project_candidate_def)
  then show thesis
    by (rule that) (use ho(2,3,5,6,9,10) b(2-10) in \<open>simp_all add: scope_at_def identity_at_def nth_append\<close>)
qed

lemma candidate_host_reachable:
  assumes "candidate_host ho ho'"
  shows "started_by scc_reference rt (0 :: nat) ho" "runs scc_reference demo_runtime
    [OpBuildProject ''p'' ([] :: (nat, nat, unit, nat list) internal_plugin list)] ho ho'" "ext_host_inv ho'"
proof -
  show s: "started_by scc_reference rt (0 :: nat) ho" for rt using assms empty_host_started by (simp add: candidate_host_def)
  show r: "runs scc_reference demo_runtime [OpBuildProject ''p'' ([] :: (nat, nat, unit, nat list) internal_plugin list)] ho ho'"
    by (rule runs.operation [OF _ _ runs.nothing]) (use assms in \<open>simp_all add: op_valid_def candidate_host_def\<close>)
  show "ext_host_inv ho'" by (rule reachable_inv [OF s r scc_reference_spec])
qed

text \<open>And with a Workspace candidate below the project candidate, at address 2.\<close>

lemma tree_host_exists:
  obtains ho0 ho where "started_by scc_reference demo_runtime (0 :: nat) ho0"
    "runs scc_reference demo_runtime [OpBuildProject ''p'' ([] :: (nat, nat, unit, nat list) internal_plugin list),
       OpBuildWorkspace 1 ''w'' []] ho0 ho"
    "mg_project (ho_manager ho) = None" "mg_workspace (ho_manager ho) = None" "length (hp_scopes (ho_heap ho)) = 3"
    "state_of (scope_at (ho_heap ho) 1) = SlReady" "state_of (scope_at (ho_heap ho) 2) = SlReady"
    "si_parent_id (identity_at ho 2) = Some (si_id (identity_at ho 1))"
proof -
  obtain ho0 ho where d: "candidate_host ho0 ho" "mg_project (ho_manager ho) = None" "mg_workspace (ho_manager ho) = None"
    "length (hp_scopes (ho_heap ho)) = 2" "state_of (scope_at (ho_heap ho) 1) = SlReady"
    "mg_next_generation (ho_manager ho) = 3" "phase_one = Some (mg_policy (ho_manager ho))"
    "si_kind (identity_at ho 1) = ''project''" "ap_scope (sn_plan (scope_at (ho_heap ho) 1)) = identity_at ho 1"
    by (rule candidate_host_exists) blast
  obtain ho' s where b: "build_in_host scc_reference demo_runtime ''workspace'' 1 ''w'' ([] :: (nat, nat, unit, nat list) internal_plugin list) ho =
      Some (ho', Done (Ok (length (hp_scopes (ho_heap ho)))))"
    "ho_manager ho' = (ho_manager ho)\<lparr>mg_next_generation := mg_next_generation (ho_manager ho) + 1\<rparr>"
    "hp_scopes (ho_heap ho') = hp_scopes (ho_heap ho) @ [s]" "state_of s = SlReady"
    "si_parent_id (sn_identity s) = Some (si_id (identity_at ho 1))"
    by (rule build_empty [of ho "''workspace''" 1 "''w''"]) (use d phase_one_parents(3) [OF d(7)] in auto)
  have r: "runs scc_reference demo_runtime [OpBuildProject ''p'' ([] :: (nat, nat, unit, nat list) internal_plugin list),
       OpBuildWorkspace 1 ''w'' []] ho0 ho'"
    using d(1,4) b(1) by (intro runs.operation)
      (auto simp: op_valid_def candidate_host_def build_workspace_candidate_def intro: runs.nothing)
  show thesis
    by (rule that [OF candidate_host_reachable(1) [OF d(1)] r])
      (use d(2-5) b(2-5) in \<open>simp_all add: scope_at_def identity_at_def nth_append\<close>)
qed

text \<open>Disposing a scope without children and plugins is clean.\<close>

lemma dispose_empty:
  fixes h :: "(nat, unit, nat list) heap"
  assumes a: "a < length (hp_scopes h)" and ok: "scope_ok (scope_at h a)" and new: "sn_report (scope_at h a) = None"
    and none: "sn_children (scope_at h a) = []" "sn_plugins (scope_at h a) = []"
    and d: "dispose_scope demo_runtime dl a h = Some (h', res)"
  shows "\<exists>report. res = Done report \<and> sdr_outcome report = Disposed"
proof -
  have drains: "t = Done False" if "drain demo_runtime dl a h1 = (h2, t)" for h1 h2 :: "(nat, unit, nat list) heap" and t
    using that by (auto simp: drain_def demo_runtime_def)
  have step3: "heap_step {} h (enter_disposing a t h2)"
    if "hp_now demo_runtime (begin_quiesce a h) = (started, h1)" "drain demo_runtime dl a h1 = (h2, Done t)" for started h1 h2 t
    using begin_phase [OF _ new that, of "{}"] heap_step_enter_disposing [of a "{}" h2 t] heap_step_trans by blast
  have kids: "sn_children (scope_at (enter_disposing a t h2) a) = []"
    if "hp_now demo_runtime (begin_quiesce a h) = (started, h1)" "drain demo_runtime dl a h1 = (h2, Done t)" for started h1 h2 t
    using step3 [OF that] none by (simp add: heap_step_def)
  have plugs: "sn_plugins (scope_at (enter_disposing a t h2) a) = []"
    if "hp_now demo_runtime (begin_quiesce a h) = (started, h1)" "drain demo_runtime dl a h1 = (h2, Done t)" for started h1 h2 t
  proof -
    have "scope_evolves (scope_at h a) (scope_at (enter_disposing a t h2) a)" using step3 [OF that] a ok by (simp add: heap_step_def)
    then show ?thesis using none(2) by (simp add: scope_evolves_def)
  qed
  from d [unfolded dispose_scope_def] show ?thesis
  proof (cases rule: quiesce_cases)
    case (drain_cut started h1 n)
    with drains show ?thesis by blast
  next
    case (child_cut started h1 h2 timed n)
    with kids [OF child_cut(3,4)] show ?thesis by simp
  next
    case (plugin_cut started h1 h2 timed h4 crs ct ps cx n)
    then have "h4 = enter_disposing a timed h2" using kids [OF plugin_cut(3,4)] by simp
    with plugin_cut(6) plugs [OF plugin_cut(3,4)] show ?thesis by simp
  next
    case (complete started h1 h2 timed h4 crs ct ps cx prs report)
    then have e: "h4 = enter_disposing a timed h2" "crs = []" "ct = False" using kids [OF complete(3,4)] by simp_all
    moreover have "prs = []" using complete(6) plugs [OF complete(3,4)] e(1) by simp
    moreover have "timed = False" using drains [OF complete(4)] by simp
    ultimately show ?thesis
      using complete(7,8) by (auto simp: finish_dispose_def Let_def)
  qed (use new in simp)
qed

lemma rolled_back_host:
  obtains ho0 ho1 ho report where "candidate_host ho0 ho1" "length (hp_scopes (ho_heap ho1)) = 2"
    "host_dispose demo_runtime 1 ho1 = Some (ho, Done report)" "sn_report (scope_at (ho_heap ho) 1) = Some report"
    "length (hp_scopes (ho_heap ho)) = 2" "sdr_outcome report = Disposed" "sn_report (scope_at (ho_heap ho1) 1) = None"
proof -
  obtain ho0 ho1 where d: "candidate_host ho0 ho1" "length (hp_scopes (ho_heap ho1)) = 2"
    and e: "sn_children (scope_at (ho_heap ho1) 1) = []" "sn_plugins (scope_at (ho_heap ho1) 1) = []" "sn_report (scope_at (ho_heap ho1) 1) = None"
    by (rule candidate_host_exists) blast
  note inv = candidate_host_reachable(3) [OF d(1)]
  have one: "1 < length (hp_scopes (ho_heap ho1))" using d(2) by simp
  obtain ho res where h: "host_dispose demo_runtime 1 ho1 = Some (ho, res)" using host_dispose_returns [OF inv one] by blast
  obtain h' where dd: "dispose_scope demo_runtime (ho_deadlines ho1) 1 (ho_heap ho1) = Some (h', res)" and ho: "ho = ho1\<lparr>ho_heap := h'\<rparr>"
    using h by (auto simp: host_dispose_def)
  have ok: "scope_ok (scope_at (ho_heap ho1) 1)" using host_inv_ok [OF inv] one by blast
  obtain report where r: "res = Done report" "sdr_outcome report = Disposed"
    using dispose_empty [OF one ok e(3,1,2) dd] by blast
  have "sn_report (scope_at (ho_heap ho) 1) = Some report"
    using dispose_scope_report [OF dd [unfolded r(1)] one] by (simp add: ho)
  moreover have "length (hp_scopes (ho_heap ho)) = 2" using host_dispose_good(3) [OF h] d(2) by simp
  ultimately show thesis using that [OF d h [unfolded r(1)] _ _ r(2) e(3)] by blast
qed

section \<open>Reachable hosts\<close>



text \<open>C19. In every reachable host a scope's gates follow its lifecycle state: its registry routes calls
  exactly while it is active, it admits tasks exactly while it is ready or active and is cancelled
  afterwards, and it has a disposal report exactly when it is disposed or failed. The report names the
  scope, says disposed exactly when the state does, and holds one report per activated plugin, in reverse order.\<close>

theorem scope_gates_follow_state:
  assumes "started_by scc rt version_one ho0" "runs scc rt ops ho0 ho" "scc_spec scc" "b < length (hp_scopes (ho_heap ho))"
  defines "s \<equiv> scope_at (ho_heap ho) b"
  shows "(rg_routing (sn_registry s) \<longleftrightarrow> state_of s = SlActive) \<and>
    (tt_accepting (sn_tasks s) \<longleftrightarrow> state_of s \<in> {SlReady, SlActive}) \<and>
    (state_of s \<notin> {SlReady, SlActive} \<longrightarrow> sn_cancelled s) \<and>
    (sn_report s = None \<longleftrightarrow> state_of s \<notin> {SlDisposed, SlFailed}) \<and>
    (\<forall>r. sn_report s = Some r \<longrightarrow> sdr_scope r = sn_identity s \<and> (sdr_outcome r = Disposed \<longleftrightarrow> state_of s = SlDisposed) \<and>
       map fst (sdr_plugin_reports r) = rev (map apl_instance (sn_plugins s)))"
proof -
  have "scope_ok s" unfolding s_def using host_inv_ok [OF reachable_inv [OF assms(1-3)]] assms(4) by blast
  then show ?thesis by (auto simp: scope_ok_def report_ok_def plugin_reports_of_def rev_map)
qed

theorem scope_gates_follow_state_witness:
  "\<exists>ho0 ho. runs scc_reference demo_runtime [OpBuildProject ''p'' ([] :: (nat, nat, unit, nat list) internal_plugin list)] ho0 ho \<and>
     state_of (scope_at (ho_heap ho) 1) = SlReady \<and> \<not> rg_routing (sn_registry (scope_at (ho_heap ho) 1))"
proof -
  obtain ho0 ho where d: "candidate_host ho0 ho" "length (hp_scopes (ho_heap ho)) = 2" "state_of (scope_at (ho_heap ho) 1) = SlReady"
    by (rule candidate_host_exists) blast
  note r = candidate_host_reachable [OF d(1)]
  from scope_gates_follow_state [OF r(1,2) scc_reference_spec, of 1] r(2) d(2,3) show ?thesis by auto
qed

text \<open>C28. Nothing moves backwards: whatever operations follow, a snapshot keeps its identity, its plan and its
  plugins, its lifecycle state never returns to an earlier stage, no contribution appears in its
  registry, and once it has a report its state and its report are final.\<close>

theorem scopes_move_forward:
  assumes "started_by scc rt version_one ho0" "runs scc rt ops ho0 ho" "runs scc rt ops' ho ho'" "scc_spec scc"
    and "b < length (hp_scopes (ho_heap ho))"
  defines "s \<equiv> scope_at (ho_heap ho) b" and "s' \<equiv> scope_at (ho_heap ho') b"
  shows "sn_identity s' = sn_identity s \<and> sn_plan s' = sn_plan s \<and>
    map apl_instance (sn_plugins s') = map apl_instance (sn_plugins s) \<and>
    lifecycle_stage (state_of s) \<le> lifecycle_stage (state_of s') \<and>
    (\<forall>k cap i. slot_owner (sn_registry s') k cap = Some i \<longrightarrow> slot_owner (sn_registry s) k cap = Some i) \<and>
    (sn_report s \<noteq> None \<longrightarrow> sn_report s' = sn_report s \<and> state_of s' = state_of s)"
proof -
  have "host_moves ho ho'" using runs_good [OF assms(3,4) reachable_inv [OF assms(1,2,4)]] by blast
  with assms(5) show ?thesis by (auto simp: host_moves_def scope_evolves_def s_def s'_def state_of_def)
qed

theorem scopes_move_forward_witness:
  "\<exists>ho0 ho. runs scc_reference demo_runtime [OpBuildProject ''p'' ([] :: (nat, nat, unit, nat list) internal_plugin list)] ho0 ho \<and>
     sn_identity (scope_at (ho_heap ho) 0) = sn_identity (scope_at (ho_heap ho0) 0)"
proof -
  obtain ho0 ho where d: "candidate_host ho0 ho" by (rule candidate_host_exists)
  note r = candidate_host_reachable [OF d]
  have "mg_application (ho_manager ho0) < length (hp_scopes (ho_heap ho0))"
    by (rule application_valid, rule started_inv [OF r(1) scc_reference_spec])
  then have "0 < length (hp_scopes (ho_heap ho0))" by (rule le_less_trans [OF le0])
  from scopes_move_forward [OF r(1) runs.nothing r(2) scc_reference_spec this] r(2) show ?thesis by blast
qed

text \<open>C25. Generations are never reused, so a completion is accepted exactly when it comes from the snapshot that
  is in the slot: in every reachable host two snapshots never share an identity, and
  \<open>validate_current\<close> accepts the identity of a snapshot exactly when the slot holds that snapshot.\<close>

theorem stale_completion_rejected:
  assumes "started_by scc rt version_one ho0" "runs scc rt ops ho0 ho" "scc_spec scc" "a < length (hp_scopes (ho_heap ho))"
  shows "(\<forall>b < length (hp_scopes (ho_heap ho)). identity_at ho a = identity_at ho b \<longrightarrow> a = b) \<and>
    (validate_current ho k (identity_at ho a) = Ok () \<longleftrightarrow> slot_current (ho_manager ho) k = Some a)"
proof -
  have inv: "ext_host_inv ho" by (rule reachable_inv [OF assms(1-3)])
  then have inj: "inj_on (generation_at (ho_heap ho)) {..< length (hp_scopes (ho_heap ho))}"
    by (simp add: ext_host_inv_def generations_ok_def)
  have same: "a = b" if "b < length (hp_scopes (ho_heap ho))" "identity_at ho a = identity_at ho b" for b
  proof (rule inj_onD [OF inj])
    show "generation_at (ho_heap ho) a = generation_at (ho_heap ho) b" using that(2) by (simp add: generation_at_def identity_at_def)
  qed (use assms(4) that(1) in simp_all)
  have "p < length (hp_scopes (ho_heap ho))" if "slot_current (ho_manager ho) k = Some p" for p
    by (rule slots_not_ready(1) [OF inv slot_current_slot [OF that]])
  moreover have "b = a" if "b < length (hp_scopes (ho_heap ho))" "identity_at ho b = identity_at ho a" for b
    using same [OF that(1)] that(2) by simp
  ultimately show ?thesis using same by (auto simp: validate_current_def identities_def Let_def split: if_splits)
qed

theorem stale_completion_rejected_witness:
  "\<exists>ho0 ho. runs scc_reference demo_runtime [OpBuildProject ''p'' ([] :: (nat, nat, unit, nat list) internal_plugin list)] ho0 ho \<and>
     validate_current ho ProjectSlot (identity_at ho 1) \<noteq> Ok ()"
proof -
  obtain ho0 ho where d: "candidate_host ho0 ho" "mg_project (ho_manager ho) = None" "length (hp_scopes (ho_heap ho)) = 2"
    by (rule candidate_host_exists) blast
  note r = candidate_host_reachable [OF d(1)]
  have "validate_current ho ProjectSlot (identity_at ho 1) \<noteq> Ok ()"
    using stale_completion_rejected [OF r(1,2) scc_reference_spec, of 1 ProjectSlot] d by simp
  with r(2) show ?thesis by blast
qed



section \<open>Publishing and building\<close>



text \<open>
  A scope that is already published is not ready, so publishing it once more is refused, and the
  refusal closes the scope that is in use: the slot goes on holding a closed scope.
\<close>

lemma republication_closes_current:
  assumes "started_by scc rt version_one ho0" "runs scc rt ops ho0 ho" "scc_spec scc"
    and "mg_project (ho_manager ho) = Some c" "publish_project rt e c ho = Some (ho', res)"
  shows "mg_project (ho_manager ho') = Some c \<and> closed_at ho' c"
proof -
  note inv = reachable_inv [OF assms(1-3)]
  have c: "c < length (hp_scopes (ho_heap ho))" "state_of (scope_at (ho_heap ho) c) \<noteq> SlReady"
    using slots_not_ready [OF inv, of c] assms(4) by (simp_all add: slot_set_def)
  from publish_project_refuses(1,2) [OF assms(5) inv c(1)] c(2) assms(4) show ?thesis by simp
qed

text \<open>C21. \<open>publish_project_tree\<close> is atomic over both slots: it commits exactly when both candidates are ready, the
  Workspace candidate names the project candidate as its parent and both slots hold what is expected.
  Then both slots move, both candidates are active and the replaced project is closed. Otherwise
  neither slot changes and the candidates are closed.\<close>

theorem publish_tree_atomic:
  assumes "started_by scc rt version_one ho0" "runs scc rt ops ho0 ho" "scc_spec scc"
    and "p < length (hp_scopes (ho_heap ho))" "w < length (hp_scopes (ho_heap ho))"
    and t: "publish_project_tree rt ep p ew w ho = Some (ho', res)"
  shows "if state_of (scope_at (ho_heap ho) p) = SlReady \<and> state_of (scope_at (ho_heap ho) w) = SlReady \<and>
      si_parent_id (identity_at ho w) = Some (si_id (identity_at ho p)) \<and>
      mg_project (ho_manager ho) = ep \<and> mg_workspace (ho_manager ho) = ew
    then ho_manager ho' = (ho_manager ho)\<lparr>mg_project := Some p, mg_workspace := Some w\<rparr> \<and>
      state_of (scope_at (ho_heap ho') p) = SlActive \<and> state_of (scope_at (ho_heap ho') w) = SlActive \<and>
      (\<forall>q. ep = Some q \<longrightarrow> closed_at ho' q) \<and> (\<forall>x. res \<noteq> Done (Err x))
    else ho_manager ho' = ho_manager ho \<and> closed_at ho' w \<and> (\<forall>r. res \<noteq> Done (Ok r)) \<and>
      (\<forall>x. res = Done (Err x) \<longrightarrow> closed_at ho' p)"
    (is "if ?ok then ?yes else ?no")
proof -
  note inv = reachable_inv [OF assms(1-3)]
  have "?yes" if ok: ?ok
    using t
  proof (cases rule: tree_cases)
    case (committed g)
    from publish_tree_committed [OF committed(8) inv committed(1) assms(4,5) committed(2,3,5,6)] show ?thesis by blast
  qed (use ok in simp_all)
  moreover have "?no" if "\<not> ?ok" using publish_tree_rejected [OF t inv assms(4,5) that] by blast
  ultimately show ?thesis by simp
qed

theorem publish_tree_atomic_witness:
  "\<exists>ho ho' :: (nat, unit, nat list) host. \<exists>res. publish_project_tree demo_runtime None 1 None 2 ho = Some (ho', res) \<and>
     mg_project (ho_manager ho') = Some 1 \<and> mg_workspace (ho_manager ho') = Some 2"
proof -
  obtain ho0 ho where d: "started_by scc_reference demo_runtime (0 :: nat) ho0"
    "runs scc_reference demo_runtime [OpBuildProject ''p'' ([] :: (nat, nat, unit, nat list) internal_plugin list),
       OpBuildWorkspace 1 ''w'' []] ho0 ho"
    "mg_project (ho_manager ho) = None" "mg_workspace (ho_manager ho) = None" "length (hp_scopes (ho_heap ho)) = 3"
    "state_of (scope_at (ho_heap ho) 1) = SlReady" "state_of (scope_at (ho_heap ho) 2) = SlReady"
    "si_parent_id (identity_at ho 2) = Some (si_id (identity_at ho 1))" by (rule tree_host_exists)
  have "exec_op scc_reference demo_runtime (OpPublishTree None 1 None 2 :: (nat, nat, unit, nat list) host_op) ho \<noteq> None"
    by (rule exec_returns [OF scc_reference_spec reachable_inv [OF d(1,2) scc_reference_spec]]) (simp_all add: op_valid_def d(5))
  then obtain ho' res where p: "publish_project_tree demo_runtime None 1 None 2 ho = Some (ho', res)" by auto
  have "ho_manager ho' = (ho_manager ho)\<lparr>mg_project := Some 1, mg_workspace := Some 2\<rparr>"
    using publish_tree_atomic [OF d(1,2) scc_reference_spec _ _ p] d by simp
  then have "mg_project (ho_manager ho') = Some 1 \<and> mg_workspace (ho_manager ho') = Some 2" by simp
  with p show ?thesis by blast
qed

text \<open>Of two publications of the project slot that expect the same snapshot at most one succeeds, in
  whatever order they are served.\<close>

lemma one_project_publisher_wins:
  assumes "started_by scc rt version_one ho0" "runs scc rt ops ho0 ho" "scc_spec scc"
    and "publish_project rt e c ho = Some (ho1, Done (Ok r))" "c < length (hp_scopes (ho_heap ho))"
    and "publish_project rt e c' ho1 = Some (ho2, res)" "c' < length (hp_scopes (ho_heap ho1))"
  shows "res \<noteq> Done (Ok r')"
proof
  assume "res = Done (Ok r')"
  then have "project_cas rt ho1 e c' = Some ho2" using assms(6,7) by (simp add: project_cas_def)
  moreover have "project_cas rt ho1 e c' = None"
    by (rule project_slot.one_winner [OF reachable_inv [OF assms(1-3)], of rt e c]) (use assms(4,5) in \<open>simp add: project_cas_def\<close>)
  ultimately show False by simp
qed

text \<open>C27. Building a project candidate moves no slot. A candidate that is returned is a new, ready snapshot of the
  asked name in a generation larger than any before. When an activation fails, what was activated is
  disposed at once: its snapshot is closed, its report is the one returned, and unless that report says
  failed none of its contributions is left.\<close>

theorem build_candidate_outcome:
  fixes ho ho' :: "('x, 'h, 'w) host"
  assumes "started_by scc rt version_one ho0" "runs scc rt ops ho0 ho" "scc_spec scc"
    and b: "build_project_candidate scc rt i plugins ho = Some (ho', res)"
  defines "n \<equiv> length (hp_scopes (ho_heap ho))"
  shows "slot_set (ho_manager ho') = slot_set (ho_manager ho) \<and>
    (\<forall>c. res = Done (Ok c) \<longrightarrow> c = n \<and> state_of (scope_at (ho_heap ho') n) = SlReady \<and>
       si_kind (identity_at ho' n) = ''project'' \<and> si_id (identity_at ho' n) = i \<and>
       (\<forall>b < n. si_generation (identity_at ho b) < si_generation (identity_at ho' n))) \<and>
    (\<forall>pid e r. res = Done (Err (Activation pid e r)) \<longrightarrow> closed_at ho' n \<and> sn_report (scope_at (ho_heap ho') n) = Some r \<and>
       (sdr_outcome r = Disposed \<longrightarrow> (\<forall>k cap. slot_owner (sn_registry (scope_at (ho_heap ho') n)) k cap = None)))"
proof -
  note inv = reachable_inv [OF assms(1-3)]
  from b have "build_in_host scc rt ''project'' (mg_application (ho_manager ho)) i plugins ho = Some (ho', res)"
    by (simp add: build_project_candidate_def)
  then show ?thesis
    using assms(3) inv application_valid [OF inv]
  proof (cases rule: build_in_host_cases)
    case (refused e ho1)
    then have "slot_set (ho_manager ho') = slot_set (ho_manager ho)"
      by (auto simp: next_identity_def Let_def slot_set_def split: if_splits)
    with refused(1) show ?thesis by auto
  next
    case (attempted ho1 identity h)
    note ni = next_identity_Ok(3) [OF attempted(1) inv refl]
    have sl: "slot_set (ho_manager ho') = slot_set (ho_manager ho)"
      using attempted(1,2) by (auto simp: next_identity_def Let_def slot_set_def split: if_splits)
    have inv': "ext_host_inv ho'" using attempted(4,6) by (simp add: good_step_def)
    have older: "si_generation (identity_at ho b) < si_generation identity" if "b < n" for b
      using inv that ni by (simp add: ext_host_inv_def generations_ok_def generation_at_def identity_at_def n_def word_less_nat_alt)
    from attempted(7) show ?thesis
    proof (cases rule: build_cases)
      case none
      with sl show ?thesis by blast
    next
      case (built s policy)
      then have "scope_at (ho_heap ho') n = s"
        by (simp add: attempted(2) n_def scope_at_def with_scope_def)
      with built(1,3) sl ni older show ?thesis
        by (auto simp: n_def identity_at_def fresh_scope_def)
    next
      case (rolled s policy)
      have "n < length (hp_scopes (ho_heap ho'))"
        using heap_step_length [OF rolled(2)] by (simp add: attempted(2) n_def scope_at_with_scope(3))
      then have "scope_ok (scope_at (ho_heap ho') n)" using host_inv_ok [OF inv'] by blast
      with rolled(3-5) sl show ?thesis
        using disposed_registry_empty by (fastforce simp: attempted(2) n_def closed_at_def)
    qed
  qed
qed

theorem build_candidate_outcome_witness:
  "\<exists>ho ho'. build_project_candidate scc_reference demo_runtime ''p'' ([] :: (nat, nat, unit, nat list) internal_plugin list) ho =
     Some (ho', Done (Ok 1)) \<and> si_id (identity_at ho' 1) = ''p''"
proof -
  obtain ho0 ho where d: "candidate_host ho0 ho" by (rule candidate_host_exists)
  note r = candidate_host_reachable [OF d]
  have b: "build_project_candidate scc_reference demo_runtime ''p'' ([] :: (nat, nat, unit, nat list) internal_plugin list) ho0 =
     Some (ho, Done (Ok 1))" using d by (simp add: candidate_host_def)
  from build_candidate_outcome [OF r(1) runs.nothing scc_reference_spec b] b show ?thesis by auto
qed

section \<open>Disposal\<close>

text \<open>C22. In every reachable host a disposed scope has left nothing behind: after a report that says disposed, the
  registry has no contribution of any kind. After a report that says failed, a contribution that is
  left belongs to a plugin whose own report is failed and lists an effect that failed.\<close>

theorem disposed_scope_leaves_nothing:
  assumes "started_by scc rt version_one ho0" "runs scc rt ops ho0 ho" "scc_spec scc" "b < length (hp_scopes (ho_heap ho))"
    and r: "sn_report (scope_at (ho_heap ho) b) = Some report"
  shows "(sdr_outcome report = Disposed \<longrightarrow> slot_owner (sn_registry (scope_at (ho_heap ho) b)) k cap = None) \<and>
    (slot_owner (sn_registry (scope_at (ho_heap ho) b)) k cap \<noteq> None \<longrightarrow>
       (\<exists>p \<in> set (sdr_plugin_reports report). edr_outcome (snd p) = Failed \<and>
          (\<exists>er \<in> set (edr_records (snd p)). er_status er = EffFailed)))"
proof -
  have ok: "scope_ok (scope_at (ho_heap ho) b)" using host_inv_ok [OF reachable_inv [OF assms(1-3)]] assms(4) by blast
  show ?thesis using disposed_registry_empty [OF ok r] leftover_accounted [OF ok r] by blast
qed

theorem disposed_scope_leaves_nothing_witness:
  "\<exists>ho0 ho report. runs scc_reference demo_runtime
       [OpBuildProject ''p'' ([] :: (nat, nat, unit, nat list) internal_plugin list), OpRollback 1] ho0 ho \<and>
     sn_report (scope_at (ho_heap ho) 1) = Some report \<and> sdr_outcome report = Disposed \<and>
     slot_owner (sn_registry (scope_at (ho_heap ho) 1)) SlotMarker ''c'' = None"
proof -
  obtain ho0 ho1 ho report where d: "candidate_host ho0 ho1" "length (hp_scopes (ho_heap ho1)) = 2"
    and h: "host_dispose demo_runtime 1 ho1 = Some (ho, Done report)" "sn_report (scope_at (ho_heap ho) 1) = Some report"
      "length (hp_scopes (ho_heap ho)) = 2" "sdr_outcome report = Disposed" by (rule rolled_back_host)
  note r = candidate_host_reachable [OF d(1)]
  have run: "runs scc_reference demo_runtime
       [OpBuildProject ''p'' ([] :: (nat, nat, unit, nat list) internal_plugin list), OpRollback 1] ho0 ho"
    using d h(1) by (intro runs.operation)
      (auto simp: op_valid_def candidate_host_def intro: runs.nothing)
  have "1 < length (hp_scopes (ho_heap ho))" using h(3) by simp
  from disposed_scope_leaves_nothing [OF r(1) run scc_reference_spec this h(2), of SlotMarker "''c''"] run h(2,4)
  show ?thesis by blast
qed







section \<open>Leases\<close>



end
