(* ===== verification/Spec2Isabelle.thy ===== *)
theory Spec2Isabelle
  imports Grant_Properties Resolver_Properties Lifecycle_Properties Evolution_Properties Schema_Conformance
    Contribution_Properties Manifest_Properties Host_Protocol Broker Observation_Properties Scope_Properties
begin

text \<open>
  Verification of the Rho extension runtime (\<^verbatim>\<open>src/crates/rho-extension-runtime\<close>), the part of Rho
  that decides what an untrusted workspace plugin may declare, when it is activated and what it may do.

  \<^bold>\<open>The program.\<close> A package is described by a manifest (\<^verbatim>\<open>manifest.rs\<close>), which is parsed and
  validated before any code runs. Its capabilities become a descriptor (\<^verbatim>\<open>model.rs\<close>) and the resolver
  (\<^verbatim>\<open>resolver.rs\<close>) orders the plugins of a scope. The plugin manager (\<^verbatim>\<open>instance.rs\<close>) owns the
  instances, their states, generations and accepted digests. The extension host (\<^verbatim>\<open>lifecycle.rs\<close>) builds
  scopes of activated plugins, publishes them into slots by compare-and-swap, routes calls to their
  contributions under leases and disposes what it replaces; a host process speaks a typed protocol with each
  (\<^verbatim>\<open>host.rs\<close>, \<^verbatim>\<open>broker.rs\<close>). Every privileged call passes the reference monitor of grants
  (\<^verbatim>\<open>grant.rs\<close>), whose constraints come from the manifest's permission requests. Declarative
  contributions (\<^verbatim>\<open>contribution.rs\<close>, with the schemas of \<^verbatim>\<open>json_schema.rs\<close>) are published to the
  trusted shell. Evolution (\<^verbatim>\<open>evolution.rs\<close>, \<^verbatim>\<open>evaluation.rs\<close>, \<^verbatim>\<open>builder.rs\<close>,
  \<^verbatim>\<open>gardener.rs\<close>, \<^verbatim>\<open>observation.rs\<close>) governs how an agent may propose a new digest of a plugin.

  \<^bold>\<open>Theories.\<close>

  \<^item> \<open>Rho_Prelude\<close>, \<open>Ordered_Map\<close>, \<open>Text\<close>, \<open>Json\<close>: results, byte strings, \<open>BTreeMap\<close> (with the locale
    \<open>ordered_store\<close>), UTF-8, JSON values and the rounding of integers to doubles.
  \<^item> \<open>Interfaces\<close>: the contracts several components share, as locales: \<open>step_system\<close> (an invariant over
    all operation sequences), \<open>stable_property\<close> (what no operation undoes), \<open>refinement\<close>, \<open>cas_cell\<close> and
    \<open>moving_cas\<close> (compare-and-swap pointers) and \<open>codec\<close>. The components interpret them.
  \<^item> \<open>Identifiers\<close>: \<^verbatim>\<open>id.rs\<close>, \<^verbatim>\<open>digest.rs\<close>, \<^verbatim>\<open>error.rs\<close>.
  \<^item> \<open>Path_Patterns\<close>, \<open>Permissions\<close>, \<open>Grants\<close>, \<open>Grant_Monitor\<close>, \<open>Grant_Properties\<close>: \<^verbatim>\<open>grant.rs\<close>. A
    \<open>grant_store\<close> is the code's \<open>GrantStore\<close>; \<open>grant\<close>, \<open>revoke\<close>, \<open>revalidate\<close>, \<open>complete\<close> and the
    invalidations are its methods. Shown: complete mediation, permanence of revocation and consumption,
    exclusive reservations, one live handle per durable grant, confinement of admitted reads and
    fetches, and that the memoised glob matcher decides the pattern semantics (C1 to C9).
  \<^item> \<open>Scope_Model\<close>, \<open>Dep_Graph\<close>, \<open>Activation_Order\<close>, \<open>Resolver\<close>, \<open>Resolver_Properties\<close>: \<^verbatim>\<open>model.rs\<close> and
    \<^verbatim>\<open>resolver.rs\<close>. Shown: what a resolved plan guarantees, topological order, determinism, absence of
    panics, that reported cycles are real (C10 to C14), and that scope policies are forests.
  \<^item> \<open>Plugin_Instance\<close>, \<open>Audit_Text\<close>, \<open>Plugin_Lifecycle\<close>, \<open>Lifecycle_Spec\<close>, \<open>Lifecycle_Properties\<close>:
    \<^verbatim>\<open>instance.rs\<close>. \<open>Lifecycle_Spec\<close> is an abstract machine per plugin that the manager refines;
    also the invariant, all-or-nothing enabling, the finality of a crash (C15 to C18), growing
    generations, the single winner of rival replacements and the bounded audit text.
  \<^item> \<open>Scope_Registry\<close>, \<open>Lease_Protocol\<close>, \<open>Effect_Stack\<close>, \<open>Scope_Snapshot\<close>, \<open>Scope_Build\<close>, \<open>Scope_Manager\<close>:
    the code of \<^verbatim>\<open>lifecycle.rs\<close>, from \<open>RegistryHub\<close> to \<open>ExtensionHost\<close>. A \<open>scope_snapshot\<close> is the code's
    \<open>ScopeSnapshot\<close>; snapshots are shared, so they live in a heap and an \<open>Arc\<close> is an address. A \<open>host\<close> is
    the \<open>ExtensionHost\<close> with its \<open>ScopeManager\<close>, whose slots hold addresses.
  \<^item> \<open>Scope_Invariant\<close>, \<open>Scope_Runs\<close>, \<open>Scope_Outcomes\<close>, \<open>Scope_Properties\<close>: the operations as a step relation
    \<open>runs\<close> and the invariant of every reachable host; that every operation returns; the outcome of each
    publication, with the project slot as an instance of \<open>moving_cas\<close>. Shown: gates that follow the
    lifecycle state, publication of one scope and of a tree, what disposal leaves, the order of
    effects, the lease protocol under every interleaving of its atomic instructions, rejection of
    stale completions, termination, rollback of failed activations, and that nothing moves backwards
    (C19 to C30).
  \<^item> \<open>Evaluation\<close>, \<open>Evolution\<close>, \<open>Staging\<close>, \<open>Evolution_Properties\<close>: \<^verbatim>\<open>evaluation.rs\<close>,
    \<^verbatim>\<open>evolution.rs\<close>, \<^verbatim>\<open>gardener.rs\<close>, \<^verbatim>\<open>builder.rs\<close>. Shown: the hard gates, the chain of
    evaluated promotions behind every accepted digest and confinement of staging (C31 to C33), with
    publication as compare-and-swap and reversibility of staging.
  \<^item> \<open>Json_Schema\<close>, \<open>Schema_Conformance\<close>: \<^verbatim>\<open>json_schema.rs\<close>. Shown: the aggregate bounds of an accepted
    schema, and that the instance validator decides the relation \<open>conforms\<close> without panicking (C34, C35).
  \<^item> \<open>Contribution\<close>, \<open>Contribution_Store\<close>, \<open>Contribution_Properties\<close>: \<^verbatim>\<open>contribution.rs\<close>. Shown:
    atomic compare-and-swap publication and its exact inverse (C36, C37), isolation and budget.
  \<^item> \<open>Manifest\<close>, \<open>Manifest_Properties\<close>: \<^verbatim>\<open>manifest.rs\<close> and its composition with the grant constraints,
    the contribution store and the resolver (C38).
  \<^item> \<open>Host_Protocol\<close>, \<open>Broker\<close>: \<^verbatim>\<open>host.rs\<close> as a step relation with reachability, and
    \<^verbatim>\<open>broker.rs\<close> (C39). \<open>Observation\<close>, \<open>Observation_Properties\<close>: \<^verbatim>\<open>observation.rs\<close> (C40).

  \<^bold>\<open>Correspondence.\<close> A struct is a record and an enum a datatype, with the code's names or a short prefix; a
  method that mutates \<open>self\<close> takes the state and returns it with its result, on error paths too. A Rust
  string is its byte sequence, \<open>u64\<close> a 64-bit word with \<open>checked_add\<close> written out, a \<open>BTreeMap\<close> a list in
  key order, \<open>Result\<close> a sum, and a panic a value of its own where one could occur. Clocks, random tokens
  and generated identifiers are arguments. Functions of crates outside the repository are parameters:
  SHA-256, \<open>serde_json\<close>'s encoders and decoders, \<open>semver\<close>'s requirement grammar, \<open>petgraph\<close>'s strongly
  connected components (with the contract \<open>scc_spec\<close>, which a reference function satisfies).

  \<^bold>\<open>Asynchrony.\<close> What \<^verbatim>\<open>lifecycle.rs\<close> takes from \<open>tokio\<close> and from plugins is the record \<open>runtime\<close>: the clock,
  how a disposer ends under its timeout, how a drain ends, and what other threads did to the counts of
  leases and tasks. A future dropped by an enclosing timeout is the outcome \<open>Cut\<close>, and every state change
  made before it remains. What a plugin does while it is activated is a tree of calls on its context.
  Publications hold the manager's gate, so they are taken one after the other; the lease counter, which
  no gate protects, is modelled instruction by instruction, in sequentially consistent order.

  \<^bold>\<open>Termination.\<close> Disposal recurses over children that any code may have linked: \<open>quiesce_and_dispose\<close> has fuel,
  \<open>dispose_scope\<close> supplies one more than there are snapshots, and C26 shows that it never runs out in a
  reachable host, because the children form no cycle. No other fuel is used. The glob matcher, Kahn's loop, the cycle search and the walk over parent
  scopes have their own measures; the schema validators recurse on the depth they bound by eight.

  \<^bold>\<open>Not modelled.\<close> \<^verbatim>\<open>wasm_host.rs\<close> (it drives the \<open>wasmtime\<close> engine), \<^verbatim>\<open>contribution_call.rs\<close>, \<^verbatim>\<open>viewer_document.rs\<close> and
  \<^verbatim>\<open>discovery.rs\<close> (directory walks) of this crate; and the other crates: \<^verbatim>\<open>rho-store\<close> (SQL over
  SQLite), \<^verbatim>\<open>rho-server\<close>, \<^verbatim>\<open>rho-kernel\<close>, \<^verbatim>\<open>rho-cli\<close>, \<^verbatim>\<open>rho-mcp\<close>, the desktop shell under
  \<^verbatim>\<open>desktop/src-tauri\<close> and the vendored \<^verbatim>\<open>vendor/jet\<close>, which are input/output, processes and user
  interface around this logic.
\<close>

end
